(* ===== verification/Prelude.thy ===== *)
theory Prelude
  imports Main "HOL-Library.Sublist"
begin

text \<open>
  Shared vocabulary of the development: JavaScript strings and arrays as the
  TypeScript sources use them, time stamps, and generic list lemmas.

  A JavaScript string is a sequence of UTF-16 code units. The model keeps the code
  units up to 0xFF (Latin-1): a \<^typ>\<open>char\<close> is one such unit. On these
  strings \<open>trim\<close> and \<open>toLowerCase\<close> below are exact.
\<close>

named_theorems js_simps \<open>evaluation rules of the JavaScript string and array primitives\<close>
named_theorems db_simps \<open>evaluation rules of the database operations\<close>

type_synonym time_ms = int \<comment> \<open>a Date as milliseconds since the epoch\<close>
type_synonym time_us = int \<comment> \<open>a timestamptz as microseconds since the epoch\<close>
type_synonym uuid = string

text \<open>A \<open>Date\<close> holds whole milliseconds and PostgreSQL microseconds: \<open>us_of\<close> is a
  \<open>Date\<close> written to the database, \<open>ms_of\<close> a column read into a \<open>Date\<close>.\<close>

definition us_of :: "time_ms \<Rightarrow> time_us" where "us_of t = t * 1000"

definition ms_of :: "time_us \<Rightarrow> time_ms" where "ms_of u = u div 1000"

lemma ms_of_us_of [simp]: "ms_of (us_of t) = t"
  by (simp add: us_of_def ms_of_def)

lemma us_of_mono [simp]: "us_of a < us_of b \<longleftrightarrow> a < b" "us_of a \<le> us_of b \<longleftrightarrow> a \<le> b" "us_of a = us_of b \<longleftrightarrow> a = b"
  by (auto simp: us_of_def)

section \<open>Strings\<close>

definition char_code :: "char \<Rightarrow> nat" where
  "char_code c = of_char c"

text \<open>White space and line terminators of ECMAScript within Latin-1: TAB, LF, VT, FF,
  CR, SP and NBSP.\<close>

definition js_ws :: "char \<Rightarrow> bool" where
  "js_ws c = (let n = char_code c in (9 \<le> n \<and> n \<le> 13) \<or> n = 32 \<or> n = 160)"

definition js_trimStart :: "string \<Rightarrow> string" where
  "js_trimStart s = dropWhile js_ws s"

definition js_trim :: "string \<Rightarrow> string" where
  "js_trim s = rev (dropWhile js_ws (rev (js_trimStart s)))"

text \<open>Lower case within Latin-1: A to Z, and 0xC0 to 0xDE but the multiplication sign 0xD7.\<close>

definition js_lower_char :: "char \<Rightarrow> char" where
  "js_lower_char c =
     (let n = char_code c in
      if (65 \<le> n \<and> n \<le> 90) \<or> (192 \<le> n \<and> n \<le> 222 \<and> n \<noteq> 215) then char_of (n + 32) else c)"

definition js_toLowerCase :: "string \<Rightarrow> string" where
  "js_toLowerCase s = map js_lower_char s"

definition js_startsWith :: "string \<Rightarrow> string \<Rightarrow> bool" where
  "js_startsWith s p = (take (length p) s = p)"

definition js_endsWith :: "string \<Rightarrow> string \<Rightarrow> bool" where
  "js_endsWith s p = (length p \<le> length s \<and> drop (length s - length p) s = p)"

text \<open>\<open>s.lastIndexOf(c)\<close> for a one-character needle; -1 when it does not occur.\<close>

definition js_lastIndexOf :: "string \<Rightarrow> char \<Rightarrow> int" where
  "js_lastIndexOf s c =
     (if c \<in> set s then int (length s) - 1 - int (length (takeWhile (\<lambda>x. x \<noteq> c) (rev s))) else -1)"

text \<open>\<open>s.slice(i, j)\<close>: negative bounds count from the end, both are clamped.\<close>

definition js_rel_index :: "nat \<Rightarrow> int \<Rightarrow> nat" where
  "js_rel_index n i = (if i < 0 then nat (int n + i) else min (nat i) n)"

definition js_slice :: "'a list \<Rightarrow> int \<Rightarrow> int \<Rightarrow> 'a list" where
  "js_slice s i j =
     (let a = js_rel_index (length s) i; b = js_rel_index (length s) j in take (b - a) (drop a s))"

definition js_slice_from :: "'a list \<Rightarrow> int \<Rightarrow> 'a list" where
  "js_slice_from s i = drop (js_rel_index (length s) i) s"

text \<open>\<open>s.split(c)\<close> for a one-character separator; the empty string gives one empty part.\<close>

fun js_split :: "char \<Rightarrow> string \<Rightarrow> string list" where
  "js_split c [] = [[]]"
| "js_split c (x # xs) =
     (if x = c then [] # js_split c xs
      else (case js_split c xs of [] \<Rightarrow> [[x]] | p # ps \<Rightarrow> (x # p) # ps))"

fun js_join :: "string \<Rightarrow> string list \<Rightarrow> string" where
  "js_join sep [] = []"
| "js_join sep [p] = p"
| "js_join sep (p # q # ps) = p @ sep @ js_join sep (q # ps)"

text \<open>\<open>xs[i] ?? d\<close>: reading past the end of an array gives \<open>undefined\<close>.\<close>

definition js_at :: "'a list \<Rightarrow> nat \<Rightarrow> 'a \<Rightarrow> 'a" where
  "js_at xs i d = (if i < length xs then xs ! i else d)"

definition js_get_index :: "'a list \<Rightarrow> nat \<Rightarrow> 'a option" where
  "js_get_index xs i = (if i < length xs then Some (xs ! i) else None)"

text \<open>\<open>findIndex\<close> and, with an equality, \<open>indexOf\<close>; \<open>None\<close> stands for -1.\<close>

fun find_index :: "('a \<Rightarrow> bool) \<Rightarrow> 'a list \<Rightarrow> nat option" where
  "find_index P [] = None"
| "find_index P (x # xs) = (if P x then Some 0 else map_option Suc (find_index P xs))"

text \<open>The first element of a query result, as the pattern \<open>const [row] = ...\<close> takes it.\<close>

definition first_row :: "'a list \<Rightarrow> 'a option" where
  "first_row xs = (case xs of [] \<Rightarrow> None | x # _ \<Rightarrow> Some x)"

text \<open>Sequencing of steps that may raise (\<open>Inl\<close>).\<close>

definition and_then :: "'e + 'a \<Rightarrow> ('a \<Rightarrow> 'e + 'b) \<Rightarrow> 'e + 'b" where
  "and_then m f = (case m of Inl e \<Rightarrow> Inl e | Inr x \<Rightarrow> f x)"

lemma and_then_simps [simp]: "and_then (Inl e) f = Inl e" "and_then (Inr x) f = f x"
  by (simp_all add: and_then_def)

lemma pred_option_code [code]:
  "pred_option P None = True" "pred_option P (Some x) = P x"
  by simp_all

lemma map_sum_snd_Inr: "map_sum id snd x = Inr y \<Longrightarrow> \<exists>b. x = Inr (b, y)"
  by (cases x) (auto intro: prod_eqI)

lemma and_then_Inr: "and_then m f = Inr y \<longleftrightarrow> (\<exists>x. m = Inr x \<and> f x = Inr y)"
  by (cases m) auto

lemma and_then_Inl: "and_then m f = Inl e \<longleftrightarrow> m = Inl e \<or> (\<exists>x. m = Inr x \<and> f x = Inl e)"
  by (cases m) auto

lemmas js_defs [js_simps] =
  js_trimStart_def js_toLowerCase_def js_startsWith_def js_endsWith_def js_at_def
  js_get_index_def first_row_def

section \<open>Laws of the string primitives\<close>

lemma dropWhile_idem: "dropWhile P (dropWhile P xs) = dropWhile P xs"
  by (induction xs) auto

lemma dropWhile_rev_dropWhile:
  "dropWhile P (rev (dropWhile P (rev (dropWhile P xs)))) = rev (dropWhile P (rev (dropWhile P xs)))"
proof (cases "rev (dropWhile P (rev (dropWhile P xs)))")
  case Nil
  show ?thesis unfolding Nil by simp
next
  case (Cons y ys)
  have "prefix (y # ys) (dropWhile P xs)"
    unfolding Cons [symmetric] by (metis rev_rev_ident suffix_dropWhile suffix_to_prefix)
  then have "\<not> P y"
    by (auto simp: prefix_def dropWhile_eq_Cons_conv)
  then show ?thesis unfolding Cons by simp
qed

lemma js_trim_idem [simp]: "js_trim (js_trim s) = js_trim s"
  by (simp add: js_trim_def js_trimStart_def dropWhile_rev_dropWhile dropWhile_idem)

lemma js_trim_length: "length (js_trim s) \<le> length s"
proof -
  have "length (js_trim s) \<le> length (dropWhile js_ws s)"
    by (simp add: js_trim_def js_trimStart_def length_dropWhile_le)
       (metis length_dropWhile_le length_rev)
  also have "\<dots> \<le> length s" by (rule length_dropWhile_le)
  finally show ?thesis .
qed

lemma js_trim_sublist: "sublist (js_trim s) s"
proof -
  have "prefix (js_trim s) (js_trimStart s)"
    unfolding js_trim_def by (metis rev_rev_ident suffix_dropWhile suffix_to_prefix)
  moreover have "suffix (js_trimStart s) s"
    by (simp add: js_trimStart_def suffix_dropWhile)
  ultimately show ?thesis
    by (metis prefix_imp_sublist suffix_imp_sublist sublist_order.order_trans)
qed

lemma char_code_bound [simp]: "char_code c < 256"
  by (simp add: char_code_def)

lemma char_code_char_of [simp]: "n < 256 \<Longrightarrow> char_code (char_of n) = n"
  by (simp add: char_code_def)

lemma js_lower_char_idem [simp]: "js_lower_char (js_lower_char c) = js_lower_char c"
  by (auto simp: js_lower_char_def Let_def)

lemma js_toLowerCase_idem [simp]: "js_toLowerCase (js_toLowerCase s) = js_toLowerCase s"
  by (simp add: js_toLowerCase_def)

lemma js_toLowerCase_length [simp]: "length (js_toLowerCase s) = length s"
  by (simp add: js_toLowerCase_def)

lemma js_split_nonempty [simp]: "js_split c s \<noteq> []"
  by (induction s) (auto split: list.splits)

lemma js_split_no_sep: "p \<in> set (js_split c s) \<Longrightarrow> c \<notin> set p"
  by (induction s arbitrary: p) (auto split: list.splits if_splits)

lemma js_join_split: "js_join [c] (js_split c s) = s"
proof (induction s)
  case (Cons x s)
  obtain p ps where s: "js_split c s = p # ps" by (cases "js_split c s") auto
  then show ?case using Cons by (cases ps) auto
qed simp

lemma js_split_single: "c \<notin> set p \<Longrightarrow> js_split c p = [p]"
  by (induction p) auto

lemma js_split_append: "c \<notin> set p \<Longrightarrow> js_split c (p @ c # s) = p # js_split c s"
  by (induction p) auto

lemma js_split_join:
  "ps \<noteq> [] \<Longrightarrow> (\<forall>p \<in> set ps. c \<notin> set p) \<Longrightarrow> js_split c (js_join [c] ps) = ps"
proof (induction "[c]" ps rule: js_join.induct)
  case (3 p q ps)
  then show ?case by (simp add: js_split_append)
qed (auto simp: js_split_single)

lemma takeWhile_tail_stop:
  "c \<notin> set v \<Longrightarrow> takeWhile (\<lambda>x. x \<noteq> c) (rev v @ c # w) = rev v"
  by (subst takeWhile_append2) auto

text \<open>The last occurrence splits the string; the rest does not contain the character.\<close>

lemma js_lastIndexOf_split:
  assumes "c \<in> set s"
  shows "\<exists>u v. s = u @ c # v \<and> c \<notin> set v \<and> js_lastIndexOf s c = int (length u)"
proof -
  obtain u v where uv: "s = u @ c # v" "c \<notin> set v"
    using split_list_last [OF assms] by blast
  have "length (takeWhile (\<lambda>x. x \<noteq> c) (rev s)) = length v"
    using uv by (simp add: takeWhile_tail_stop)
  then have "js_lastIndexOf s c = int (length u)"
    using uv assms by (simp add: js_lastIndexOf_def)
  then show ?thesis using uv by blast
qed

lemma js_lastIndexOf_append:
  "c \<notin> set v \<Longrightarrow> js_lastIndexOf (u @ c # v) c = int (length u)"
  by (simp add: js_lastIndexOf_def takeWhile_tail_stop)

lemma js_lastIndexOf_none [simp]: "c \<notin> set s \<Longrightarrow> js_lastIndexOf s c = -1"
  by (simp add: js_lastIndexOf_def)

lemma js_slice_prefix [simp]: "js_slice (u @ v) 0 (int (length u)) = u"
  by (simp add: js_slice_def js_rel_index_def)

lemma js_slice_from_suffix [simp]: "js_slice_from (u @ c # v) (int (length u) + 1) = v"
proof -
  have "nat (int (length u) + 1) = Suc (length u)" by simp
  then show ?thesis by (simp add: js_slice_from_def js_rel_index_def)
qed

lemma js_slice_inner [simp]: "js_slice (a # s @ [b]) 1 (-1) = s"
  by (simp add: js_slice_def js_rel_index_def nat_add_distrib)

section \<open>Lists\<close>

lemma first_row_Some_mem: "first_row xs = Some x \<Longrightarrow> x \<in> set xs"
  by (auto simp: first_row_def split: list.splits)

lemma first_row_None [simp]: "first_row xs = None \<longleftrightarrow> xs = []"
  by (auto simp: first_row_def split: list.splits)

lemma filter_unique_key:
  "distinct (map key xs) \<Longrightarrow> x \<in> set xs \<Longrightarrow> filter (\<lambda>y. key y = key x \<and> Q y) xs = (if Q x then [x] else [])"
proof (induction xs)
  case (Cons z zs)
  show ?case
  proof (cases "z = x")
    case True
    then have "filter (\<lambda>y. key y = key x \<and> Q y) zs = []"
      using Cons.prems(1) by (simp add: filter_empty_conv) (metis imageI)
    then show ?thesis using True by simp
  next
    case False
    then show ?thesis using Cons by (auto simp: rev_image_eqI)
  qed
qed simp

text \<open>Two marked positions of one list: they coincide or one lies before the other.\<close>

lemma append_Cons_compare:
  "us @ k # vs = us' @ k' # vs' \<Longrightarrow>
   (us = us' \<and> k = k' \<and> vs = vs') \<or> (k' \<in> set vs \<and> k \<in> set us') \<or> (k \<in> set vs' \<and> k' \<in> set us)"
proof (induction us arbitrary: us')
  case Nil
  then show ?case by (cases us') auto
next
  case (Cons u us)
  then show ?case by (cases us') auto
qed

lemma sum_list_filter_partition:
  fixes f :: "'a \<Rightarrow> int"
  shows "sum_list (map f (filter P xs)) + sum_list (map f (filter (\<lambda>x. \<not> P x) xs)) = sum_list (map f xs)"
  by (induction xs) auto

end
