(* ===== verification/Core_Levenshtein.thy ===== *)
theory Core_Levenshtein
  imports Prelude
begin

text \<open>
  \<^verbatim>\<open>packages/core/src/domain-typo.ts\<close>, function \<open>levenshtein\<close>.
  The row-by-row Levenshtein routine with its cut-off is proved equal, up to the cut-off,
  to the least number of single-character edits.
\<close>

section \<open>The bounded Levenshtein routine\<close>

text \<open>One inner-loop body: the three candidates of the cell in column \<open>j\<close>.\<close>

definition lev_cell :: "nat list \<Rightarrow> nat list \<Rightarrow> char \<Rightarrow> string \<Rightarrow> nat \<Rightarrow> nat" where
  "lev_cell previous current ca b j =
     (let substitution = js_at previous (j - 1) 0 + (if ca = b ! (j - 1) then 0 else 1);
          insertion = js_at current (j - 1) 0 + 1;
          deletion = js_at previous j 0 + 1
      in min substitution (min insertion deletion))"

text \<open>The inner loop over \<open>j\<close>, with \<open>current\<close> and \<open>rowMin\<close> as its state.\<close>

function lev_inner :: "nat list \<Rightarrow> char \<Rightarrow> string \<Rightarrow> nat \<Rightarrow> nat list \<Rightarrow> nat \<Rightarrow> nat list \<times> nat" where
  "lev_inner previous ca b j current rowMin =
     (if j \<le> length b then
        (let val = lev_cell previous current ca b j
         in lev_inner previous ca b (j + 1) (current @ [val]) (if val < rowMin then val else rowMin))
      else (current, rowMin))"
  by pat_completeness auto
termination
  by (relation "measure (\<lambda>(p, ca, b, j, c, m). length b + 1 - j)") auto

text \<open>The outer loop over \<open>i\<close>, with its early return.\<close>

function lev_outer :: "string \<Rightarrow> string \<Rightarrow> nat \<Rightarrow> nat \<Rightarrow> nat list \<Rightarrow> nat" where
  "lev_outer a b limit i previous =
     (if i \<le> length a then
        (let (current, rowMin) = lev_inner previous (a ! (i - 1)) b 1 [i] i
         in if rowMin > limit then limit + 1 else lev_outer a b limit (i + 1) current)
      else js_at previous (length b) (limit + 1))"
  by pat_completeness auto
termination
  by (relation "measure (\<lambda>(a, b, l, i, p). length a + 1 - i)") auto

definition levenshtein :: "string \<Rightarrow> string \<Rightarrow> nat \<Rightarrow> nat" where
  "levenshtein a b limit =
     (if a = b then 0
      else if \<bar>int (length a) - int (length b)\<bar> > int limit then limit + 1
      else lev_outer a b limit 1 [0..<length b + 1])"

declare lev_inner.simps [simp del] lev_outer.simps [simp del]

section \<open>Edit distance\<close>

text \<open>The specification: single-character insertions, deletions and replacements.\<close>

inductive one_edit :: "'a list \<Rightarrow> 'a list \<Rightarrow> bool" where
  ins: "one_edit (u @ v) (u @ c # v)"
| del: "one_edit (u @ c # v) (u @ v)"
| repl: "one_edit (u @ c # v) (u @ d # v)"

inductive edits :: "nat \<Rightarrow> 'a list \<Rightarrow> 'a list \<Rightarrow> bool" where
  none: "edits 0 xs xs"
| more: "one_edit xs ys \<Longrightarrow> edits n ys zs \<Longrightarrow> edits (Suc n) xs zs"

text \<open>The recursive distance the proof goes through.\<close>

fun ed :: "'a list \<Rightarrow> 'a list \<Rightarrow> nat" where
  "ed [] ys = length ys"
| "ed xs [] = length xs"
| "ed (x # xs) (y # ys) =
     min (ed xs ys + (if x = y then 0 else 1)) (min (ed (x # xs) ys + 1) (ed xs (y # ys) + 1))"

lemma ed_Nil2 [simp]: "ed xs [] = length xs"
  by (cases xs) auto

lemma ed_self [simp]: "ed xs xs = 0"
  by (induction xs) auto

lemma ed_del: "ed (c # v) ys \<le> ed v ys + 1"
  by (cases ys) auto

lemma ed_ins2: "ed v (y # ys) \<le> ed v ys + 1"
  by (cases v) auto

lemma ed_ins: "ed v ys \<le> ed (c # v) ys + 1"
proof (induction ys)
  case (Cons y ys)
  then show ?case using ed_ins2 [of v y ys] by auto
qed auto

lemma ed_repl: "ed (c # v) ys \<le> ed (d # v) ys + 1"
proof (induction ys)
  case (Cons y ys)
  then show ?case using ed_ins2 [of v y ys] by auto
qed auto

lemma ed_prefix_mono:
  assumes "\<And>ys. ed w ys \<le> ed v ys + k"
  shows "ed (u @ w) ys \<le> ed (u @ v) ys + k"
proof (induction u arbitrary: ys)
  case Nil
  show ?case using assms by simp
next
  case (Cons x u)
  note IH = Cons.IH
  have len: "length w \<le> length v + k" using assms [of "[]"] by simp
  show ?case
  proof (induction ys)
    case Nil
    then show ?case using len by simp
  next
    case (Cons y ys)
    then show ?case using IH [of ys] IH [of "y # ys"] by (simp add: min_def)
  qed
qed

lemma ed_one_edit: "one_edit xs xs' \<Longrightarrow> ed xs ys \<le> ed xs' ys + 1"
proof (induction rule: one_edit.induct)
  case (ins u v c)
  show ?case by (rule ed_prefix_mono) (rule ed_ins)
next
  case (del u c v)
  show ?case by (rule ed_prefix_mono) (rule ed_del)
next
  case (repl u c v d)
  show ?case by (rule ed_prefix_mono) (rule ed_repl)
qed

lemma ed_le_edits: "edits n xs ys \<Longrightarrow> ed xs ys \<le> n"
  by (induction rule: edits.induct) (auto dest: ed_one_edit intro: le_trans)

lemma one_edit_Cons: "one_edit xs ys \<Longrightarrow> one_edit (x # xs) (x # ys)"
  by (induction rule: one_edit.induct) (metis append_Cons one_edit.intros)+

lemma edits_Cons: "edits n xs ys \<Longrightarrow> edits n (x # xs) (x # ys)"
  by (induction rule: edits.induct) (auto intro: edits.intros one_edit_Cons)

lemma one_edit_hd: "one_edit v (c # v)" "one_edit (c # v) v" "one_edit (c # v) (d # v)"
  using one_edit.intros [of "[]"] by auto

lemma edits_ed: "edits (ed xs ys) xs ys"
proof (induction xs ys rule: ed.induct)
  case (1 ys)
  show ?case by (induction ys) (auto intro: edits.intros one_edit_hd edits_Cons)
next
  case (2 x xs)
  have "edits (length zs) zs []" for zs :: "'a list"
    by (induction zs) (auto intro: edits.intros one_edit_hd)
  from this [of "x # xs"] show ?case by simp
next
  case (3 x xs y ys)
  have sub: "edits (ed xs ys + (if x = y then 0 else 1)) (x # xs) (y # ys)"
    using edits_Cons [OF 3(1)] by (auto intro: edits.more one_edit_hd)
  have ins: "edits (ed (x # xs) ys + 1) (x # xs) (y # ys)"
    using edits.more [OF one_edit_hd(1) [of "x # xs" y] edits_Cons [OF 3(2)]] by simp
  have del: "edits (ed xs (y # ys) + 1) (x # xs) (y # ys)"
    using edits.more [OF one_edit_hd(2) 3(3)] by simp
  show ?case using sub ins del by (auto simp: min_def)
qed

text \<open>The recursive distance is the least number of edits.\<close>

lemma ed_least: "ed xs ys = (LEAST n. edits n xs ys)"
  by (rule sym, rule Least_equality) (auto intro: edits_ed ed_le_edits)

lemma one_edit_rev: "one_edit xs ys \<Longrightarrow> one_edit (rev xs) (rev ys)"
proof (induction rule: one_edit.induct)
  case (ins u v c)
  show ?case using one_edit.ins [of "rev v" "rev u" c] by simp
next
  case (del u c v)
  show ?case using one_edit.del [of "rev v" c "rev u"] by simp
next
  case (repl u c v d)
  show ?case using one_edit.repl [of "rev v" c "rev u" d] by simp
qed

lemma edits_rev: "edits n xs ys \<Longrightarrow> edits n (rev xs) (rev ys)"
  by (induction rule: edits.induct) (auto intro: edits.intros one_edit_rev)

lemma ed_rev [simp]: "ed (rev xs) (rev ys) = ed xs ys"
  by (metis antisym ed_le_edits edits_ed edits_rev rev_rev_ident)

lemma ed_length_diff: "\<bar>int (length xs) - int (length ys)\<bar> \<le> int (ed xs ys)"
  by (induction xs ys rule: ed.induct) (auto simp: min_def)

section \<open>The table the loops fill\<close>

definition dist_at :: "string \<Rightarrow> string \<Rightarrow> nat \<Rightarrow> nat \<Rightarrow> nat" where
  "dist_at a b i j = ed (rev (take i a)) (rev (take j b))"

definition dist_row :: "string \<Rightarrow> string \<Rightarrow> nat \<Rightarrow> nat list" where
  "dist_row a b i = map (dist_at a b i) [0..<length b + 1]"

lemma dist_at_0 [simp]: "j \<le> length b \<Longrightarrow> dist_at a b 0 j = j"
  by (simp add: dist_at_def)

lemma dist_at_col0 [simp]: "i \<le> length a \<Longrightarrow> dist_at a b i 0 = i"
  by (simp add: dist_at_def)

lemma dist_at_Suc:
  "i < length a \<Longrightarrow> j < length b \<Longrightarrow>
   dist_at a b (Suc i) (Suc j) =
     min (dist_at a b i j + (if a ! i = b ! j then 0 else 1))
       (min (dist_at a b (Suc i) j + 1) (dist_at a b i (Suc j) + 1))"
  by (simp add: dist_at_def take_Suc_conv_app_nth)

lemma dist_at_full: "dist_at a b (length a) (length b) = ed a b"
  by (simp add: dist_at_def)

lemma js_at_map_upt [simp]: "k < n \<Longrightarrow> js_at (map f [0..<n]) k d = f k"
  by (simp add: js_at_def del: upt_Suc)

lemma lev_cell_dist:
  assumes "i < length a" "1 \<le> j" "j \<le> length b"
  shows "lev_cell (dist_row a b i) (map (dist_at a b (Suc i)) [0..<j]) (a ! i) b j = dist_at a b (Suc i) j"
proof -
  obtain k where "j = Suc k" using assms by (cases j) auto
  then show ?thesis using assms
    by (simp add: lev_cell_def dist_row_def Let_def dist_at_Suc del: upt_Suc)
qed

lemma lev_inner_row:
  assumes "i < length a" "1 \<le> j" "j \<le> length b + 1"
    and "cur = map (dist_at a b (Suc i)) [0..<j]" and "m = Min (set cur)"
  shows "lev_inner (dist_row a b i) (a ! i) b j cur m
     = (dist_row a b (Suc i), Min (set (dist_row a b (Suc i))))"
  using assms
proof (induction "dist_row a b i" "a ! i" b j cur m rule: lev_inner.induct)
  case (1 b j cur m)
  show ?case
  proof (cases "j \<le> length b")
    case True
    let ?v = "dist_at a b (Suc i) j"
    have v: "lev_cell (dist_row a b i) cur (a ! i) b j = ?v"
      using "1.prems" True lev_cell_dist by simp
    have ne: "set cur \<noteq> {}" using "1.prems" by auto
    have mm: "Min (set (cur @ [?v])) = min ?v m"
      using ne unfolding "1.prems"(5) by simp
    have m: "(if ?v < m then ?v else m) = Min (set (cur @ [?v]))"
      unfolding mm by (simp add: min_def)
    have "lev_inner (dist_row a b i) (a ! i) b (j + 1) (cur @ [?v]) (if ?v < m then ?v else m)
       = (dist_row a b (Suc i), Min (set (dist_row a b (Suc i))))"
      by (rule "1.hyps" [OF True v [symmetric] "1.prems"(1)]) (use True "1.prems" m in auto)
    then show ?thesis using True v by (simp add: lev_inner.simps [of _ _ b j cur] Let_def)
  next
    case False
    then have "j = length b + 1" using "1.prems" by simp
    then have "cur = dist_row a b (Suc i)" using "1.prems"(4) by (simp add: dist_row_def)
    then show ?thesis using "1.prems"(5) False by (subst lev_inner.simps) simp
  qed
qed

lemma dist_row_mono:
  assumes "i < length a" and "\<And>j. j \<le> length b \<Longrightarrow> m \<le> dist_at a b i j"
  shows "j \<le> length b \<Longrightarrow> m \<le> dist_at a b (Suc i) j"
proof (induction j)
  case 0
  show ?case using assms(1) assms(2) [of 0] by simp
next
  case (Suc j)
  then show ?case using assms(2) [of j] assms(2) [of "Suc j"] assms(1)
    by (simp add: dist_at_Suc)
qed

lemma dist_row_mono_final:
  assumes "i \<le> length a" and "\<And>j. j \<le> length b \<Longrightarrow> m \<le> dist_at a b i j"
  shows "m \<le> ed a b"
proof -
  have "\<forall>j \<le> length b. m \<le> dist_at a b (i + d) j" if "i + d \<le> length a" for d
    using that
  proof (induction d)
    case (Suc d)
    then show ?case using dist_row_mono [of "i + d" a b m] by auto
  qed (use assms in auto)
  from this [of "length a - i"] show ?thesis
    using assms(1) dist_at_full [of a b] by auto
qed

lemma lev_outer_dist:
  assumes "1 \<le> i" "i \<le> length a + 1" "previous = dist_row a b (i - 1)"
  shows "lev_outer a b limit i previous = ed a b
    \<or> (lev_outer a b limit i previous = limit + 1 \<and> limit < ed a b)"
  using assms
proof (induction a b limit i previous rule: lev_outer.induct)
  case (1 a b limit i previous)
  show ?case
  proof (cases "i \<le> length a")
    case True
    define row where "row = dist_row a b i"
    have "length b + 1 > 0" by simp
    have inner: "lev_inner previous (a ! (i - 1)) b 1 [i] i = (row, Min (set row))"
      using lev_inner_row [of "i - 1" a 1 b "[i]" i] "1.prems" True by (simp add: row_def)
    show ?thesis
    proof (cases "Min (set row) > limit")
      case big: True
      have "Suc limit \<le> dist_at a b i j" if "j \<le> length b" for j
        using big that by (simp add: row_def dist_row_def Suc_le_eq del: upt_Suc)
      then have "Suc limit \<le> ed a b" using True by (rule dist_row_mono_final [rotated])
      then show ?thesis using True big inner by (simp add: lev_outer.simps [of a b limit i])
    next
      case False
      then show ?thesis using True inner "1.IH" [OF True inner [symmetric] refl] "1.prems"
        by (simp add: lev_outer.simps [of a b limit i] row_def)
    qed
  next
    case False
    then have "i = length a + 1" using "1.prems" by simp
    then have "lev_outer a b limit i previous = js_at (dist_row a b (length a)) (length b) (limit + 1)"
      using "1.prems" by (subst lev_outer.simps) simp
    then show ?thesis using dist_at_full [of a b] by (simp add: dist_row_def del: upt_Suc)
  qed
qed

lemma levenshtein_ed:
  "levenshtein a b limit = ed a b \<or> (levenshtein a b limit = limit + 1 \<and> limit < ed a b)"
proof -
  have "[0..<length b + 1] = dist_row a b 0"
    by (auto simp: dist_row_def intro!: nth_equalityI simp del: upt_Suc)
  then have outer: "lev_outer a b limit 1 [0..<length b + 1] = ed a b
    \<or> (lev_outer a b limit 1 [0..<length b + 1] = limit + 1 \<and> limit < ed a b)"
    by (intro lev_outer_dist) auto
  show ?thesis
    using outer ed_length_diff [of a b] unfolding levenshtein_def by auto
qed


lemma levenshtein_le_iff: "d \<le> limit \<Longrightarrow> levenshtein a b limit \<le> d \<longleftrightarrow> ed a b \<le> d"
  using levenshtein_ed [of a b limit] by auto

end
