(* ===== verification/Core_Typo.thy ===== *)
theory Core_Typo
  imports Core_Levenshtein
begin

text \<open>
  \<^verbatim>\<open>packages/core/src/domain-typo.ts\<close>: the provider tables and
  \<open>detectTypo\<close>.

  The two correction tables are plain JavaScript objects, so a property read also finds the
  properties of \<open>Object.prototype\<close>. The lookups below model that read in full:
  a result is either a string of the table or an inherited property.
\<close>

section \<open>Tables\<close>

definition KNOWN_PROVIDER_DOMAINS :: "string list" where
  "KNOWN_PROVIDER_DOMAINS = [
   ''gmail.com'', ''yahoo.com'', ''hotmail.com'', ''outlook.com'', ''icloud.com'',
   ''proton.me'', ''protonmail.com'', ''mail.ru'', ''yandex.ru'', ''yandex.com'',
   ''inbox.ru'', ''list.ru'', ''bk.ru'', ''rambler.ru'', ''umail.uz'', ''exat.uz'',
   ''googlemail.com'', ''live.com'', ''msn.com'', ''me.com'', ''mac.com'', ''aol.com'',
   ''pm.me'', ''mail.com'', ''gmx.com'', ''gmx.net'', ''gmx.de'', ''gmx.at'', ''gmx.ch'',
   ''web.de'', ''zoho.com'', ''zohomail.com'', ''fastmail.com'', ''fastmail.fm'',
   ''tutanota.com'', ''tuta.com'', ''tuta.io'', ''hey.com'', ''hushmail.com'',
   ''mailfence.com'', ''posteo.de'', ''ymail.com'', ''rocketmail.com'', ''outlook.de'',
   ''outlook.fr'', ''outlook.es'', ''outlook.it'', ''outlook.jp'', ''outlook.kr'',
   ''outlook.in'', ''outlook.ie'', ''outlook.be'', ''outlook.at'', ''outlook.dk'',
   ''outlook.pt'', ''outlook.cz'', ''outlook.hu'', ''outlook.sa'', ''outlook.com.br'',
   ''outlook.com.au'', ''outlook.com.tr'', ''outlook.com.ar'', ''outlook.co.id'',
   ''outlook.co.il'', ''outlook.co.nz'', ''outlook.co.th'', ''hotmail.co.uk'', ''hotmail.fr'',
   ''hotmail.de'', ''hotmail.it'', ''hotmail.es'', ''hotmail.nl'', ''hotmail.be'',
   ''hotmail.ca'', ''hotmail.se'', ''hotmail.dk'', ''hotmail.no'', ''hotmail.fi'',
   ''hotmail.ch'', ''hotmail.gr'', ''hotmail.pt'', ''hotmail.cz'', ''hotmail.hu'',
   ''hotmail.sk'', ''hotmail.ie'', ''hotmail.sg'', ''hotmail.my'', ''hotmail.ph'',
   ''hotmail.cl'', ''hotmail.com.br'', ''hotmail.com.ar'', ''hotmail.com.au'',
   ''hotmail.com.mx'', ''hotmail.com.tr'', ''hotmail.com.hk'', ''hotmail.com.tw'',
   ''hotmail.co.jp'', ''hotmail.co.nz'', ''hotmail.co.th'', ''hotmail.co.il'',
   ''hotmail.co.za'', ''hotmail.co.kr'', ''live.co.uk'', ''live.fr'', ''live.de'',
   ''live.it'', ''live.nl'', ''live.be'', ''live.se'', ''live.dk'', ''live.no'', ''live.fi'',
   ''live.ca'', ''live.ie'', ''live.at'', ''live.ch'', ''live.jp'', ''live.cl'', ''live.in'',
   ''live.ru'', ''live.com.au'', ''live.com.mx'', ''live.com.ar'', ''live.com.pt'',
   ''live.com.sg'', ''live.com.my'', ''live.co.za'', ''live.co.kr'', ''yahoo.co.uk'',
   ''yahoo.fr'', ''yahoo.de'', ''yahoo.it'', ''yahoo.es'', ''yahoo.ca'', ''yahoo.ie'',
   ''yahoo.se'', ''yahoo.dk'', ''yahoo.no'', ''yahoo.fi'', ''yahoo.nl'', ''yahoo.be'',
   ''yahoo.gr'', ''yahoo.pl'', ''yahoo.ro'', ''yahoo.cz'', ''yahoo.hu'', ''yahoo.pt'',
   ''yahoo.ae'', ''yahoo.cn'', ''yahoo.in'', ''yahoo.cl'', ''yahoo.com.br'', ''yahoo.com.ar'',
   ''yahoo.com.mx'', ''yahoo.com.au'', ''yahoo.com.sg'', ''yahoo.com.my'', ''yahoo.com.ph'',
   ''yahoo.com.vn'', ''yahoo.com.hk'', ''yahoo.com.tw'', ''yahoo.com.tr'', ''yahoo.com.cn'',
   ''yahoo.com.pe'', ''yahoo.com.co'', ''yahoo.com.ve'', ''yahoo.co.jp'', ''yahoo.co.in'',
   ''yahoo.co.id'', ''yahoo.co.kr'', ''yahoo.co.nz'', ''yahoo.co.za'', ''yahoo.co.th'',
   ''yahoo.co.il'', ''t-online.de'', ''freenet.de'', ''arcor.de'', ''orange.fr'',
   ''wanadoo.fr'', ''free.fr'', ''laposte.net'', ''sfr.fr'', ''bbox.fr'', ''neuf.fr'',
   ''libero.it'', ''virgilio.it'', ''tiscali.it'', ''alice.it'', ''tin.it'',
   ''fastwebnet.it'', ''seznam.cz'', ''centrum.cz'', ''email.cz'', ''post.cz'', ''volny.cz'',
   ''wp.pl'', ''o2.pl'', ''onet.pl'', ''onet.eu'', ''interia.pl'', ''op.pl'', ''vp.pl'',
   ''tlen.pl'', ''gazeta.pl'', ''poczta.fm'', ''azet.sk'', ''centrum.sk'', ''zoznam.sk'',
   ''freemail.hu'', ''citromail.hu'', ''indamail.hu'', ''abv.bg'', ''mail.bg'', ''dir.bg'',
   ''telenet.be'', ''skynet.be'', ''ziggo.nl'', ''kpnmail.nl'', ''planet.nl'', ''home.nl'',
   ''xs4all.nl'', ''telia.com'', ''telia.se'', ''comhem.se'', ''online.no'', ''bluewin.ch'',
   ''sunrise.ch'', ''a1.net'', ''chello.at'', ''aon.at'', ''sapo.pt'', ''terra.com'',
   ''terra.es'', ''telefonica.net'', ''btinternet.com'', ''btopenworld.com'', ''sky.com'',
   ''virginmedia.com'', ''blueyonder.co.uk'', ''ntlworld.com'', ''talktalk.net'',
   ''tiscali.co.uk'', ''eircom.net'', ''mail.ee'', ''hot.ee'', ''inbox.lv'', ''apollo.lv'',
   ''inbox.lt'', ''comcast.net'', ''verizon.net'', ''att.net'', ''sbcglobal.net'',
   ''bellsouth.net'', ''cox.net'', ''charter.net'', ''earthlink.net'', ''optonline.net'',
   ''roadrunner.com'', ''rr.com'', ''frontier.com'', ''windstream.net'', ''centurylink.net'',
   ''juno.com'', ''netzero.net'', ''shaw.ca'', ''rogers.com'', ''sympatico.ca'', ''bell.net'',
   ''telus.net'', ''videotron.ca'', ''bigpond.com'', ''bigpond.net.au'', ''optusnet.com.au'',
   ''iinet.net.au'', ''tpg.com.au'', ''xtra.co.nz'', ''qq.com'', ''163.com'', ''126.com'',
   ''sina.com'', ''sina.cn'', ''sohu.com'', ''foxmail.com'', ''aliyun.com'', ''yeah.net'',
   ''139.com'', ''naver.com'', ''daum.net'', ''hanmail.net'', ''nate.com'', ''kakao.com'',
   ''rediffmail.com'', ''sify.com'', ''uol.com.br'', ''bol.com.br'', ''terra.com.br'',
   ''ig.com.br'', ''globo.com'', ''internet.ru'', ''ya.ru'', ''yandex.kz'', ''yandex.by'',
   ''yandex.ua'', ''narod.ru'', ''lenta.ru'', ''autorambler.ru'', ''myrambler.ru'', ''ro.ru'',
   ''r0.ru'', ''ukr.net'', ''i.ua'', ''ua.fm'', ''meta.ua'', ''bigmir.net'', ''email.ua'',
   ''tut.by'', ''mail.kz'', ''sarkor.uz''
   ]"

definition STATIC_TYPO_MAP :: "(string \<times> string) list" where
  "STATIC_TYPO_MAP = [
   (''gmai.com'', ''gmail.com''), (''gmial.com'', ''gmail.com''),
   (''gmal.com'', ''gmail.com''), (''gamil.com'', ''gmail.com''),
   (''gmail.co'', ''gmail.com''), (''yaho.com'', ''yahoo.com''),
   (''yahooo.com'', ''yahoo.com''), (''hotnail.com'', ''hotmail.com''),
   (''hotmial.com'', ''hotmail.com''), (''outlok.com'', ''outlook.com''),
   (''outloook.com'', ''outlook.com''), (''iclod.com'', ''icloud.com''),
   (''icoud.com'', ''icloud.com''), (''protonmial.com'', ''protonmail.com''),
   (''mail.rut'', ''mail.ru''), (''meil.ru'', ''mail.ru''), (''yandex.con'', ''yandex.com''),
   (''yandx.ru'', ''yandex.ru''), (''ramler.ru'', ''rambler.ru''),
   (''umail.zu'', ''umail.uz''), (''exat.zu'', ''exat.uz'')
   ]"

definition NEVER_CORRECT :: "string list" where
  "NEVER_CORRECT = [
   ''vk.ru'', ''vk.com'', ''ok.ru'', ''bk.com'', ''protonmail.ch'', ''yandex.net'',
   ''outlook.office.com'', ''office365.com''
   ]"

definition TLD_TYPO_MAP :: "(string \<times> string) list" where
  "TLD_TYPO_MAP = [
   (''cmo'', ''com''), (''con'', ''com''), (''ocm'', ''com''), (''comm'', ''com''),
   (''vom'', ''com''), (''xom'', ''com''), (''rut'', ''ru''), (''ruu'', ''ru''),
   (''zu'', ''uz''), (''uzz'', ''uz'')
   ]"

section \<open>Property reads on object literals\<close>

datatype prop_value =
    Text string          \<comment> \<open>an own property of the table\<close>
  | Inherited string     \<comment> \<open>a property of Object.prototype, by its name\<close>

definition object_prototype_keys :: "string list" where
  "object_prototype_keys = [
   ''constructor'', ''__defineGetter__'', ''__defineSetter__'', ''hasOwnProperty'',
   ''__lookupGetter__'', ''__lookupSetter__'', ''isPrototypeOf'', ''propertyIsEnumerable'',
   ''toString'', ''valueOf'', ''__proto__'', ''toLocaleString'']"

definition js_prop :: "(string \<times> string) list \<Rightarrow> string \<Rightarrow> prop_value option" where
  "js_prop table k =
     (case map_of table k of
        Some v \<Rightarrow> Some (Text v)
      | None \<Rightarrow> if k \<in> set object_prototype_keys then Some (Inherited k) else None)"

text \<open>What a template literal prints for a property value.\<close>

fun prop_text :: "prop_value \<Rightarrow> string" where
  "prop_text (Text v) = v"
| "prop_text (Inherited k) =
     (if k = ''__proto__'' then ''[object Object]''
      else ''function '' @ (if k = ''constructor'' then ''Object'' else k) @ ''() { [native code] }'')"

section \<open>Detection\<close>

definition normalizeDomain :: "string \<Rightarrow> string" where
  "normalizeDomain domain =
     (let val = js_toLowerCase (js_trim domain)
      in if js_endsWith val ''.'' then js_slice val 0 (-1) else val)"

definition repairTld :: "string \<Rightarrow> string option" where
  "repairTld domain =
     (let lastDot = js_lastIndexOf domain CHR ''.''
      in if lastDot \<le> 0 then None
         else (let name = js_slice domain 0 lastDot;
                   tld = js_slice_from domain (lastDot + 1)
               in case js_prop TLD_TYPO_MAP tld of
                    None \<Rightarrow> None
                  | Some fixedTld \<Rightarrow>
                      (let candidate = name @ ''.'' @ prop_text fixedTld
                       in if candidate \<in> set KNOWN_PROVIDER_DOMAINS then Some candidate else None)))"

definition MIN_LENGTH_FOR_DISTANCE_MATCH :: nat where "MIN_LENGTH_FOR_DISTANCE_MATCH = 8"
definition MIN_LENGTH_FOR_TWO_EDITS :: nat where "MIN_LENGTH_FOR_TWO_EDITS = 10"

text \<open>The scan of \<open>closestKnownDomain\<close>: state \<open>(best, bestDistance)\<close>.\<close>

fun closest_loop :: "string \<Rightarrow> nat \<Rightarrow> string list \<Rightarrow> string option \<times> nat \<Rightarrow> string option \<times> nat" where
  "closest_loop domain maxDistance [] st = st"
| "closest_loop domain maxDistance (known # ks) (best, bestDistance) =
     (let distance = levenshtein domain known maxDistance
      in if distance < bestDistance
         then closest_loop domain maxDistance ks (Some known, distance)
         else closest_loop domain maxDistance ks (best, bestDistance))"

definition max_distance :: "string \<Rightarrow> nat" where
  "max_distance domain = (if length domain < MIN_LENGTH_FOR_TWO_EDITS then 1 else 2)"

definition closestKnownDomain :: "string \<Rightarrow> string option" where
  "closestKnownDomain domain =
     (if length domain < MIN_LENGTH_FOR_DISTANCE_MATCH then None
      else (let maxDistance = max_distance domain;
                (best, bestDistance) = closest_loop domain maxDistance KNOWN_PROVIDER_DOMAINS (None, maxDistance + 1)
            in if bestDistance \<le> maxDistance then best else None))"

definition detectTypo :: "string \<Rightarrow> prop_value option" where
  "detectTypo domain =
     (let normalized = normalizeDomain domain
      in if normalized = [] then None
         else if normalized \<in> set KNOWN_PROVIDER_DOMAINS then None
         else if normalized \<in> set NEVER_CORRECT then None
         else (case js_prop STATIC_TYPO_MAP normalized of
                 Some mapped \<Rightarrow> Some mapped
               | None \<Rightarrow>
                   (case repairTld normalized of
                      Some tldRepaired \<Rightarrow> Some (Text tldRepaired)
                    | None \<Rightarrow> map_option Text (closestKnownDomain normalized))))"

section \<open>The scan returns the first nearest provider\<close>

definition first_nearest :: "string \<Rightarrow> nat \<Rightarrow> string list \<Rightarrow> string \<Rightarrow> bool" where
  "first_nearest domain m ks k =
     (\<exists>us vs. ks = us @ k # vs \<and> ed domain k \<le> m
        \<and> (\<forall>u \<in> set us. ed domain k < ed domain u) \<and> (\<forall>v \<in> set vs. ed domain k \<le> ed domain v))"

lemma closest_loop_Cons:
  assumes "d \<le> Suc m"
  shows "closest_loop domain m (k # ks) (best, d) =
     (if ed domain k < d then closest_loop domain m ks (Some k, ed domain k)
      else closest_loop domain m ks (best, d))"
  using levenshtein_ed [of domain k m] assms by auto

lemma closest_loop_none:
  "d \<le> Suc m \<Longrightarrow> (\<forall>k \<in> set ks. d \<le> ed domain k) \<Longrightarrow> closest_loop domain m ks (best, d) = (best, d)"
  by (induction ks) (auto simp: closest_loop_Cons not_less simp del: closest_loop.simps(2))

lemma closest_loop_some:
  "d \<le> Suc m \<Longrightarrow> (\<exists>k \<in> set ks. ed domain k < d) \<Longrightarrow>
   \<exists>us k vs. ks = us @ k # vs \<and> closest_loop domain m ks (best, d) = (Some k, ed domain k) \<and> ed domain k < d
     \<and> (\<forall>u \<in> set us. ed domain k < ed domain u) \<and> (\<forall>v \<in> set vs. ed domain k \<le> ed domain v)"
proof (induction ks arbitrary: best d)
  case (Cons x ks)
  show ?case
  proof (cases "ed domain x < d")
    case less: True
    show ?thesis
    proof (cases "\<exists>k \<in> set ks. ed domain k < ed domain x")
      case True
      have "ed domain x \<le> Suc m" using less Cons.prems by simp
      from Cons.IH [OF this True] obtain us k vs where ks: "ks = us @ k # vs"
        "closest_loop domain m ks (Some x, ed domain x) = (Some k, ed domain k)"
        "ed domain k < ed domain x" "\<forall>u \<in> set us. ed domain k < ed domain u"
        "\<forall>v \<in> set vs. ed domain k \<le> ed domain v" by blast
      then show ?thesis using less Cons.prems(1)
        by (intro exI [of _ "x # us"] exI [of _ k] exI [of _ vs])
           (simp add: closest_loop_Cons del: closest_loop.simps(2))
    next
      case False
      then have "closest_loop domain m ks (Some x, ed domain x) = (Some x, ed domain x)"
        using less Cons.prems by (intro closest_loop_none) auto
      then show ?thesis using less False Cons.prems(1)
        by (intro exI [of _ "[]"] exI [of _ x] exI [of _ ks])
           (auto simp: closest_loop_Cons not_less simp del: closest_loop.simps(2))
    qed
  next
    case False
    then have "\<exists>k \<in> set ks. ed domain k < d" using Cons.prems by auto
    from Cons.IH [OF Cons.prems(1) this, of best] obtain us k vs where ks: "ks = us @ k # vs"
      "closest_loop domain m ks (best, d) = (Some k, ed domain k)"
      "ed domain k < d" "\<forall>u \<in> set us. ed domain k < ed domain u"
      "\<forall>v \<in> set vs. ed domain k \<le> ed domain v" by blast
    then show ?thesis using False Cons.prems(1)
      by (intro exI [of _ "x # us"] exI [of _ k] exI [of _ vs])
         (auto simp: closest_loop_Cons not_less simp del: closest_loop.simps(2))
  qed
qed simp

lemma closestKnownDomain_None_iff:
  "closestKnownDomain domain = None \<longleftrightarrow>
     length domain < 8 \<or> (\<forall>k \<in> set KNOWN_PROVIDER_DOMAINS. max_distance domain < ed domain k)"
proof -
  let ?m = "max_distance domain"
  show ?thesis
  proof (cases "\<exists>k \<in> set KNOWN_PROVIDER_DOMAINS. ed domain k < Suc ?m")
    case True
    from closest_loop_some [OF order_refl True, of None] show ?thesis using True
      by (auto simp: closestKnownDomain_def MIN_LENGTH_FOR_DISTANCE_MATCH_def Let_def not_less)
  next
    case False
    then have "closest_loop domain ?m KNOWN_PROVIDER_DOMAINS (None, Suc ?m) = (None, Suc ?m)"
      by (intro closest_loop_none) auto
    with False show ?thesis
      by (auto simp: closestKnownDomain_def MIN_LENGTH_FOR_DISTANCE_MATCH_def Let_def)
  qed
qed

lemma closestKnownDomain_Some:
  assumes "closestKnownDomain domain = Some k"
  shows "first_nearest domain (max_distance domain) KNOWN_PROVIDER_DOMAINS k"
proof -
  let ?m = "max_distance domain"
  have "\<exists>k \<in> set KNOWN_PROVIDER_DOMAINS. ed domain k < Suc ?m"
    using assms closestKnownDomain_None_iff [of domain] by (auto simp: less_Suc_eq_le not_less)
  from closest_loop_some [OF order_refl this, of None] show ?thesis using assms
    by (auto simp: closestKnownDomain_def first_nearest_def Let_def less_Suc_eq_le split: if_splits)
qed

section \<open>Suggestions are known providers\<close>

lemma static_map_known: "v \<in> snd ` set STATIC_TYPO_MAP \<Longrightarrow> v \<in> set KNOWN_PROVIDER_DOMAINS"
  unfolding STATIC_TYPO_MAP_def KNOWN_PROVIDER_DOMAINS_def by auto

lemma repairTld_known: "repairTld d = Some k \<Longrightarrow> k \<in> set KNOWN_PROVIDER_DOMAINS"
  by (auto simp: repairTld_def Let_def split: if_splits option.splits)

lemma closest_known: "closestKnownDomain d = Some k \<Longrightarrow> k \<in> set KNOWN_PROVIDER_DOMAINS"
  by (drule closestKnownDomain_Some) (metis first_nearest_def in_set_conv_decomp)

lemma js_prop_Text: "js_prop t k = Some (Text v) \<Longrightarrow> v \<in> snd ` set t"
  by (auto simp: js_prop_def split: option.splits if_splits dest!: map_of_SomeD intro: rev_image_eqI)

lemma detectTypo_Text_known: "detectTypo d = Some (Text k) \<Longrightarrow> k \<in> set KNOWN_PROVIDER_DOMAINS"
  by (auto simp: detectTypo_def Let_def split: if_splits option.splits
      dest: js_prop_Text [THEN static_map_known] repairTld_known closest_known)

lemma normalizeDomain_lower: "js_toLowerCase (normalizeDomain d) = normalizeDomain d"
proof -
  have "js_toLowerCase (take n (js_toLowerCase s)) = take n (js_toLowerCase s)" for n s
    by (simp add: js_toLowerCase_def take_map)
  then show ?thesis by (simp add: normalizeDomain_def Let_def js_slice_def js_rel_index_def)
qed

lemma prototype_key_lower:
  assumes "k \<in> set object_prototype_keys" "js_toLowerCase k = k"
  shows "k \<in> {''constructor'', ''__proto__''}"
proof -
  have "\<forall>k \<in> set object_prototype_keys. js_toLowerCase k = k \<longrightarrow> k \<in> {''constructor'', ''__proto__''}"
    by code_simp
  then show ?thesis using assms by blast
qed

lemma detectTypo_Inherited:
  "detectTypo d = Some (Inherited k) \<Longrightarrow> k \<in> {''constructor'', ''__proto__''} \<and> normalizeDomain d = k"
  using prototype_key_lower [of k] normalizeDomain_lower [of d]
  by (auto simp: detectTypo_def js_prop_def Let_def split: if_splits option.splits)

lemma first_nearest_unique:
  assumes "first_nearest d m ks k" "first_nearest d m ks k'"
  shows "k = k'"
proof -
  obtain us vs where k: "ks = us @ k # vs" "\<forall>u \<in> set us. ed d k < ed d u" "\<forall>v \<in> set vs. ed d k \<le> ed d v"
    using assms(1) by (auto simp: first_nearest_def)
  obtain us' vs' where k': "ks = us' @ k' # vs'" "\<forall>u \<in> set us'. ed d k' < ed d u" "\<forall>v \<in> set vs'. ed d k' \<le> ed d v"
    using assms(2) by (auto simp: first_nearest_def)
  have "us @ k # vs = us' @ k' # vs'" using k k' by simp
  from append_Cons_compare [OF this] show ?thesis using k(2,3) k'(2,3)
    by (meson leD)
qed


lemma detectTypo_gmial: "detectTypo ''gmial.com'' = Some (Text ''gmail.com'')"
  by code_simp


text \<open>A domain named like an inherited property of a plain object is answered with that
  property instead of a domain or null.\<close>

theorem detectTypo_constructor: "detectTypo ''Constructor'' = Some (Inherited ''constructor'')"
  by code_simp

text \<open>Beyond the explicit tables the suggestion is exactly the earliest provider of the
  list among those at the least edit distance, within one edit from 8 characters and two from
  10; shorter domains get none.\<close>

theorem detectTypo_nearest:
  assumes "normalizeDomain d = n"
    and "n \<notin> set KNOWN_PROVIDER_DOMAINS" "n \<notin> set NEVER_CORRECT"
    and "js_prop STATIC_TYPO_MAP n = None" "repairTld n = None"
  shows "detectTypo d = Some (Text k) \<longleftrightarrow>
    8 \<le> length n \<and> first_nearest n (if length n < 10 then 1 else 2) KNOWN_PROVIDER_DOMAINS k"
proof -
  have m: "max_distance n = (if length n < 10 then 1 else 2)"
    by (simp add: max_distance_def MIN_LENGTH_FOR_TWO_EDITS_def)
  have "detectTypo d = Some (Text k) \<longleftrightarrow> closestKnownDomain n = Some k"
  proof (cases "n = []")
    case True
    then show ?thesis using assms(1)
      by (simp add: detectTypo_def closestKnownDomain_def MIN_LENGTH_FOR_DISTANCE_MATCH_def)
  next
    case False
    then show ?thesis using assms by (auto simp: detectTypo_def Let_def)
  qed
  also have "\<dots> \<longleftrightarrow> 8 \<le> length n \<and> first_nearest n (max_distance n) KNOWN_PROVIDER_DOMAINS k"
  proof
    assume "closestKnownDomain n = Some k"
    then show "8 \<le> length n \<and> first_nearest n (max_distance n) KNOWN_PROVIDER_DOMAINS k"
      using closestKnownDomain_Some [of n k] closestKnownDomain_None_iff [of n] by auto
  next
    assume k: "8 \<le> length n \<and> first_nearest n (max_distance n) KNOWN_PROVIDER_DOMAINS k"
    then have "k \<in> set KNOWN_PROVIDER_DOMAINS" "ed n k \<le> max_distance n"
      by (metis first_nearest_def in_set_conv_decomp)+
    then obtain k' where k': "closestKnownDomain n = Some k'"
      using closestKnownDomain_None_iff [of n] k by (cases "closestKnownDomain n") auto
    then have "k' = k" using k closestKnownDomain_Some [OF k'] by (blast intro: first_nearest_unique)
    with k' show "closestKnownDomain n = Some k" by simp
  qed
  finally show ?thesis by (simp add: m)
qed

theorem detectTypo_nearest_witness:
  "detectTypo '' Gmaill.com.'' = Some (Text ''gmail.com'') \<longleftrightarrow>
    first_nearest ''gmaill.com'' 2 KNOWN_PROVIDER_DOMAINS ''gmail.com''"
proof -
  have n: "normalizeDomain '' Gmaill.com.'' = ''gmaill.com''" by code_simp
  have k: "''gmaill.com'' \<notin> set KNOWN_PROVIDER_DOMAINS" by code_simp
  have c: "''gmaill.com'' \<notin> set NEVER_CORRECT" by code_simp
  have s: "js_prop STATIC_TYPO_MAP ''gmaill.com'' = None" by code_simp
  have r: "repairTld ''gmaill.com'' = None" by code_simp
  show ?thesis using detectTypo_nearest [OF n k c s r, of "''gmail.com''"] by simp
qed

end
