(* ===== verification/Core_Verdict.thy ===== *)
theory Core_Verdict
  imports Complex_Main Core_Typo
begin

text \<open>
  \<^verbatim>\<open>packages/core/src/reason-codes.ts\<close> and
  \<^verbatim>\<open>packages/core/src/aggregate.ts\<close>: the engine response, the reason codes and
  the priority rules that turn one response and the typo signal into a verdict.
\<close>

section \<open>Data\<close>

datatype reason_code =
    SYNTAX_INVALID | DOMAIN_NO_MX | MX_LOOKUP_UNAVAILABLE | CATCH_ALL_DOMAIN | SMTP_UNAVAILABLE
  | MAILBOX_REJECTED | MAILBOX_FULL | MAILBOX_DISABLED | DISPOSABLE_DOMAIN | ROLE_ACCOUNT
  | POSSIBLE_TYPO | SMTP_NOT_CHECKED | SMTP_DISABLED | CIRCUIT_OPEN
  | PHONE_OK | PHONE_INVALID_FORMAT | PHONE_TOO_SHORT | PHONE_TOO_LONG | PHONE_UNKNOWN_COUNTRY

datatype verdict = Valid | Invalid | Risky | Unknown

record syntax_part =
  syn_valid :: bool
  syn_username :: string
  syn_domain :: string

record mx_part =
  has_mx :: "bool option"     \<comment> \<open>None: the lookup itself failed\<close>
  mx_records :: "string list"
  mx_error :: string

record smtp_part =
  attempted :: bool
  mailbox_accepted :: bool
  catch_all :: bool
  full_inbox :: bool
  smtp_disabled :: bool
  smtp_error :: string

record engine_response =
  eng_email :: string
  eng_syntax :: syntax_part
  eng_mx :: mx_part
  disposable :: bool
  role_account :: bool
  free_provider :: bool
  eng_smtp :: "smtp_part option" \<comment> \<open>None exactly when no probe was asked for\<close>
  duration_ms :: rat

datatype operational_reason = Op_SMTP_DISABLED | Op_CIRCUIT_OPEN

fun op_reason :: "operational_reason \<Rightarrow> reason_code" where
  "op_reason Op_SMTP_DISABLED = SMTP_DISABLED"
| "op_reason Op_CIRCUIT_OPEN = CIRCUIT_OPEN"

record aggregate_input =
  engine :: engine_response
  typo :: "prop_value option"
  operationalReason :: "operational_reason option"

record aggregate_result =
  agg_verdict :: verdict
  score :: int
  reasonCodes :: "reason_code list"
  disclaimer :: string

definition AGGREGATE_DISCLAIMER :: string where
  "AGGREGATE_DISCLAIMER =
     ''These are risk signals, not delivery guarantees. Results marked '' @ [CHR 0x27] @ ''unknown''
     @ [CHR 0x27] @ '' should not be deleted automatically.''"

record decision =
  dec_verdict :: verdict
  dec_score :: int
  dec_reason :: "reason_code option"

abbreviation decision_of :: "verdict \<Rightarrow> int \<Rightarrow> reason_code option \<Rightarrow> decision" where
  "decision_of v s r \<equiv> \<lparr>dec_verdict = v, dec_score = s, dec_reason = r\<rparr>"

section \<open>The rules\<close>

definition mx_unavailable :: "engine_response \<Rightarrow> bool" where
  "mx_unavailable e = (mx_error (eng_mx e) \<noteq> [] \<or> has_mx (eng_mx e) = None)"

text \<open>Rules 4 to 9, the probe block: \<open>None\<close> falls through to the cautions.\<close>

definition decide_probe :: "smtp_part \<Rightarrow> decision option" where
  "decide_probe smtp =
     (if catch_all smtp then Some (decision_of Unknown 50 (Some CATCH_ALL_DOMAIN))
      else if smtp_error smtp \<noteq> [] then Some (decision_of Unknown 50 (Some SMTP_UNAVAILABLE))
      else if \<not> attempted smtp \<and> smtp_disabled smtp then Some (decision_of Unknown 50 (Some SMTP_NOT_CHECKED))
      else if attempted smtp then
        (if \<not> mailbox_accepted smtp \<and> \<not> smtp_disabled smtp
         then Some (decision_of Invalid 10 (Some MAILBOX_REJECTED))
         else if full_inbox smtp then Some (decision_of Risky 45 (Some MAILBOX_FULL))
         else if smtp_disabled smtp then Some (decision_of Invalid 10 (Some MAILBOX_DISABLED))
         else None)
      else None)"

text \<open>Rules 10 to 14.\<close>

definition decide_cautions :: "engine_response \<Rightarrow> prop_value option \<Rightarrow> decision" where
  "decide_cautions e t =
     (if disposable e then decision_of Risky 50 (Some DISPOSABLE_DOMAIN)
      else if role_account e then decision_of Risky 60 (Some ROLE_ACCOUNT)
      else if t \<noteq> None then decision_of Risky 65 (Some POSSIBLE_TYPO)
      else if eng_smtp e = None then decision_of Unknown 50 (Some SMTP_NOT_CHECKED)
      else decision_of Valid 95 None)"

definition decide :: "aggregate_input \<Rightarrow> decision" where
  "decide inp =
     (let e = engine inp; t = typo inp in
      if \<not> syn_valid (eng_syntax e) then decision_of Invalid 0 (Some SYNTAX_INVALID)
      else if t \<noteq> None \<and> mx_unavailable e then decision_of Risky 65 (Some POSSIBLE_TYPO)
      else if mx_unavailable e then decision_of Unknown 50 (Some MX_LOOKUP_UNAVAILABLE)
      else if has_mx (eng_mx e) = Some False then decision_of Invalid 5 (Some DOMAIN_NO_MX)
      else (case operationalReason inp of
              Some r \<Rightarrow> decision_of Unknown 50 (Some (op_reason r))
            | None \<Rightarrow>
                (case (case eng_smtp e of None \<Rightarrow> None | Some smtp \<Rightarrow> decide_probe smtp) of
                   Some d \<Rightarrow> d
                 | None \<Rightarrow> decide_cautions e t)))"

definition secondaryReasons :: "aggregate_input \<Rightarrow> decision \<Rightarrow> reason_code list" where
  "secondaryReasons inp d =
     (if dec_verdict d \<noteq> Risky \<and> dec_verdict d \<noteq> Unknown then []
      else (let e = engine inp;
                candidates =
                  [(MX_LOOKUP_UNAVAILABLE, mx_unavailable e),
                   (DISPOSABLE_DOMAIN, disposable e),
                   (ROLE_ACCOUNT, role_account e),
                   (POSSIBLE_TYPO, typo inp \<noteq> None),
                   (SMTP_NOT_CHECKED,
                      case eng_smtp e of None \<Rightarrow> True | Some s \<Rightarrow> \<not> attempted s \<and> smtp_disabled s)]
            in map fst (filter (\<lambda>(code, applies). applies \<and> Some code \<noteq> dec_reason d) candidates)))"

definition aggregate :: "aggregate_input \<Rightarrow> aggregate_result" where
  "aggregate inp =
     (let d = decide inp
      in \<lparr>agg_verdict = dec_verdict d,
          score = dec_score d,
          reasonCodes = (case dec_reason d of None \<Rightarrow> [] | Some r \<Rightarrow> r # secondaryReasons inp d),
          disclaimer = AGGREGATE_DISCLAIMER\<rparr>)"

lemmas aggregate_defs = aggregate_def decide_def decide_probe_def decide_cautions_def secondaryReasons_def Let_def

section \<open>Invalid needs evidence\<close>

text \<open>Evidence against the address itself: it does not parse, its domain was examined and has
  no mail server, or a mailbox probe ran without trouble and the server refused or disabled it.\<close>

definition hard_evidence :: "aggregate_input \<Rightarrow> bool" where
  "hard_evidence inp =
     (let e = engine inp in
      \<not> syn_valid (eng_syntax e)
      \<or> (mx_error (eng_mx e) = [] \<and> has_mx (eng_mx e) = Some False)
      \<or> (mx_error (eng_mx e) = [] \<and> has_mx (eng_mx e) = Some True \<and> operationalReason inp = None
         \<and> (\<exists>s. eng_smtp e = Some s \<and> attempted s \<and> smtp_error s = [] \<and> \<not> catch_all s
              \<and> (\<not> mailbox_accepted s \<and> \<not> smtp_disabled s \<or> smtp_disabled s \<and> \<not> full_inbox s))))"

text \<open>C35: The verdict is invalid exactly on hard evidence; in particular a failed MX lookup, a
  probe that errored, a catch-all domain or a probe that could not run never gives invalid.\<close>

theorem aggregate_invalid_iff:
  "agg_verdict (aggregate inp) = Invalid \<longleftrightarrow> hard_evidence inp"
proof (cases "eng_smtp (engine inp)")
  case None
  then show ?thesis
    by (cases "has_mx (eng_mx (engine inp))")
       (auto simp: aggregate_defs hard_evidence_def mx_unavailable_def split: option.splits)
next
  case (Some s)
  then show ?thesis
    by (cases "has_mx (eng_mx (engine inp))")
       (auto simp: aggregate_defs hard_evidence_def mx_unavailable_def split: option.splits)
qed

text \<open>The reason list explains the verdict: it is empty exactly for valid, it starts with
  the deciding reason, never repeats a code, and an invalid result has that one reason only.\<close>

theorem aggregate_reasons:
  "(reasonCodes (aggregate inp) = [] \<longleftrightarrow> agg_verdict (aggregate inp) = Valid)
   \<and> distinct (reasonCodes (aggregate inp))
   \<and> (case dec_reason (decide inp) of None \<Rightarrow> True | Some r \<Rightarrow> hd (reasonCodes (aggregate inp)) = r)
   \<and> (agg_verdict (aggregate inp) = Invalid \<longleftrightarrow>
        (\<exists>r \<in> {SYNTAX_INVALID, DOMAIN_NO_MX, MAILBOX_REJECTED, MAILBOX_DISABLED}. reasonCodes (aggregate inp) = [r]))"
proof -
  let ?d = "decide inp"
  have none: "dec_reason ?d = None \<longleftrightarrow> dec_verdict ?d = Valid"
    by (auto simp: aggregate_defs split: option.splits)
  have inv: "dec_verdict ?d = Invalid \<longleftrightarrow>
      (\<exists>r \<in> {SYNTAX_INVALID, DOMAIN_NO_MX, MAILBOX_REJECTED, MAILBOX_DISABLED}. dec_reason ?d = Some r)"
    by (auto simp: aggregate_defs elim: op_reason.elims split: option.splits)
  have sec: "dec_verdict ?d = Invalid \<Longrightarrow> secondaryReasons inp ?d = []"
    by (simp add: secondaryReasons_def)
  have dist: "distinct (r # secondaryReasons inp ?d)" if "dec_reason ?d = Some r" for r
    using that by (auto simp: secondaryReasons_def Let_def split: option.splits)
  show ?thesis using none inv sec dist
    by (auto simp: aggregate_def Let_def split: option.splits)
qed

text \<open>The score never contradicts the verdict: invalid scores at most 10, risky lies between
  45 and 65, unknown is 50 and valid is 95.\<close>

theorem aggregate_score:
  "case agg_verdict (aggregate inp) of
     Invalid \<Rightarrow> 0 \<le> score (aggregate inp) \<and> score (aggregate inp) \<le> 10
   | Risky \<Rightarrow> 45 \<le> score (aggregate inp) \<and> score (aggregate inp) \<le> 65
   | Unknown \<Rightarrow> score (aggregate inp) = 50
   | Valid \<Rightarrow> score (aggregate inp) = 95"
  by (auto simp: aggregate_defs split: option.splits)

end
