(* ===== verification/Js_Number.thy ===== *)
theory Js_Number
  imports Prelude
begin

text \<open>
  Numbers in text: \<open>String(n)\<close> and \<open>Number(s)\<close> on decimal digits, and hexadecimal
  digits, with the laws the parsers of the development rest on.
\<close>

definition is_digit :: "char \<Rightarrow> bool" where
  "is_digit c = (48 \<le> char_code c \<and> char_code c \<le> 57)"

text \<open>\<open>String(n)\<close> of a non-negative integer.\<close>

fun nat_text :: "nat \<Rightarrow> string" where
  "nat_text n = (if n < 10 then [char_of (48 + n)] else nat_text (n div 10) @ [char_of (48 + n mod 10)])"

declare nat_text.simps [simp del]

text \<open>The value of a string of decimal digits.\<close>

definition digits_value :: "string \<Rightarrow> int" where
  "digits_value ds = foldl (\<lambda>acc c. acc * 10 + (int (char_code c) - 48)) 0 ds"

text \<open>\<open>Number(s)\<close> for the strings the code passes: decimal digits, or blank, which gives 0.
  \<open>None\<close> stands for \<open>NaN\<close>.\<close>

definition js_number :: "string \<Rightarrow> int option" where
  "js_number s =
     (if list_all is_digit s \<and> s \<noteq> [] then Some (digits_value s)
      else if js_trim s = [] then Some 0 else None)"

definition hex_value :: "char \<Rightarrow> nat option" where
  "hex_value c =
     (let n = char_code c
      in if 48 \<le> n \<and> n \<le> 57 then Some (n - 48)
         else if 65 \<le> n \<and> n \<le> 70 then Some (n - 55)
         else if 97 \<le> n \<and> n \<le> 102 then Some (n - 87) else None)"

text \<open>\<open>Number.parseInt(s, 16)\<close> of a string of hexadecimal digits.\<close>

definition hex_number :: "string \<Rightarrow> int" where
  "hex_number s = foldl (\<lambda>acc c. acc * 16 + int (case hex_value c of Some v \<Rightarrow> v | None \<Rightarrow> 0)) 0 s"

section \<open>Laws\<close>

lemma nat_text_digits: "\<forall>c \<in> set (nat_text n). is_digit c"
proof (induction n rule: nat_text.induct)
  case (1 n)
  have "n mod 10 < 10" by simp
  then show ?case using 1 by (subst nat_text.simps) (auto simp: is_digit_def)
qed

lemma nat_text_ne [simp]: "nat_text n \<noteq> []"
  by (subst nat_text.simps) simp

lemma digits_value_nat_text [simp]: "digits_value (nat_text n) = int n"
proof (induction n rule: nat_text.induct)
  case (1 n)
  have "n mod 10 < 10" by simp
  then show ?case
    using 1 by (subst nat_text.simps) (auto simp: digits_value_def zdiv_int zmod_int)
qed

lemma js_number_nat_text [simp]: "js_number (nat_text n) = Some (int n)"
  using nat_text_digits [of n] by (simp add: js_number_def list_all_iff)

lemma nat_text_inj [simp]: "nat_text m = nat_text n \<longleftrightarrow> m = n"
  by (metis digits_value_nat_text of_nat_eq_iff)

lemma foldl_digits_append:
  "foldl (\<lambda>acc c. acc * 10 + (int (char_code c) - 48)) a ds = a * 10 ^ length ds + digits_value ds"
  unfolding digits_value_def
proof (induction ds rule: rev_induct)
  case (snoc c ds)
  then show ?case by (simp add: algebra_simps)
qed simp

lemma digits_value_Nil [simp]: "digits_value [] = 0"
  by (simp add: digits_value_def)

lemma digits_value_append: "digits_value (as @ bs) = digits_value as * 10 ^ length bs + digits_value bs"
  using foldl_digits_append [of "digits_value as" bs] by (simp add: digits_value_def)

lemma digits_value_nonneg: "list_all is_digit ds \<Longrightarrow> 0 \<le> digits_value ds"
  by (induction ds rule: rev_induct) (simp_all add: digits_value_def is_digit_def)

lemma foldl_hex_bound:
  assumes "0 \<le> a" "a < 16 ^ k"
  shows "0 \<le> foldl (\<lambda>acc c. acc * 16 + int (case hex_value c of Some v \<Rightarrow> v | None \<Rightarrow> 0)) a s
    \<and> foldl (\<lambda>acc c. acc * 16 + int (case hex_value c of Some v \<Rightarrow> v | None \<Rightarrow> 0)) a s < 16 ^ (k + length s)"
  using assms
proof (induction s arbitrary: a k)
  case (Cons c s)
  have "(case hex_value c of Some v \<Rightarrow> v | None \<Rightarrow> 0) < 16"
    by (auto simp: hex_value_def Let_def split: option.splits if_splits)
  then have "a * 16 + int (case hex_value c of Some v \<Rightarrow> v | None \<Rightarrow> 0) < 16 ^ Suc k"
    using Cons.prems by simp
  then show ?case using Cons.IH [of _ "Suc k"] Cons.prems(1) by simp
qed simp

lemma hex_number_bound: "0 \<le> hex_number s" "hex_number s < 16 ^ length s"
  using foldl_hex_bound [of 0 0 s] by (simp_all add: hex_number_def)


section \<open>Signed integers\<close>

text \<open>\<open>String(n)\<close> of an integer and \<open>Number(s)\<close> of its text.\<close>

definition int_text :: "int \<Rightarrow> string" where
  "int_text n = (if n < 0 then CHR ''-'' # nat_text (nat (- n)) else nat_text (nat n))"

definition js_integer :: "string \<Rightarrow> int option" where
  "js_integer s =
     (case s of
        c # ds \<Rightarrow> if c = CHR ''-'' \<and> ds \<noteq> [] \<and> list_all is_digit ds then Some (- digits_value ds) else js_number s
      | [] \<Rightarrow> js_number s)"

lemma int_text_chars: "c \<in> set (int_text n) \<Longrightarrow> is_digit c \<or> c = CHR ''-''"
  using nat_text_digits by (auto simp: int_text_def split: if_splits)

lemma int_text_ne [simp]: "int_text n \<noteq> []"
  by (simp add: int_text_def)

lemma js_integer_int_text [simp]: "js_integer (int_text n) = Some n"
proof (cases "n < 0")
  case True
  then show ?thesis using nat_text_digits by (simp add: int_text_def js_integer_def list_all_iff)
next
  case False
  obtain c ds where t: "nat_text (nat n) = c # ds" by (cases "nat_text (nat n)") auto
  then have "is_digit c" using nat_text_digits [of "nat n"] by simp
  then have "c \<noteq> CHR ''-''" by (auto simp: is_digit_def char_code_def)
  then show ?thesis using False js_number_nat_text [of "nat n"] by (simp add: int_text_def js_integer_def t)
qed

end
