(* ===== verification/Core_Plans.thy ===== *)
theory Core_Plans
  imports Core_Verdict Js_Number
begin

text \<open>
  The remaining modules of \<^verbatim>\<open>packages/core/src\<close>: \<open>plans.ts\<close>,
  \<open>phone.ts\<close> and \<open>result.ts\<close>.
\<close>

section \<open>Plans and amounts\<close>

datatype plan_code = PILOT | TEAM | API

record plan =
  plan_code :: plan_code
  priceUzs :: nat
  plan_checks :: nat

definition PLANS :: "plan list" where
  "PLANS =
     [\<lparr>plan_code = PILOT, priceUzs = 500000, plan_checks = 10000\<rparr>,
      \<lparr>plan_code = TEAM, priceUzs = 1500000, plan_checks = 50000\<rparr>,
      \<lparr>plan_code = API, priceUzs = 3500000, plan_checks = 200000\<rparr>]"

fun plan_code_text :: "plan_code \<Rightarrow> string" where
  "plan_code_text PILOT = ''PILOT''"
| "plan_code_text TEAM = ''TEAM''"
| "plan_code_text API = ''API''"

definition getPlan :: "string \<Rightarrow> plan option" where
  "getPlan code = find (\<lambda>p. plan_code_text (plan_code p) = code) PLANS"

definition is_word_char :: "char \<Rightarrow> bool" where
  "is_word_char c =
     (let n = char_code c in is_digit c \<or> (65 \<le> n \<and> n \<le> 90) \<or> (97 \<le> n \<and> n \<le> 122) \<or> n = 95)"

text \<open>\<open>\B\<close> between the previous character (if any) and the rest.\<close>

definition not_word_boundary :: "char option \<Rightarrow> string \<Rightarrow> bool" where
  "not_word_boundary prev rest =
     ((case prev of None \<Rightarrow> False | Some c \<Rightarrow> is_word_char c)
      = (case rest of [] \<Rightarrow> False | c # _ \<Rightarrow> is_word_char c))"

text \<open>\<open>(?=(\d{3})+(?!\d))\<close>: a run of digits whose length is a positive multiple of three.\<close>

definition digit_groups_ahead :: "string \<Rightarrow> bool" where
  "digit_groups_ahead rest =
     (let k = length (takeWhile is_digit rest) in 0 < k \<and> k mod 3 = 0)"

text \<open>The global replacement: the separator goes in at every matching (empty) position.\<close>

fun group_digits :: "string \<Rightarrow> char option \<Rightarrow> string \<Rightarrow> string" where
  "group_digits sep prev [] = []"
| "group_digits sep prev (c # cs) =
     (if not_word_boundary prev (c # cs) \<and> digit_groups_ahead (c # cs) then sep else [])
     @ c # group_digits sep (Some c) cs"

definition formatAmount :: "nat \<Rightarrow> string \<Rightarrow> string" where
  "formatAmount n groupSeparator = group_digits groupSeparator None (nat_text n)"

text \<open>Groups of three from the right, as a specification.\<close>

fun thirds :: "string \<Rightarrow> string list" where
  "thirds s = (if length s \<le> 3 then [s] else thirds (take (length s - 3) s) @ [drop (length s - 3) s])"

declare thirds.simps [simp del]

lemma thirds_ne [simp]: "thirds s \<noteq> []"
  by (subst thirds.simps) simp

lemma js_join_append:
  "xs \<noteq> [] \<Longrightarrow> js_join sep (xs @ [y]) = js_join sep xs @ sep @ y"
  by (induction sep xs rule: js_join.induct) auto

lemma digit_is_word: "is_digit c \<Longrightarrow> is_word_char c"
  by (simp add: is_word_char_def Let_def)

text \<open>Inside a run of digits the separator goes before every third digit from the right.\<close>

lemma group_digits_inner:
  assumes "\<forall>c \<in> set s. is_digit c" "is_digit p"
  shows "group_digits sep (Some p) s = concat (map (\<lambda>i. (if (length s - i) mod 3 = 0 then sep else []) @ [s ! i]) [0..<length s])"
  using assms
proof (induction s arbitrary: p)
  case (Cons c s)
  have tw: "takeWhile is_digit (c # s) = c # s" using Cons.prems by (simp add: takeWhile_eq_all_conv)
  have "not_word_boundary (Some p) (c # s)"
    using Cons.prems by (simp add: not_word_boundary_def digit_is_word)
  moreover have "digit_groups_ahead (c # s) \<longleftrightarrow> length (c # s) mod 3 = 0"
    unfolding digit_groups_ahead_def tw by (simp add: Let_def)
  ultimately show ?case using Cons
    by (simp add: upt_conv_Cons map_Suc_upt [symmetric] comp_def del: upt_Suc)
qed simp

definition grouped_at :: "string \<Rightarrow> string \<Rightarrow> nat \<Rightarrow> string" where
  "grouped_at sep s i = (if (length s - i) mod 3 = 0 then sep else []) @ [s ! i]"

lemma group_digits_start:
  assumes "\<forall>c \<in> set s. is_digit c" "s \<noteq> []"
  shows "group_digits sep None s = hd s # concat (map (grouped_at sep s) [1..<length s])"
proof -
  obtain c cs where s: "s = c # cs" using assms(2) by (cases s) auto
  have "\<not> not_word_boundary None s"
    using assms by (simp add: not_word_boundary_def s digit_is_word)
  then have "group_digits sep None s = c # group_digits sep (Some c) cs" by (simp add: s)
  also have "\<dots> = c # concat (map (grouped_at sep s) (map Suc [0..<length cs]))"
    using assms(1) group_digits_inner [of cs c sep] by (simp add: s grouped_at_def comp_def)
  finally show ?thesis by (simp add: s map_Suc_upt del: upt_Suc)
qed

lemma group_digits_snoc3:
  assumes "\<forall>c \<in> set (t @ [x, y, z]). is_digit c" "t \<noteq> []"
  shows "group_digits sep None (t @ [x, y, z]) = group_digits sep None t @ sep @ [x, y, z]"
proof -
  let ?s = "t @ [x, y, z]"
  have idx: "[1..<length ?s] = [1..<length t] @ [length t, length t + 1, length t + 2]"
  proof -
    have len: "length ?s = length t + 3" by simp
    have "1 \<le> length t" using assms(2) by (cases t) auto
    then have "[1..<length t + 3] = [1..<length t] @ [length t..<length t + 3]" by (rule upt_add_eq_append)
    moreover have "[length t..<length t + 3] = [length t, length t + 1, length t + 2]"
      by (simp add: numeral_3_eq_3)
    ultimately show ?thesis unfolding len by (simp only:)
  qed
  have front: "grouped_at sep ?s i = grouped_at sep t i" if "i < length t" for i
  proof -
    have "length ?s - i = (length t - i) + 3" using that by simp
    then have "(length ?s - i) mod 3 = (length t - i) mod 3" by (simp only: mod_add_self2)
    then show ?thesis using that by (simp only: grouped_at_def nth_append if_True)
  qed
  have "map (grouped_at sep ?s) [1..<length t] = map (grouped_at sep t) [1..<length t]"
    using front by simp
  moreover have "concat (map (grouped_at sep ?s) [length t, length t + 1, length t + 2]) = sep @ [x, y, z]"
    by (simp add: grouped_at_def nth_append)
  ultimately have tail: "concat (map (grouped_at sep ?s) [1..<length ?s])
     = concat (map (grouped_at sep t) [1..<length t]) @ sep @ [x, y, z]"
    unfolding idx map_append concat_append by (simp only:)
  have "group_digits sep None ?s = hd ?s # concat (map (grouped_at sep ?s) [1..<length ?s])"
    using assms by (intro group_digits_start) simp_all
  also have "\<dots> = (hd t # concat (map (grouped_at sep t) [1..<length t])) @ sep @ [x, y, z]"
    unfolding tail using assms(2) by simp
  also have "hd t # concat (map (grouped_at sep t) [1..<length t]) = group_digits sep None t"
    using assms by (intro group_digits_start [symmetric]) simp_all
  finally show ?thesis .
qed

lemma group_digits_thirds:
  assumes "\<forall>c \<in> set s. is_digit c" "s \<noteq> []"
  shows "group_digits sep None s = js_join sep (thirds s)"
  using assms
proof (induction s rule: thirds.induct)
  case (1 s)
  show ?case
  proof (cases "length s \<le> 3")
    case True
    have "grouped_at sep s i = [s ! i]" if "1 \<le> i" "i < length s" for i
    proof -
      have "(length s - i) mod 3 \<noteq> 0" using True that by (simp add: mod_eq_self_iff_div_eq_0)
      then show ?thesis by (simp add: grouped_at_def)
    qed
    then have "concat (map (grouped_at sep s) is) = map ((!) s) is" if "set is \<subseteq> {1..<length s}" for "is"
      using that by (induction "is") auto
    then have "concat (map (grouped_at sep s) [1..<length s]) = map ((!) s) [1..<length s]" by simp
    also have "\<dots> = tl s" by (metis map_nth map_tl tl_upt One_nat_def)
    finally have "group_digits sep None s = s"
      using group_digits_start [OF "1.prems", of sep] "1.prems"(2) by simp
    then show ?thesis using True by (simp add: thirds.simps [of s])
  next
    case False
    define t where "t = take (length s - 3) s"
    have "length (drop (length s - 3) s) = Suc (Suc (Suc 0))" using False by simp
    then obtain x y z where u: "drop (length s - 3) s = [x, y, z]"
      unfolding length_Suc_conv length_0_conv by blast
    have s: "s = t @ [x, y, z]" unfolding t_def u [symmetric] by simp
    have "t \<noteq> []" using False by (auto simp: t_def)
    have "\<forall>c \<in> set t. is_digit c" using "1.prems"(1) by (simp add: t_def) (meson in_set_takeD)
    then have "group_digits sep None t = js_join sep (thirds t)"
      using "1.IH" [OF False] \<open>t \<noteq> []\<close> by (simp add: t_def)
    moreover have "group_digits sep None s = group_digits sep None t @ sep @ [x, y, z]"
      unfolding s using "1.prems"(1) \<open>t \<noteq> []\<close> by (intro group_digits_snoc3) (simp_all add: s)
    ultimately show ?thesis using False
      by (simp add: thirds.simps [of s] js_join_append t_def [symmetric] u)
  qed
qed

lemma concat_thirds: "concat (thirds s) = s"
proof (induction s rule: thirds.induct)
  case (1 s)
  then show ?case by (simp add: thirds.simps [of s])
qed

lemma thirds_lengths: "s \<noteq> [] \<Longrightarrow> 1 \<le> length (hd (thirds s)) \<and> length (hd (thirds s)) \<le> 3 \<and> (\<forall>g \<in> set (tl (thirds s)). length g = 3)"
proof (induction s rule: thirds.induct)
  case (1 s)
  show ?case
  proof (cases "length s \<le> 3")
    case True
    then show ?thesis using "1.prems" by (simp add: thirds.simps [of s] Suc_le_eq)
  next
    case False
    then have "take (length s - 3) s \<noteq> []" by auto
    note IH = "1.IH" [OF False this]
    obtain t u where tu: "thirds s = t @ [u]" "t \<noteq> []" "length u = 3" "t = thirds (take (length s - 3) s)"
      using False by (subst (asm) thirds.simps) auto
    show ?thesis using IH tu(2,3) unfolding tu(1) tu(4) [symmetric] by simp
  qed
qed

text \<open>Amounts are grouped correctly: the text is the decimal digits cut into groups joined
  by the separator, every group but the first has three digits and the first has one to three.\<close>

theorem formatAmount_groups:
  "\<exists>groups. formatAmount n sep = js_join sep groups \<and> concat groups = nat_text n \<and> groups \<noteq> []
     \<and> length (hd groups) \<in> {1..3} \<and> list_all (\<lambda>g. length g = 3) (tl groups)"
  using group_digits_thirds [OF nat_text_digits nat_text_ne, of sep n] concat_thirds [of "nat_text n"]
    thirds_lengths [of "nat_text n"]
  by (intro exI [of _ "thirds (nat_text n)"]) (simp add: formatAmount_def list_all_iff)

section \<open>Phone numbers\<close>

text \<open>\<open>libphonenumber-js\<close> is not part of the repository: its four functions are
  parameters. A parsed number carries the answers of its three methods.\<close>

datatype length_problem = TOO_SHORT | TOO_LONG | INVALID_COUNTRY | NOT_A_NUMBER | INVALID_LENGTH

record parsed_phone =
  pp_number :: string
  pp_isValid :: bool
  pp_country :: "string option"
  pp_type :: "string option"

record phone_lib =
  isSupportedCountry :: "string \<Rightarrow> bool"
  validatePhoneNumberLength :: "string \<Rightarrow> string option \<Rightarrow> length_problem option"
  parsePhoneNumberFromString :: "string \<Rightarrow> string option \<Rightarrow> parsed_phone option"

record phone_result =
  e164 :: "string option"
  ph_valid :: bool
  ph_country :: "string option"
  lineTypeGuess :: "string option"
  ph_reasonCodes :: "reason_code list"

definition DEFAULT_PHONE_COUNTRY :: string where "DEFAULT_PHONE_COUNTRY = ''UZ''"

definition phone_failure :: "reason_code \<Rightarrow> phone_result" where
  "phone_failure code =
     \<lparr>e164 = None, ph_valid = False, ph_country = None, lineTypeGuess = None, ph_reasonCodes = [code]\<rparr>"

fun classifyFailure :: "length_problem option \<Rightarrow> reason_code" where
  "classifyFailure (Some TOO_SHORT) = PHONE_TOO_SHORT"
| "classifyFailure (Some TOO_LONG) = PHONE_TOO_LONG"
| "classifyFailure (Some INVALID_COUNTRY) = PHONE_UNKNOWN_COUNTRY"
| "classifyFailure _ = PHONE_INVALID_FORMAT"

definition validatePhone :: "phone_lib \<Rightarrow> string \<Rightarrow> string \<Rightarrow> phone_result" where
  "validatePhone lib input defaultCountry =
     (let trimmed = js_trim input;
          hasExplicitCountry = js_startsWith trimmed ''+''
      in if \<not> isSupportedCountry lib defaultCountry \<and> \<not> hasExplicitCountry
         then phone_failure PHONE_UNKNOWN_COUNTRY
         else (let country = (if isSupportedCountry lib defaultCountry then Some defaultCountry else None)
               in if trimmed = [] then phone_failure PHONE_INVALID_FORMAT
                  else (let lengthProblem = validatePhoneNumberLength lib trimmed country
                        in case parsePhoneNumberFromString lib trimmed country of
                             None \<Rightarrow> phone_failure (classifyFailure lengthProblem)
                           | Some parsed \<Rightarrow>
                               if \<not> pp_isValid parsed then phone_failure (classifyFailure lengthProblem)
                               else \<lparr>e164 = Some (pp_number parsed), ph_valid = True,
                                     ph_country = pp_country parsed, lineTypeGuess = pp_type parsed,
                                     ph_reasonCodes = [PHONE_OK]\<rparr>)))"

text \<open>A phone result is all or nothing, whatever the numbering library answers: exactly the
  numbers the library parses as valid are valid, with their E.164 form and PHONE_OK; every
  failure carries no number, no country and no line type, and one failure code.\<close>

theorem validatePhone_all_or_nothing:
  "let r = validatePhone lib input defaultCountry;
       country = (if isSupportedCountry lib defaultCountry then Some defaultCountry else None);
       readable = (js_trim input \<noteq> [] \<and> (case country of None \<Rightarrow> js_startsWith (js_trim input) ''+'' | Some _ \<Rightarrow> True));
       accepted = (\<exists>p. parsePhoneNumberFromString lib (js_trim input) country = Some p \<and> pp_isValid p)
   in (ph_valid r \<longleftrightarrow> readable \<and> accepted) \<and> (ph_valid r \<longleftrightarrow> e164 r \<noteq> None)
      \<and> (ph_valid r \<longleftrightarrow> ph_reasonCodes r = [PHONE_OK])
      \<and> (ph_valid r \<or> (\<exists>c \<in> {PHONE_INVALID_FORMAT, PHONE_TOO_SHORT, PHONE_TOO_LONG, PHONE_UNKNOWN_COUNTRY}.
           r = phone_failure c))"
proof -
  have cls: "classifyFailure p \<in> {PHONE_INVALID_FORMAT, PHONE_TOO_SHORT, PHONE_TOO_LONG, PHONE_UNKNOWN_COUNTRY}" for p
    by (cases p rule: classifyFailure.cases) auto
  then have [simp]: "classifyFailure p \<noteq> PHONE_OK" for p by (metis empty_iff insert_iff reason_code.distinct)
  show ?thesis using cls
    by (auto simp: validatePhone_def phone_failure_def Let_def split: option.splits)
qed

section \<open>Results as values\<close>

datatype ('t, 'e) result = Ok 't | Err 'e

fun result_map :: "('t, 'e) result \<Rightarrow> ('t \<Rightarrow> 'u) \<Rightarrow> ('u, 'e) result" where
  "result_map (Ok v) fn = Ok (fn v)"
| "result_map (Err e) fn = Err e"

fun result_flatMap :: "('t, 'e) result \<Rightarrow> ('t \<Rightarrow> ('u, 'e) result) \<Rightarrow> ('u, 'e) result" where
  "result_flatMap (Ok v) fn = fn v"
| "result_flatMap (Err e) fn = Err e"

fun result_unwrapOr :: "('t, 'e) result \<Rightarrow> 't \<Rightarrow> 't" where
  "result_unwrapOr (Ok v) fb = v"
| "result_unwrapOr (Err e) fb = fb"

lemma result_flatMap_assoc:
  "result_flatMap (result_flatMap r f) g = result_flatMap r (\<lambda>x. result_flatMap (f x) g)"
  by (cases r) auto

lemma result_map_flatMap: "result_map r f = result_flatMap r (\<lambda>x. Ok (f x))"
  by (cases r) auto

end
