(* ===== verification/Core_Email.thy ===== *)
theory Core_Email
  imports Prelude
begin

text \<open>
  \<^verbatim>\<open>packages/core/src/normalize-email.ts\<close>: whitespace, one outer wrapper and the
  case of the domain.
\<close>

datatype email_change =
    TRIMMED_WHITESPACE | STRIPPED_ANGLE_BRACKETS | STRIPPED_DOUBLE_QUOTES
  | STRIPPED_SINGLE_QUOTES | LOWERCASED_DOMAIN

record normalized_email =
  normalized :: "string option"
  changes :: "email_change list"

definition WRAPPERS :: "(string \<times> string \<times> email_change) list" where
  "WRAPPERS =
     [(''<'', ''>'', STRIPPED_ANGLE_BRACKETS),
      ([CHR 0x22], [CHR 0x22], STRIPPED_DOUBLE_QUOTES),
      ([CHR 0x27], [CHR 0x27], STRIPPED_SINGLE_QUOTES)]"

definition recordOnce :: "email_change list \<Rightarrow> email_change \<Rightarrow> email_change list" where
  "recordOnce cs c = (if c \<in> set cs then cs else cs @ [c])"

text \<open>Trimming a value and recording it when it changed something.\<close>

definition trim_step :: "string \<times> email_change list \<Rightarrow> string \<times> email_change list" where
  "trim_step st =
     (let trimmed = js_trim (fst st)
      in (trimmed, if trimmed \<noteq> fst st then recordOnce (snd st) TRIMMED_WHITESPACE else snd st))"

text \<open>The loop over \<open>WRAPPERS\<close>: it stops at the first wrapper that matches.\<close>

fun strip_wrapper ::
  "(string \<times> string \<times> email_change) list \<Rightarrow> string \<times> email_change list \<Rightarrow> string \<times> email_change list" where
  "strip_wrapper [] st = st"
| "strip_wrapper ((opn, cls, change) # ws) (val, cs) =
     (if length val \<ge> 2 \<and> js_startsWith val opn \<and> js_endsWith val cls
      then trim_step (js_slice val 1 (-1), recordOnce cs change)
      else strip_wrapper ws (val, cs))"

definition lower_domain :: "string \<times> email_change list \<Rightarrow> string \<times> email_change list" where
  "lower_domain st =
     (let val = fst st; at = js_lastIndexOf val CHR ''@''
      in if at > -1 then
           (let local_part = js_slice val 0 at;
                domain = js_slice_from val (at + 1);
                lowerDomain = js_toLowerCase domain
            in (local_part @ ''@'' @ lowerDomain,
                if lowerDomain \<noteq> domain then recordOnce (snd st) LOWERCASED_DOMAIN else snd st))
         else st)"

definition normalizeEmail :: "string \<Rightarrow> normalized_email" where
  "normalizeEmail input =
     (let (val, cs) = strip_wrapper WRAPPERS (trim_step (input, []))
      in if val = [] then \<lparr>normalized = None, changes = cs\<rparr>
         else (let (val', cs') = lower_domain (val, cs)
               in \<lparr>normalized = Some val', changes = cs'\<rparr>))"

section \<open>What each pass does\<close>

lemma recordOnce_ne [simp]: "recordOnce cs c \<noteq> []"
  by (auto simp: recordOnce_def)

lemma recordOnce_distinct [simp]: "distinct cs \<Longrightarrow> distinct (recordOnce cs c)"
  by (auto simp: recordOnce_def)

lemma trim_step_simps [simp]:
  "fst (trim_step (v, cs)) = js_trim v"
  "distinct cs \<Longrightarrow> distinct (snd (trim_step (v, cs)))"
  "snd (trim_step (v, cs)) = [] \<longleftrightarrow> cs = [] \<and> js_trim v = v"
  by (auto simp: trim_step_def Let_def)

lemma wrapped_split:
  assumes "length val \<ge> 2" "js_startsWith val [a]" "js_endsWith val [b]"
  shows "\<exists>inner. val = a # inner @ [b]"
proof -
  obtain x rest where v: "val = x # rest" using assms(1) by (cases val) auto
  then obtain inner y where r: "rest = inner @ [y]" using assms(1) by (cases rest rule: rev_cases) auto
  then show ?thesis using v assms(2,3) by (auto simp: js_startsWith_def js_endsWith_def)
qed

text \<open>Either nothing matches, or exactly one outer pair goes and the inside is trimmed.\<close>

lemma strip_wrapper_cases:
  assumes "\<forall>(o', c', ch) \<in> set ws. length o' = 1 \<and> length c' = 1"
  shows "strip_wrapper ws (val, cs) = (val, cs) \<or>
    (\<exists>a inner b ch. val = a # inner @ [b] \<and> strip_wrapper ws (val, cs) = trim_step (inner, recordOnce cs ch))"
  using assms
proof (induction ws)
  case (Cons w ws)
  obtain o' c' ch where w: "w = (o', c', ch)" by (cases w)
  then obtain a b where ab: "o' = [a]" "c' = [b]" using Cons.prems by (auto simp: length_Suc_conv)
  show ?case
  proof (cases "length val \<ge> 2 \<and> js_startsWith val o' \<and> js_endsWith val c'")
    case True
    then obtain inner where "val = a # inner @ [b]" using wrapped_split ab by blast
    then show ?thesis using True w by auto
  next
    case False
    then show ?thesis using Cons w by auto
  qed
qed simp

lemma sublist_full: "length xs = length ys \<Longrightarrow> sublist xs ys \<Longrightarrow> xs = ys"
  by (auto simp: sublist_def)

lemma WRAPPERS_single: "\<forall>(o', c', ch) \<in> set WRAPPERS. length o' = 1 \<and> length c' = 1"
  by (simp add: WRAPPERS_def)

text \<open>The cleaned core of an input: the value before the domain pass.\<close>

definition email_core :: "string \<Rightarrow> string" where
  "email_core input = fst (strip_wrapper WRAPPERS (trim_step (input, [])))"

lemma trim_step_pair: "trim_step (v, cs) = (js_trim v, snd (trim_step (v, cs)))"
  by (simp add: trim_step_def Let_def)

lemma strip_core_cases:
  obtains (plain) "strip_wrapper WRAPPERS (trim_step (input, [])) = trim_step (input, [])"
  | (wrapped) a inner b ch where "js_trim input = a # inner @ [b]"
      "strip_wrapper WRAPPERS (trim_step (input, [])) =
         trim_step (inner, recordOnce (snd (trim_step (input, []))) ch)"
  using strip_wrapper_cases [OF WRAPPERS_single, of "js_trim input" "snd (trim_step (input, []))"]
  by (metis trim_step_pair)

lemma email_core_trimmed: "js_trim (email_core input) = email_core input"
  by (cases rule: strip_core_cases [of input]) (auto simp: email_core_def)

lemma email_core_sublist: "sublist (email_core input) input"
proof (cases rule: strip_core_cases [of input])
  case plain
  then show ?thesis by (simp add: email_core_def js_trim_sublist)
next
  case (wrapped a inner b ch)
  have "sublist inner (a # inner @ [b])"
    unfolding sublist_def by (intro exI [of _ "[a]"] exI [of _ "[b]"]) simp
  then have "sublist (js_trim inner) (a # inner @ [b])"
    using js_trim_sublist [of inner] by (blast intro: sublist_order.order_trans)
  then show ?thesis using wrapped js_trim_sublist [of input]
    by (metis email_core_def sublist_order.order_trans trim_step_simps(1))
qed

lemma email_core_changes:
  "snd (strip_wrapper WRAPPERS (trim_step (input, []))) = [] \<longleftrightarrow> email_core input = input"
proof (cases rule: strip_core_cases [of input])
  case plain
  then show ?thesis by (simp add: email_core_def)
next
  case (wrapped a inner b ch)
  have "length (js_trim inner) < length input"
    using js_trim_length [of inner] js_trim_length [of input] wrapped(1) by simp
  then show ?thesis using wrapped(2) by (auto simp: email_core_def)
qed

lemma email_core_distinct: "distinct (snd (strip_wrapper WRAPPERS (trim_step (input, []))))"
  by (cases rule: strip_core_cases [of input]) auto

text \<open>The domain pass in terms of the last at sign.\<close>

lemma lower_domain_split:
  "CHR ''@'' \<notin> set dm \<Longrightarrow>
   lower_domain (loc @ CHR ''@'' # dm, cs) =
     (loc @ CHR ''@'' # js_toLowerCase dm,
      if js_toLowerCase dm \<noteq> dm then recordOnce cs LOWERCASED_DOMAIN else cs)"
  by (simp add: lower_domain_def Let_def js_lastIndexOf_append)

lemma lower_domain_none: "CHR ''@'' \<notin> set v \<Longrightarrow> lower_domain (v, cs) = (v, cs)"
  by (simp add: lower_domain_def)

lemma normalizeEmail_core:
  "normalizeEmail input =
     (if email_core input = [] then \<lparr>normalized = None, changes = snd (strip_wrapper WRAPPERS (trim_step (input, [])))\<rparr>
      else (let (v, cs) = lower_domain (email_core input, snd (strip_wrapper WRAPPERS (trim_step (input, []))))
            in \<lparr>normalized = Some v, changes = cs\<rparr>))"
  by (simp add: normalizeEmail_def email_core_def split: prod.splits)

lemma split_last_at:
  obtains (no_at) "CHR ''@'' \<notin> set v"
  | (at) loc dm where "v = loc @ CHR ''@'' # dm" "CHR ''@'' \<notin> set dm"
  using split_list_last by metis

lemma js_lower_char_ws [simp]: "js_ws (js_lower_char c) = js_ws c"
proof -
  have "char_code c < 256" by simp
  then show ?thesis by (auto simp: js_ws_def js_lower_char_def Let_def)
qed

text \<open>A string is trimmed when neither end is white space.\<close>

lemma js_trim_fixed_iff: "js_trim v = v \<longleftrightarrow> v = [] \<or> (\<not> js_ws (hd v) \<and> \<not> js_ws (last v))"
proof (cases v)
  case Nil
  then show ?thesis by (simp add: js_trim_def js_trimStart_def)
next
  case (Cons x xs)
  show ?thesis
  proof (cases "js_ws x")
    case True
    have "length (js_trim v) < length v"
      using Cons True length_dropWhile_le [of js_ws "rev (dropWhile js_ws xs)"] length_dropWhile_le [of js_ws xs]
      by (simp add: js_trim_def js_trimStart_def)
    then show ?thesis using True Cons by auto
  next
    case False
    then have trim: "js_trim v = rev (dropWhile js_ws (rev v))"
      using Cons by (simp add: js_trim_def js_trimStart_def)
    obtain ys y where y: "v = ys @ [y]" using Cons by (metis list.distinct(1) rev_exhaust)
    have "length (js_trim v) < length v" if "js_ws y"
      using that trim length_dropWhile_le [of js_ws "rev ys"] by (simp add: y)
    then have "js_ws y \<Longrightarrow> js_trim v \<noteq> v" by fastforce
    moreover have "\<not> js_ws y \<Longrightarrow> js_trim v = v" using trim by (simp add: y)
    moreover have "hd v = x" "v \<noteq> []" using Cons by simp_all
    moreover have "last v = y" using y by simp
    ultimately show ?thesis using False by auto
  qed
qed

lemma hd_map_lower: "v \<noteq> [] \<Longrightarrow> js_ws (hd (js_toLowerCase v)) = js_ws (hd v)"
  by (simp add: js_toLowerCase_def hd_map)

lemma last_map_lower: "v \<noteq> [] \<Longrightarrow> js_ws (last (js_toLowerCase v)) = js_ws (last v)"
  by (simp add: js_toLowerCase_def last_map)

lemma lower_domain_trimmed:
  assumes "js_trim v = v" "lower_domain (v, cs) = (w, ds)"
  shows "js_trim w = w"
proof (cases rule: split_last_at [of v])
  case no_at
  then show ?thesis using assms by (simp add: lower_domain_none)
next
  case (at loc dm)
  then have w: "w = loc @ CHR ''@'' # js_toLowerCase dm" using assms(2) by (simp add: lower_domain_split)
  have "\<not> js_ws CHR ''@''" by code_simp
  then show ?thesis using assms(1) at last_map_lower [of dm] unfolding js_trim_fixed_iff w
    by (cases loc; cases "dm = []") (auto simp: js_toLowerCase_def)
qed

text \<open>Normalisation keeps the local part and only lower-cases the domain: a result is a
  trimmed string whose text before the last at sign is a literal piece of the input and whose
  domain is the lower-cased piece that follows it.\<close>

theorem normalizeEmail_shape:
  assumes "normalized (normalizeEmail input) = Some v"
  shows "js_trim v = v \<and> v \<noteq> [] \<and>
    (sublist v input \<and> CHR ''@'' \<notin> set v \<or>
     (\<exists>loc dm. sublist (loc @ CHR ''@'' # dm) input \<and> CHR ''@'' \<notin> set dm
        \<and> v = loc @ CHR ''@'' # js_toLowerCase dm))"
proof -
  let ?cs = "snd (strip_wrapper WRAPPERS (trim_step (input, [])))"
  have ne: "email_core input \<noteq> []" and low: "lower_domain (email_core input, ?cs) = (v, changes (normalizeEmail input))"
    using assms by (auto simp: normalizeEmail_core split: if_splits prod.splits)
  have "js_trim v = v" using lower_domain_trimmed [OF email_core_trimmed low] .
  moreover have "v \<noteq> [] \<and> (sublist v input \<and> CHR ''@'' \<notin> set v \<or>
     (\<exists>loc dm. sublist (loc @ CHR ''@'' # dm) input \<and> CHR ''@'' \<notin> set dm
        \<and> v = loc @ CHR ''@'' # js_toLowerCase dm))"
  proof (cases rule: split_last_at [of "email_core input"])
    case no_at
    then show ?thesis using low ne email_core_sublist [of input] by (auto simp: lower_domain_none)
  next
    case (at loc dm)
    then have "v = loc @ CHR ''@'' # js_toLowerCase dm" "sublist (loc @ CHR ''@'' # dm) input"
      using low email_core_sublist [of input] by (auto simp: lower_domain_split)
    then show ?thesis using at(2) by blast
  qed
  ultimately show ?thesis by blast
qed

lemma normalizeEmail_example:
  "normalizeEmail '' <User.Name@EXAMPLE.Com> '' =
     \<lparr>normalized = Some ''User.Name@example.com'',
      changes = [TRIMMED_WHITESPACE, STRIPPED_ANGLE_BRACKETS, LOWERCASED_DOMAIN]\<rparr>"
  by code_simp

theorem normalizeEmail_shape_witness:
  "js_trim ''User.Name@example.com'' = ''User.Name@example.com''"
  using normalizeEmail_shape [of "'' <User.Name@EXAMPLE.Com> ''" "''User.Name@example.com''"]
  by (simp add: normalizeEmail_example)

text \<open>The change report is accurate: it lists no transformation twice, and it is empty
  exactly when the address comes back unchanged.\<close>

theorem normalizeEmail_changes:
  "distinct (changes (normalizeEmail input)) \<and>
   (case normalized (normalizeEmail input) of
      None \<Rightarrow> email_core input = []
    | Some v \<Rightarrow> changes (normalizeEmail input) = [] \<longleftrightarrow> v = input)"
proof -
  let ?cs = "snd (strip_wrapper WRAPPERS (trim_step (input, [])))"
  note core = email_core_changes [of input] email_core_distinct [of input]
  show ?thesis
  proof (cases "email_core input = []")
    case True
    then show ?thesis using core by (simp add: normalizeEmail_core)
  next
    case False
    show ?thesis
    proof (cases rule: split_last_at [of "email_core input"])
      case no_at
      then show ?thesis using False core by (simp add: normalizeEmail_core lower_domain_none)
    next
      case (at loc dm)
      have "email_core input = input" if "loc @ CHR ''@'' # js_toLowerCase dm = input"
      proof (rule sublist_full)
        show "length (email_core input) = length input"
          using arg_cong [OF at(1), of length] arg_cong [OF that, of length] by simp
      qed (rule email_core_sublist)
      then have "loc @ CHR ''@'' # js_toLowerCase dm = input \<longleftrightarrow> email_core input = input \<and> js_toLowerCase dm = dm"
        using at(1) by (metis list.sel(3) same_append_eq)
      then show ?thesis using False core at
        by (auto simp: normalizeEmail_core lower_domain_split)
    qed
  qed
qed

end
