(* ===== verification/Db_Schema.thy ===== *)
theory Db_Schema
  imports Complex_Main Core_Verdict "HOL-Library.Char_ord" "HOL-Library.List_Lexorder"
    "HOL-Library.Product_Lexorder"
begin

text \<open>
  \<^verbatim>\<open>packages/db/src/schema/*.ts\<close> and the ledger trigger of
  \<^verbatim>\<open>packages/db/drizzle/*.sql\<close>: one record per table row, the database as a
  record of tables (rows in insertion order), and the inserts with the constraints PostgreSQL
  enforces. An operation is one transaction: \<open>Inl\<close> is a raised error, after which the
  caller still has the old database; \<open>Inr\<close> carries the result and the new database.

  Generated ids and the database clock are arguments of the operations that use them.
\<close>

section \<open>Column types\<close>

datatype json = JNull | JBool bool | JNum rat | JStr string | JArr "json list" | JObj "(string \<times> json) list"

datatype user_role = Admin | Member
datatype credit_reason = Grant | Single_check | Batch_check | Refund | Adjustment
datatype batch_status = Pending | Validating | Processing | Done | Failed
datatype delivery_status = Delivery_pending | Delivery_delivered | Delivery_failed

datatype db_error =
    UniqueViolation string
  | ForeignKeyViolation string
  | AppendOnlyViolation
  | IntegerOutOfRange
  | Thrown string

text \<open>PostgreSQL \<open>integer\<close>: 32-bit signed; storing or casting anything else raises.\<close>

definition int4 :: "int \<Rightarrow> bool" where
  "int4 n = (- (2 ^ 31) \<le> n \<and> n < 2 ^ 31)"

definition to_int4 :: "int \<Rightarrow> db_error + int" where
  "to_int4 n = (if int4 n then Inr n else Inl IntegerOutOfRange)"

definition DAY_MS :: int where "DAY_MS = 24 * 60 * 60 * 1000"

section \<open>Rows\<close>

record organization =
  o_id :: uuid
  o_name :: string
  o_createdAt :: time_us
  o_deletedAt :: "time_us option"
  o_purgedAt :: "time_us option"
  o_retentionDays :: int
  o_smtpEnabled :: bool

record user =
  u_id :: uuid
  u_orgId :: uuid
  u_email :: string
  u_passwordHash :: string
  u_role :: user_role
  u_mfaSecret :: "string option"
  u_mfaRecoveryCodes :: "string list"
  u_createdAt :: time_us
  u_deletedAt :: "time_us option"

record api_key =
  k_id :: uuid
  k_orgId :: uuid
  k_name :: string
  k_keyHash :: string
  k_keyPrefix :: string
  k_createdAt :: time_us
  k_revokedAt :: "time_us option"
  k_lastUsedAt :: "time_us option"
  k_expiresAt :: "time_us option"

record ledger_entry =
  l_id :: uuid
  l_orgId :: uuid
  l_delta :: int
  l_reason :: credit_reason
  l_referenceId :: "string option"
  l_note :: "string option"
  l_createdAt :: time_us

record email_check =
  ec_id :: uuid
  ec_orgId :: uuid
  ec_emailNormalized :: string
  ec_emailHash :: string
  ec_verdict :: verdict
  ec_reasonCodes :: "reason_code list"
  ec_checksJson :: json
  ec_cached :: bool
  ec_creditsUsed :: int
  ec_createdAt :: time_us
  ec_expiresAt :: time_us

record phone_check =
  pc_id :: uuid
  pc_orgId :: uuid
  pc_e164 :: "string option"
  pc_inputHash :: string
  pc_valid :: bool
  pc_country :: "string option"
  pc_lineTypeGuess :: "string option"
  pc_reasonCodes :: "reason_code list"
  pc_creditsUsed :: int
  pc_createdAt :: time_us
  pc_expiresAt :: time_us

record batch =
  b_id :: uuid
  b_orgId :: uuid
  b_filename :: string
  b_status :: batch_status
  b_totalRows :: int
  b_processedRows :: int
  b_error :: "string option"
  b_stats :: json
  b_inputObjectKey :: string
  b_resultObjectKey :: "string option"
  b_createdAt :: time_us
  b_completedAt :: "time_us option"
  b_expiresAt :: time_us

record webhook_endpoint =
  we_id :: uuid
  we_orgId :: uuid
  we_url :: string
  we_secret :: string
  we_events :: "string list"
  we_active :: bool
  we_createdAt :: time_us
  we_deletedAt :: "time_us option"

record attempt_record =
  ar_attempt :: int
  ar_at :: time_ms
  ar_status_code :: "int option"
  ar_error :: "string option"

record webhook_delivery =
  wd_id :: uuid
  wd_endpointId :: uuid
  wd_eventType :: string
  wd_payload :: json
  wd_status :: delivery_status
  wd_attempts :: int
  wd_attemptLog :: "attempt_record list"
  wd_lastError :: "string option"
  wd_nextRetryAt :: "time_us option"
  wd_createdAt :: time_us
  wd_expiresAt :: time_us

record audit_event =
  ae_id :: uuid
  ae_orgId :: "uuid option"
  ae_actorUserId :: "uuid option"
  ae_actorApiKeyId :: "uuid option"
  ae_action :: string
  ae_targetType :: string
  ae_targetId :: string
  ae_metadata :: json
  ae_createdAt :: time_us
  ae_expiresAt :: time_us

record lead =
  le_id :: uuid
  le_email :: string
  le_company :: "string option"
  le_phone :: "string option"
  le_message :: "string option"
  le_source :: string
  le_locale :: string
  le_createdAt :: time_us
  le_expiresAt :: time_us
  le_deletedAt :: "time_us option"

record invoice_request =
  ir_id :: uuid
  ir_orgId :: uuid
  ir_requestedByUserId :: "uuid option"
  ir_planCode :: string
  ir_createdAt :: time_us

record database =
  organizations :: "organization list"
  users :: "user list"
  apiKeys :: "api_key list"
  creditLedger :: "ledger_entry list"
  emailChecks :: "email_check list"
  phoneChecks :: "phone_check list"
  batches :: "batch list"
  webhookEndpoints :: "webhook_endpoint list"
  webhookDeliveries :: "webhook_delivery list"
  auditEvents :: "audit_event list"
  leads :: "lead list"
  invoiceRequests :: "invoice_request list"

definition empty_db :: database where
  "empty_db = \<lparr>organizations = [], users = [], apiKeys = [], creditLedger = [], emailChecks = [],
     phoneChecks = [], batches = [], webhookEndpoints = [], webhookDeliveries = [], auditEvents = [],
     leads = [], invoiceRequests = []\<rparr>"

section \<open>Queries\<close>

text \<open>\<open>ORDER BY (k1, k2) DESC\<close> and \<open>ASC\<close>.\<close>

definition order_asc :: "('r \<Rightarrow> 'k::linorder) \<Rightarrow> 'r list \<Rightarrow> 'r list" where
  "order_asc key rows = sort_key key rows"

definition order_desc :: "('r \<Rightarrow> 'k::linorder) \<Rightarrow> 'r list \<Rightarrow> 'r list" where
  "order_desc key rows = rev (sort_key key rows)"

definition org_exists :: "database \<Rightarrow> uuid \<Rightarrow> bool" where
  "org_exists db orgId = (orgId \<in> o_id ` set (organizations db))"

definition find_org :: "database \<Rightarrow> uuid \<Rightarrow> organization option" where
  "find_org db orgId = find (\<lambda>o'. o_id o' = orgId) (organizations db)"

text \<open>The active (not soft-deleted) organisation, as every \<open>isNull(deletedAt)\<close> query reads it.\<close>

definition active_org :: "database \<Rightarrow> uuid \<Rightarrow> organization option" where
  "active_org db orgId = find (\<lambda>o'. o_id o' = orgId \<and> o_deletedAt o' = None) (organizations db)"

definition org_ledger :: "database \<Rightarrow> uuid \<Rightarrow> ledger_entry list" where
  "org_ledger db orgId = filter (\<lambda>e. l_orgId e = orgId) (creditLedger db)"

text \<open>\<open>SUM(delta)\<close> over an organisation's entries, before any cast.\<close>

definition ledger_sum :: "database \<Rightarrow> uuid \<Rightarrow> int" where
  "ledger_sum db orgId = sum_list (map l_delta (org_ledger db orgId))"

section \<open>Inserts\<close>

definition reference_taken :: "database \<Rightarrow> uuid \<Rightarrow> string option \<Rightarrow> bool" where
  "reference_taken db orgId ref =
     (ref \<noteq> None \<and> (\<exists>e \<in> set (creditLedger db). l_orgId e = orgId \<and> l_referenceId e = ref))"

text \<open>\<open>INSERT INTO credit_ledger\<close>: the column range, the primary key, the partial unique
  index on \<open>(org_id, reference_id)\<close>, then the foreign key.\<close>

definition insert_ledger :: "database \<Rightarrow> ledger_entry \<Rightarrow> db_error + database" where
  "insert_ledger db e =
     (if \<not> int4 (l_delta e) then Inl IntegerOutOfRange
      else if l_id e \<in> l_id ` set (creditLedger db) then Inl (UniqueViolation ''credit_ledger_pkey'')
      else if reference_taken db (l_orgId e) (l_referenceId e)
      then Inl (UniqueViolation ''credit_ledger_org_id_reference_id_uniq'')
      else if \<not> org_exists db (l_orgId e) then Inl (ForeignKeyViolation ''credit_ledger_org_id_organizations_id_fk'')
      else Inr (db\<lparr>creditLedger := creditLedger db @ [e]\<rparr>))"

text \<open>\<open>... ON CONFLICT DO NOTHING\<close>: a unique conflict skips the row; the flag says whether
  a row was inserted.\<close>

definition insert_ledger_skip :: "database \<Rightarrow> ledger_entry \<Rightarrow> db_error + bool \<times> database" where
  "insert_ledger_skip db e =
     (case insert_ledger db e of
        Inr db' \<Rightarrow> Inr (True, db')
      | Inl (UniqueViolation c) \<Rightarrow> Inr (False, db)
      | Inl err \<Rightarrow> Inl err)"

definition insert_email_check :: "database \<Rightarrow> email_check \<Rightarrow> db_error + database" where
  "insert_email_check db r =
     (if ec_id r \<in> ec_id ` set (emailChecks db) then Inl (UniqueViolation ''email_checks_pkey'')
      else if \<not> org_exists db (ec_orgId r) then Inl (ForeignKeyViolation ''email_checks_org_id_organizations_id_fk'')
      else Inr (db\<lparr>emailChecks := emailChecks db @ [r]\<rparr>))"

definition insert_phone_check :: "database \<Rightarrow> phone_check \<Rightarrow> db_error + database" where
  "insert_phone_check db r =
     (if pc_id r \<in> pc_id ` set (phoneChecks db) then Inl (UniqueViolation ''phone_checks_pkey'')
      else if \<not> org_exists db (pc_orgId r) then Inl (ForeignKeyViolation ''phone_checks_org_id_organizations_id_fk'')
      else Inr (db\<lparr>phoneChecks := phoneChecks db @ [r]\<rparr>))"

definition insert_batch :: "database \<Rightarrow> batch \<Rightarrow> db_error + database" where
  "insert_batch db r =
     (if \<not> int4 (b_totalRows r) then Inl IntegerOutOfRange
      else if b_id r \<in> b_id ` set (batches db) then Inl (UniqueViolation ''batches_pkey'')
      else if \<not> org_exists db (b_orgId r) then Inl (ForeignKeyViolation ''batches_org_id_organizations_id_fk'')
      else Inr (db\<lparr>batches := batches db @ [r]\<rparr>))"

section \<open>The ledger as its clients see it\<close>

text \<open>The contract every credit operation relies on: a successful append adds exactly its
  entry, and never a second one under the same reference.\<close>

locale ledger_store =
  fixes append :: "'s \<Rightarrow> ledger_entry \<Rightarrow> 'e + 's"
    and entries :: "'s \<Rightarrow> ledger_entry list"
  assumes append_entries: "append s e = Inr s' \<Longrightarrow> entries s' = entries s @ [e]"
    and append_fresh: "append s e = Inr s' \<Longrightarrow> l_referenceId e = Some r \<Longrightarrow> f \<in> set (entries s) \<Longrightarrow>
      l_orgId f = l_orgId e \<Longrightarrow> l_referenceId f \<noteq> Some r"
begin

definition refs_unique :: "'s \<Rightarrow> bool" where
  "refs_unique s = (\<forall>o' r. length (filter (\<lambda>e. l_orgId e = o' \<and> l_referenceId e = Some r) (entries s)) \<le> 1)"

definition total :: "'s \<Rightarrow> (ledger_entry \<Rightarrow> bool) \<Rightarrow> int" where
  "total s P = sum_list (map l_delta (filter P (entries s)))"

lemma append_total: "append s e = Inr s' \<Longrightarrow> total s' P = total s P + (if P e then l_delta e else 0)"
  by (simp add: total_def append_entries)

lemma append_refs_unique:
  assumes "append s e = Inr s'" "refs_unique s"
  shows "refs_unique s'"
  unfolding refs_unique_def
proof (intro allI)
  fix o' r
  have old: "length (filter (\<lambda>e. l_orgId e = o' \<and> l_referenceId e = Some r) (entries s)) \<le> 1"
    using assms(2) by (simp add: refs_unique_def)
  show "length (filter (\<lambda>e. l_orgId e = o' \<and> l_referenceId e = Some r) (entries s')) \<le> 1"
  proof (cases "l_orgId e = o' \<and> l_referenceId e = Some r")
    case True
    then have "filter (\<lambda>e. l_orgId e = o' \<and> l_referenceId e = Some r) (entries s) = []"
      using append_fresh [OF assms(1)] by (auto simp: filter_empty_conv)
    then show ?thesis using True append_entries [OF assms(1)] by simp
  next
    case False
    then show ?thesis using old append_entries [OF assms(1)] by auto
  qed
qed

end

lemma insert_ledger_Inr:
  assumes "insert_ledger db e = Inr db'"
  shows "db' = db\<lparr>creditLedger := creditLedger db @ [e]\<rparr>" "int4 (l_delta e)"
    "\<not> reference_taken db (l_orgId e) (l_referenceId e)" "org_exists db (l_orgId e)"
    "l_id e \<notin> l_id ` set (creditLedger db)"
  using assms by (auto simp: insert_ledger_def split: if_splits)

interpretation pg: ledger_store insert_ledger creditLedger
proof unfold_locales
  fix s s' e
  assume "insert_ledger s e = Inr s'"
  then show "creditLedger s' = creditLedger s @ [e]" by (auto dest: insert_ledger_Inr(1))
next
  fix s s' e r f
  assume "insert_ledger s e = Inr s'" "l_referenceId e = Some r" "f \<in> set (creditLedger s)"
    "l_orgId f = l_orgId e"
  then show "l_referenceId f \<noteq> Some r"
    using insert_ledger_Inr(3) [of s e s'] by (auto simp: reference_taken_def)
qed

lemma ledger_sum_total: "ledger_sum db o' = pg.total db (\<lambda>e. l_orgId e = o')"
  by (simp add: ledger_sum_def org_ledger_def pg.total_def)

lemma insert_ledger_sum:
  "insert_ledger db e = Inr db' \<Longrightarrow> ledger_sum db' o' = ledger_sum db o' + (if l_orgId e = o' then l_delta e else 0)"
  by (simp add: ledger_sum_total pg.append_total)

lemma insert_ledger_skip_cases:
  assumes "insert_ledger_skip db e = Inr (b, db')"
  obtains (inserted) "b" "insert_ledger db e = Inr db'"
  | (skipped) "\<not> b" "db' = db" "\<exists>c. insert_ledger db e = Inl (UniqueViolation c)"
  using assms by (auto simp: insert_ledger_skip_def split: sum.splits db_error.splits)

lemma active_org_Some:
  "active_org db o' = Some org \<Longrightarrow> org \<in> set (organizations db) \<and> o_id org = o' \<and> o_deletedAt org = None"
  by (auto simp: active_org_def find_Some_iff)

lemma active_org_exists: "active_org db o' = Some org \<Longrightarrow> org_exists db o'"
  by (auto dest: active_org_Some simp: org_exists_def)

section \<open>A small database, for concrete runs\<close>

definition demo_org :: organization where
  "demo_org = \<lparr>o_id = ''org-1'', o_name = ''Demo'', o_createdAt = 0, o_deletedAt = None, o_purgedAt = None,
     o_retentionDays = 30, o_smtpEnabled = True\<rparr>"

definition demo_grant :: "int \<Rightarrow> ledger_entry" where
  "demo_grant n = \<lparr>l_id = ''l-0'', l_orgId = ''org-1'', l_delta = n, l_reason = Grant,
     l_referenceId = Some ''g-0'', l_note = None, l_createdAt = 0\<rparr>"

definition demo_db :: "int \<Rightarrow> database" where
  "demo_db n = empty_db\<lparr>organizations := [demo_org], creditLedger := [demo_grant n]\<rparr>"

end
