(* ===== verification/Db_Checks.thy ===== *)
theory Db_Checks
  imports Db_Schema
begin

text \<open>
  \<^verbatim>\<open>packages/db/src/credits.ts\<close> and the check-and-debit half of
  \<^verbatim>\<open>packages/db/src/checks.ts\<close>: the derived balance, the seven-day result cache and
  the locked transactions that charge one credit per check. The organisation row lock
  (\<open>FOR UPDATE\<close>) serialises these transactions per organisation, so each is one step.
\<close>

text \<open>What a transaction reads from outside the tables: the database clock \<open>now()\<close>
  (constant within a transaction), the application's \<open>randomUUID()\<close> and the ledger row's
  \<open>gen_random_uuid()\<close>.\<close>

record tx_env =
  tx_now :: time_us
  tx_uuid :: uuid
  tx_ledger_id :: uuid

section \<open>Balance\<close>

definition getCreditBalance :: "database \<Rightarrow> uuid \<Rightarrow> db_error + int" where
  "getCreditBalance db orgId = to_int4 (ledger_sum db orgId)"

definition lockedBalance :: "database \<Rightarrow> uuid \<Rightarrow> db_error + int" where
  "lockedBalance db orgId = to_int4 (ledger_sum db orgId)"

section \<open>Cache\<close>

definition EMAIL_CACHE_WINDOW_MS :: int where "EMAIL_CACHE_WINDOW_MS = 7 * 24 * 60 * 60 * 1000"

definition findRecentEmailCheck :: "database \<Rightarrow> uuid \<Rightarrow> string \<Rightarrow> time_ms \<Rightarrow> email_check option" where
  "findRecentEmailCheck db orgId emailHash now =
     (let cutoff = now - EMAIL_CACHE_WINDOW_MS
      in first_row (order_desc (\<lambda>r. (ec_createdAt r, ec_id r))
           (filter (\<lambda>r. ec_orgId r = orgId \<and> ec_emailHash r = emailHash
              \<and> us_of cutoff < ec_createdAt r \<and> us_of now < ec_expiresAt r) (emailChecks db))))"

definition getEmailCheckForOrg :: "database \<Rightarrow> uuid \<Rightarrow> uuid \<Rightarrow> time_ms \<Rightarrow> email_check option" where
  "getEmailCheckForOrg db checkId orgId now =
     first_row (filter (\<lambda>r. ec_id r = checkId \<and> ec_orgId r = orgId
        \<and> active_org db (ec_orgId r) \<noteq> None \<and> us_of now < ec_expiresAt r) (emailChecks db))"

section \<open>Debits\<close>

record locked_org =
  lo_id :: uuid
  lo_retentionDays :: int
  lo_smtpEnabled :: bool

definition lockOrganization :: "database \<Rightarrow> uuid \<Rightarrow> locked_org option" where
  "lockOrganization db orgId =
     map_option (\<lambda>o'. \<lparr>lo_id = o_id o', lo_retentionDays = o_retentionDays o', lo_smtpEnabled = o_smtpEnabled o'\<rparr>)
       (active_org db orgId)"

record new_email_check_input =
  ni_orgId :: uuid
  ni_emailNormalized :: string
  ni_emailHash :: string
  ni_verdict :: verdict
  ni_reasonCodes :: "reason_code list"
  ni_checksJson :: json

datatype email_check_debit_result =
    EmailCreated email_check int locked_org
  | EmailCacheHit email_check int
  | EmailInsufficient int
  | EmailOrgUnavailable

definition single_check_entry :: "tx_env \<Rightarrow> uuid \<Rightarrow> ledger_entry" where
  "single_check_entry env orgId =
     \<lparr>l_id = tx_ledger_id env, l_orgId = orgId, l_delta = -1, l_reason = Single_check,
      l_referenceId = Some (tx_uuid env), l_note = None, l_createdAt = tx_now env\<rparr>"

definition new_email_check_row :: "tx_env \<Rightarrow> new_email_check_input \<Rightarrow> time_ms \<Rightarrow> int \<Rightarrow> email_check" where
  "new_email_check_row env input now retentionDays =
     \<lparr>ec_id = tx_uuid env, ec_orgId = ni_orgId input, ec_emailNormalized = ni_emailNormalized input,
      ec_emailHash = ni_emailHash input, ec_verdict = ni_verdict input,
      ec_reasonCodes = ni_reasonCodes input, ec_checksJson = ni_checksJson input,
      ec_cached = False, ec_creditsUsed = 1, ec_createdAt = tx_now env,
      ec_expiresAt = us_of (now + retentionDays * 24 * 60 * 60 * 1000)\<rparr>"

definition createEmailCheckWithDebit ::
  "tx_env \<Rightarrow> database \<Rightarrow> new_email_check_input \<Rightarrow> time_ms \<Rightarrow> db_error + email_check_debit_result \<times> database" where
  "createEmailCheckWithDebit env db input now =
     (case lockOrganization db (ni_orgId input) of
        None \<Rightarrow> Inr (EmailOrgUnavailable, db)
      | Some org \<Rightarrow>
        (case findRecentEmailCheck db (ni_orgId input) (ni_emailHash input) now of
           Some existing \<Rightarrow>
             and_then (lockedBalance db (lo_id org)) (\<lambda>balance. Inr (EmailCacheHit existing balance, db))
         | None \<Rightarrow>
             and_then (lockedBalance db (lo_id org)) (\<lambda>balance.
               if balance < 1 then Inr (EmailInsufficient balance, db)
               else
                 (let check = new_email_check_row env input now (lo_retentionDays org)
                  in and_then (insert_email_check db check) (\<lambda>db1.
                     and_then (insert_ledger db1 (single_check_entry env (ni_orgId input))) (\<lambda>db2.
                       Inr (EmailCreated check (balance - 1) org, db2)))))))"

record new_phone_check_input =
  np_orgId :: uuid
  np_e164 :: "string option"
  np_inputHash :: string
  np_valid :: bool
  np_country :: "string option"
  np_lineTypeGuess :: "string option"
  np_reasonCodes :: "reason_code list"

datatype phone_check_debit_result =
    PhoneCreated phone_check int
  | PhoneInsufficient int
  | PhoneOrgUnavailable

definition createPhoneCheckWithDebit ::
  "tx_env \<Rightarrow> database \<Rightarrow> new_phone_check_input \<Rightarrow> time_ms \<Rightarrow> db_error + phone_check_debit_result \<times> database" where
  "createPhoneCheckWithDebit env db input now =
     (case lockOrganization db (np_orgId input) of
        None \<Rightarrow> Inr (PhoneOrgUnavailable, db)
      | Some org \<Rightarrow>
          and_then (lockedBalance db (lo_id org)) (\<lambda>balance.
            if balance < 1 then Inr (PhoneInsufficient balance, db)
            else
              (let check = \<lparr>pc_id = tx_uuid env, pc_orgId = np_orgId input, pc_e164 = np_e164 input,
                   pc_inputHash = np_inputHash input, pc_valid = np_valid input,
                   pc_country = np_country input, pc_lineTypeGuess = np_lineTypeGuess input,
                   pc_reasonCodes = np_reasonCodes input, pc_creditsUsed = 1,
                   pc_createdAt = tx_now env,
                   pc_expiresAt = us_of (now + lo_retentionDays org * 24 * 60 * 60 * 1000)\<rparr>
               in and_then (insert_phone_check db check) (\<lambda>db1.
                  and_then (insert_ledger db1 (single_check_entry env (np_orgId input))) (\<lambda>db2.
                    Inr (PhoneCreated check (balance - 1), db2))))))"

definition updateEmailCheckSnapshot :: "database \<Rightarrow> uuid \<Rightarrow> json \<Rightarrow> database" where
  "updateEmailCheckSnapshot db checkId checksJson =
     db\<lparr>emailChecks := map (\<lambda>r. if ec_id r = checkId then r\<lparr>ec_checksJson := checksJson\<rparr> else r) (emailChecks db)\<rparr>"

section \<open>Lemmas\<close>

lemma lockedBalance_Inr: "lockedBalance db o' = Inr b \<Longrightarrow> b = ledger_sum db o' \<and> int4 b"
  by (auto simp: lockedBalance_def to_int4_def split: if_splits)

lemma lockOrganization_Some:
  assumes "lockOrganization db o' = Some org"
  shows "lo_id org = o'" "org_exists db o'" "\<exists>x. active_org db o' = Some x"
  using assms active_org_Some [of db o'] active_org_exists [of db o']
  by (auto simp: lockOrganization_def)

lemma insert_email_check_Inr:
  "insert_email_check db r = Inr db' \<Longrightarrow>
     db' = db\<lparr>emailChecks := emailChecks db @ [r]\<rparr> \<and> ec_id r \<notin> ec_id ` set (emailChecks db)"
  by (auto simp: insert_email_check_def split: if_splits)

lemma insert_phone_check_Inr:
  "insert_phone_check db r = Inr db' \<Longrightarrow>
     db' = db\<lparr>phoneChecks := phoneChecks db @ [r]\<rparr> \<and> pc_id r \<notin> pc_id ` set (phoneChecks db)"
  by (auto simp: insert_phone_check_def split: if_splits)

lemma ledger_sum_tables [simp]:
  "ledger_sum (emailChecks_update f db) o' = ledger_sum db o'"
  "ledger_sum (phoneChecks_update g db) o' = ledger_sum db o'"
  "ledger_sum (batches_update h db) o' = ledger_sum db o'"
  by (simp_all add: ledger_sum_def org_ledger_def)

lemma createEmailCheck_created:
  assumes "createEmailCheckWithDebit env db input now = Inr (EmailCreated check bal org, db')"
  shows "lockOrganization db (ni_orgId input) = Some org"
    and "findRecentEmailCheck db (ni_orgId input) (ni_emailHash input) now = None"
    and "1 \<le> ledger_sum db (ni_orgId input)"
    and "bal = ledger_sum db (ni_orgId input) - 1"
    and "check = new_email_check_row env input now (lo_retentionDays org)"
    and "insert_ledger (db\<lparr>emailChecks := emailChecks db @ [check]\<rparr>) (single_check_entry env (ni_orgId input)) = Inr db'"
  using assms
  by (auto simp: createEmailCheckWithDebit_def and_then_Inr Let_def split: option.splits if_splits
      dest!: insert_email_check_Inr lockedBalance_Inr dest: lockOrganization_Some(1))

lemma createPhoneCheck_created:
  assumes "createPhoneCheckWithDebit env db input now = Inr (PhoneCreated check bal, db')"
  shows "1 \<le> ledger_sum db (np_orgId input)" and "bal = ledger_sum db (np_orgId input) - 1"
    and "insert_ledger (db\<lparr>phoneChecks := phoneChecks db @ [check]\<rparr>) (single_check_entry env (np_orgId input)) = Inr db'"
    and "pc_id check = tx_uuid env" and "pc_orgId check = np_orgId input"
  using assms
  by (auto simp: createPhoneCheckWithDebit_def and_then_Inr Let_def split: option.splits if_splits
      dest!: insert_phone_check_Inr lockedBalance_Inr dest: lockOrganization_Some(1))

lemma findRecentEmailCheck_later_None:
  assumes "findRecentEmailCheck db o' h now = None" "now \<le> now'"
  shows "filter (\<lambda>r. ec_orgId r = o' \<and> ec_emailHash r = h \<and> us_of (now' - EMAIL_CACHE_WINDOW_MS) < ec_createdAt r
    \<and> us_of now' < ec_expiresAt r) (emailChecks db) = []"
proof -
  have mono: "us_of (now - EMAIL_CACHE_WINDOW_MS) \<le> us_of (now' - EMAIL_CACHE_WINDOW_MS)" "us_of now \<le> us_of now'"
    using assms(2) by simp_all
  have none: "\<not> (ec_orgId r = o' \<and> ec_emailHash r = h \<and> us_of (now - EMAIL_CACHE_WINDOW_MS) < ec_createdAt r
      \<and> us_of now < ec_expiresAt r)" if "r \<in> set (emailChecks db)" for r
    using assms(1) that
    by (auto simp: findRecentEmailCheck_def Let_def order_desc_def filter_empty_conv simp flip: set_empty)
  show ?thesis
    unfolding filter_empty_conv using none mono by (meson le_less_trans)
qed

section \<open>Properties\<close>

text \<open>C32: the four outcomes of the email debit. A created check adds exactly its own row and one
  \<open>-1\<close> ledger entry that references it, and reports the new, non-negative balance; a cache hit,
  an insufficient balance and an unavailable organisation leave the database as it was.\<close>

theorem createEmailCheck_outcomes:
  assumes "createEmailCheckWithDebit env db input now = Inr (res, db')"
  shows "case res of
      EmailCreated check bal org \<Rightarrow>
        emailChecks db' = emailChecks db @ [check]
        \<and> creditLedger db' = creditLedger db @ [single_check_entry env (ni_orgId input)]
        \<and> l_referenceId (single_check_entry env (ni_orgId input)) = Some (ec_id check)
        \<and> ec_orgId check = ni_orgId input
        \<and> bal = ledger_sum db' (ni_orgId input) \<and> 0 \<le> bal
    | EmailCacheHit check bal \<Rightarrow>
        db' = db \<and> check \<in> set (emailChecks db) \<and> ec_orgId check = ni_orgId input
        \<and> ec_emailHash check = ni_emailHash input \<and> bal = ledger_sum db (ni_orgId input)
    | EmailInsufficient bal \<Rightarrow> db' = db \<and> bal = ledger_sum db (ni_orgId input) \<and> bal < 1
    | EmailOrgUnavailable \<Rightarrow> db' = db \<and> active_org db (ni_orgId input) = None"
proof (cases res)
  case (EmailCreated check bal org)
  note c = createEmailCheck_created [OF assms [unfolded EmailCreated]]
  have "creditLedger db' = creditLedger db @ [single_check_entry env (ni_orgId input)]"
    "emailChecks db' = emailChecks db @ [check]"
    using insert_ledger_Inr(1) [OF c(6)] by simp_all
  moreover have "ledger_sum db' (ni_orgId input) = ledger_sum db (ni_orgId input) - 1"
    using insert_ledger_sum [OF c(6), of "ni_orgId input"] by (simp add: single_check_entry_def)
  ultimately show ?thesis
    using c by (simp add: EmailCreated single_check_entry_def new_email_check_row_def)
next
  case (EmailCacheHit check bal)
  then have "db' = db" "findRecentEmailCheck db (ni_orgId input) (ni_emailHash input) now = Some check"
    "bal = ledger_sum db (ni_orgId input)"
    using assms by (auto simp: createEmailCheckWithDebit_def and_then_Inr Let_def
        split: option.splits if_splits dest!: lockedBalance_Inr dest: lockOrganization_Some(1))
  then show ?thesis
    by (auto simp: EmailCacheHit findRecentEmailCheck_def Let_def order_desc_def dest!: first_row_Some_mem)
next
  case (EmailInsufficient bal)
  then show ?thesis
    using assms by (auto simp: createEmailCheckWithDebit_def and_then_Inr Let_def
        split: option.splits if_splits dest!: lockedBalance_Inr dest: lockOrganization_Some(1))
next
  case EmailOrgUnavailable
  then show ?thesis
    using assms by (auto simp: createEmailCheckWithDebit_def and_then_Inr Let_def lockOrganization_def
        split: option.splits if_splits)
qed

text \<open>A repeated request is free. After a check was created, any later request of the same
  organisation for the same address hash, within the seven-day window and the row's retention,
  returns that very check with the unchanged balance and writes nothing.\<close>

theorem createEmailCheck_repeat_is_free:
  assumes "createEmailCheckWithDebit env db input now = Inr (EmailCreated check bal org, db')"
    and "ni_orgId input' = ni_orgId input" "ni_emailHash input' = ni_emailHash input"
    and "now \<le> now'" "us_of (now' - EMAIL_CACHE_WINDOW_MS) < tx_now env"
    and "us_of now' < ec_expiresAt check"
  shows "createEmailCheckWithDebit env' db' input' now' = Inr (EmailCacheHit check bal, db')"
proof -
  note c = createEmailCheck_created [OF assms(1)]
  have db': "db' = db\<lparr>emailChecks := emailChecks db @ [check],
      creditLedger := creditLedger db @ [single_check_entry env (ni_orgId input)]\<rparr>"
    using insert_ledger_Inr(1) [OF c(6)] by simp
  have lock: "lockOrganization db' (ni_orgId input') = Some org"
    using c(1) assms(2) by (simp add: lockOrganization_def active_org_def db')
  have "findRecentEmailCheck db' (ni_orgId input') (ni_emailHash input') now' = Some check"
    using findRecentEmailCheck_later_None [OF c(2) assms(4)] assms(2,3,5,6) c(5)
    by (simp add: findRecentEmailCheck_def Let_def db' order_desc_def first_row_def new_email_check_row_def)
  moreover have "ledger_sum db' (ni_orgId input) = bal"
    using insert_ledger_sum [OF c(6), of "ni_orgId input"] c(4) by (simp add: single_check_entry_def)
  moreover have "int4 (ledger_sum db (ni_orgId input))"
    using assms(1) c(1,2) lockOrganization_Some(1) [OF c(1)]
    by (auto simp: createEmailCheckWithDebit_def and_then_Inr dest!: lockedBalance_Inr)
  then have "int4 bal" using c(3,4) by (auto simp: int4_def)
  ultimately show ?thesis
    using lock lockOrganization_Some(1) [OF lock] assms(2)
    by (simp add: createEmailCheckWithDebit_def lockedBalance_def to_int4_def)
qed

section \<open>Witnesses\<close>

definition demo_env :: tx_env where
  "demo_env = \<lparr>tx_now = 5000, tx_uuid = ''c-1'', tx_ledger_id = ''l-1''\<rparr>"

definition demo_input :: new_email_check_input where
  "demo_input = \<lparr>ni_orgId = ''org-1'', ni_emailNormalized = ''a@b.uz'', ni_emailHash = ''h'', ni_verdict = Valid,
     ni_reasonCodes = [], ni_checksJson = JNull\<rparr>"

definition demo_check :: email_check where
  "demo_check = new_email_check_row demo_env demo_input 5 30"

definition demo_db_charged :: database where
  "demo_db_charged = (demo_db 3)\<lparr>emailChecks := [demo_check],
     creditLedger := [demo_grant 3, single_check_entry demo_env ''org-1'']\<rparr>"

lemmas demo_defs = demo_org_def demo_grant_def demo_db_def demo_env_def demo_input_def demo_check_def
  demo_db_charged_def empty_db_def

lemma demo_created:
  "createEmailCheckWithDebit demo_env (demo_db 3) demo_input 5
     = Inr (EmailCreated demo_check 2 \<lparr>lo_id = ''org-1'', lo_retentionDays = 30, lo_smtpEnabled = True\<rparr>, demo_db_charged)"
  by (simp add: createEmailCheckWithDebit_def lockOrganization_def active_org_def findRecentEmailCheck_def
      order_desc_def first_row_def lockedBalance_def to_int4_def ledger_sum_def org_ledger_def int4_def
      insert_email_check_def insert_ledger_def reference_taken_def org_exists_def single_check_entry_def
      new_email_check_row_def demo_defs Let_def)

lemma createEmailCheck_outcomes_witness:
  "emailChecks demo_db_charged = emailChecks (demo_db 3) @ [demo_check]
    \<and> 2 = ledger_sum demo_db_charged ''org-1''"
  using createEmailCheck_outcomes [OF demo_created] by (simp add: demo_input_def)

lemma createEmailCheck_repeat_is_free_witness:
  "createEmailCheckWithDebit demo_env demo_db_charged demo_input 9 = Inr (EmailCacheHit demo_check 2, demo_db_charged)"
  by (rule createEmailCheck_repeat_is_free [OF demo_created])
    (simp_all add: EMAIL_CACHE_WINDOW_MS_def us_of_def demo_defs new_email_check_row_def)

end
