(* ===== verification/Db_Batches.thy ===== *)
theory Db_Batches
  imports Db_Checks
begin

text \<open>
  \<^verbatim>\<open>packages/db/src/batches.ts\<close>: the batch life cycle. One locked transaction
  reserves the whole cost of a batch as a single negative ledger entry under the batch id; a
  terminal state gives back what was not spent as at most one entry under \<open>batchId:refund\<close>.
\<close>

section \<open>Operations\<close>

definition refundReference :: "string \<Rightarrow> string" where
  "refundReference batchId = batchId @ '':refund''"

record batch_locked_org =
  bo_id :: uuid
  bo_retentionDays :: int

definition lockBatchOrganization :: "database \<Rightarrow> uuid \<Rightarrow> batch_locked_org option" where
  "lockBatchOrganization db orgId =
     map_option (\<lambda>o'. \<lparr>bo_id = o_id o', bo_retentionDays = o_retentionDays o'\<rparr>) (active_org db orgId)"

definition batchLockedBalance :: "database \<Rightarrow> uuid \<Rightarrow> db_error + int" where
  "batchLockedBalance db orgId = to_int4 (ledger_sum db orgId)"

record create_batch_input =
  ci_batchId :: uuid
  ci_orgId :: uuid
  ci_filename :: string
  ci_totalRows :: int
  ci_inputObjectKey :: string
  ci_stats :: json

datatype create_batch_result =
    BatchCreated batch int
  | BatchInsufficient int int
  | BatchOrgUnavailable

definition new_batch_row :: "time_us \<Rightarrow> create_batch_input \<Rightarrow> time_ms \<Rightarrow> int \<Rightarrow> batch" where
  "new_batch_row dbnow input now retentionDays =
     \<lparr>b_id = ci_batchId input, b_orgId = ci_orgId input, b_filename = ci_filename input,
      b_status = Pending, b_totalRows = ci_totalRows input, b_processedRows = 0, b_error = None,
      b_stats = ci_stats input, b_inputObjectKey = ci_inputObjectKey input, b_resultObjectKey = None,
      b_createdAt = dbnow, b_completedAt = None,
      b_expiresAt = us_of (now + retentionDays * 24 * 60 * 60 * 1000)\<rparr>"

definition reservation_entry :: "tx_env \<Rightarrow> create_batch_input \<Rightarrow> ledger_entry" where
  "reservation_entry env input =
     \<lparr>l_id = tx_ledger_id env, l_orgId = ci_orgId input, l_delta = - ci_totalRows input,
      l_reason = Batch_check, l_referenceId = Some (ci_batchId input), l_note = None,
      l_createdAt = tx_now env\<rparr>"

definition createBatchWithReservation ::
  "tx_env \<Rightarrow> database \<Rightarrow> create_batch_input \<Rightarrow> time_ms \<Rightarrow> db_error + create_batch_result \<times> database" where
  "createBatchWithReservation env db input now =
     (case lockBatchOrganization db (ci_orgId input) of
        None \<Rightarrow> Inr (BatchOrgUnavailable, db)
      | Some org \<Rightarrow>
          and_then (batchLockedBalance db (ci_orgId input)) (\<lambda>balance.
            if balance < ci_totalRows input
            then Inr (BatchInsufficient balance (ci_totalRows input - balance), db)
            else
              (let batch = new_batch_row (tx_now env) input now (bo_retentionDays org)
               in and_then (insert_batch db batch) (\<lambda>db1.
                  and_then (insert_ledger db1 (reservation_entry env input)) (\<lambda>db2.
                    Inr (BatchCreated batch (balance - ci_totalRows input), db2))))))"

definition getBatchForOrg :: "database \<Rightarrow> uuid \<Rightarrow> uuid \<Rightarrow> batch option" where
  "getBatchForOrg db batchId orgId =
     first_row (filter (\<lambda>b. b_id b = batchId \<and> b_orgId b = orgId \<and> active_org db (b_orgId b) \<noteq> None) (batches db))"

definition getBatchForProcessing :: "database \<Rightarrow> uuid \<Rightarrow> (batch \<times> int) option" where
  "getBatchForProcessing db batchId =
     first_row (List.map_filter
       (\<lambda>b. if b_id b = batchId
            then map_option (\<lambda>o'. (b, o_retentionDays o')) (active_org db (b_orgId b)) else None)
       (batches db))"

text \<open>\<open>UPDATE batches SET ... WHERE id = batchId\<close>.\<close>

definition update_batch :: "database \<Rightarrow> uuid \<Rightarrow> (batch \<Rightarrow> batch) \<Rightarrow> database" where
  "update_batch db batchId f = db\<lparr>batches := map (\<lambda>b. if b_id b = batchId then f b else b) (batches db)\<rparr>"

datatype claim_batch_result =
    Claimed batch int
  | ClaimOrgUnavailable batch
  | NotClaimable

definition claimable :: "batch_status \<Rightarrow> bool" where
  "claimable st = (st \<in> {Pending, Validating})"

definition claimBatchForProcessing :: "database \<Rightarrow> uuid \<Rightarrow> claim_batch_result \<times> database" where
  "claimBatchForProcessing db batchId =
     (let hit = (\<lambda>b. b_id b = batchId \<and> claimable (b_status b));
          db' = db\<lparr>batches := map (\<lambda>b. if hit b then b\<lparr>b_status := Processing\<rparr> else b) (batches db)\<rparr>
      in case first_row (map (\<lambda>b. b\<lparr>b_status := Processing\<rparr>) (filter hit (batches db))) of
           None \<Rightarrow> (NotClaimable, db')
         | Some batch \<Rightarrow>
             (case find_org db (b_orgId batch) of
                None \<Rightarrow> (ClaimOrgUnavailable batch, db')
              | Some org \<Rightarrow>
                  if o_deletedAt org \<noteq> None then (ClaimOrgUnavailable batch, db')
                  else (Claimed batch (o_retentionDays org), db')))"

definition updateBatchProgress :: "database \<Rightarrow> uuid \<Rightarrow> int \<Rightarrow> db_error + database" where
  "updateBatchProgress db batchId processedRows =
     and_then (to_int4 processedRows) (\<lambda>n. Inr (update_batch db batchId (\<lambda>b. b\<lparr>b_processedRows := n\<rparr>)))"

record complete_batch_input =
  co_batchId :: uuid
  co_orgId :: uuid
  co_resultObjectKey :: string
  co_processedRows :: int
  co_stats :: json
  co_chargedCredits :: int
  co_reservedCredits :: int
  co_retentionDays :: int

definition refund_entry :: "tx_env \<Rightarrow> uuid \<Rightarrow> uuid \<Rightarrow> int \<Rightarrow> string \<Rightarrow> ledger_entry" where
  "refund_entry env orgId batchId amount note =
     \<lparr>l_id = tx_ledger_id env, l_orgId = orgId, l_delta = amount, l_reason = Refund,
      l_referenceId = Some (refundReference batchId), l_note = Some note, l_createdAt = tx_now env\<rparr>"

definition completeBatch :: "tx_env \<Rightarrow> database \<Rightarrow> complete_batch_input \<Rightarrow> time_ms \<Rightarrow> db_error + database" where
  "completeBatch env db input now =
     (let refund = co_reservedCredits input - co_chargedCredits input;
          db1 = update_batch db (co_batchId input) (\<lambda>b. b\<lparr>b_status := Done,
                  b_processedRows := co_processedRows input,
                  b_resultObjectKey := Some (co_resultObjectKey input), b_stats := co_stats input,
                  b_completedAt := Some (us_of now),
                  b_expiresAt := us_of (now + co_retentionDays input * 24 * 60 * 60 * 1000)\<rparr>)
      in and_then (to_int4 (co_processedRows input)) (\<lambda>_.
           if 0 < refund
           then insert_ledger db1 (refund_entry env (co_orgId input) (co_batchId input) refund
                  ''Batch reconciliation: reserved minus charged'')
           else Inr db1))"

definition failBatch :: "tx_env \<Rightarrow> database \<Rightarrow> uuid \<Rightarrow> uuid \<Rightarrow> int \<Rightarrow> string \<Rightarrow> db_error + database" where
  "failBatch env db batchId orgId reservedCredits err =
     (let db1 = update_batch db batchId (\<lambda>b. b\<lparr>b_status := Failed, b_error := Some err\<rparr>)
      in if 0 < reservedCredits
         then map_sum id snd (insert_ledger_skip db1 (refund_entry env orgId batchId reservedCredits
                ''Batch failed: full reservation refunded''))
         else Inr db1)"

datatype delete_batch_result =
    BatchDeleted string "string option" int
  | BatchProcessing
  | BatchNotFound

definition remove_batch :: "database \<Rightarrow> uuid \<Rightarrow> database" where
  "remove_batch db batchId = db\<lparr>batches := filter (\<lambda>b. b_id b \<noteq> batchId) (batches db)\<rparr>"

definition deleteBatchForOrg :: "tx_env \<Rightarrow> database \<Rightarrow> uuid \<Rightarrow> uuid \<Rightarrow> db_error + delete_batch_result \<times> database" where
  "deleteBatchForOrg env db batchId orgId =
     (case first_row (filter (\<lambda>b. b_id b = batchId \<and> b_orgId b = orgId) (batches db)) of
        None \<Rightarrow> Inr (BatchNotFound, db)
      | Some row \<Rightarrow>
          if b_status row = Processing then Inr (BatchProcessing, db)
          else if b_status row = Pending \<or> b_status row = Validating
          then and_then (insert_ledger_skip db (refund_entry env (b_orgId row) (b_id row) (b_totalRows row)
                 ''Batch deleted before processing: full reservation refunded''))
                 (\<lambda>(inserted, db1).
                   Inr (BatchDeleted (b_inputObjectKey row) (b_resultObjectKey row)
                          (if inserted then b_totalRows row else 0), remove_batch db1 (b_id row)))
          else Inr (BatchDeleted (b_inputObjectKey row) (b_resultObjectKey row) 0, remove_batch db (b_id row)))"

text \<open>The loop over rows that arrive newest first keeps the first row of every hash.\<close>

fun keep_first :: "(string \<rightharpoonup> email_check) \<Rightarrow> email_check list \<Rightarrow> (string \<rightharpoonup> email_check)" where
  "keep_first result [] = result"
| "keep_first result (row # rows) =
     keep_first (if result (ec_emailHash row) = None then result(ec_emailHash row \<mapsto> row) else result) rows"

definition findRecentEmailChecksByHashes ::
  "database \<Rightarrow> uuid \<Rightarrow> string list \<Rightarrow> time_ms \<Rightarrow> (string \<rightharpoonup> email_check)" where
  "findRecentEmailChecksByHashes db orgId hashes now =
     (if hashes = [] then Map.empty
      else let cutoff = now - 7 * 24 * 60 * 60 * 1000
           in keep_first Map.empty (order_desc (\<lambda>r. (ec_createdAt r, ec_id r))
                (filter (\<lambda>r. ec_orgId r = orgId \<and> ec_emailHash r \<in> set hashes
                   \<and> us_of cutoff < ec_createdAt r \<and> us_of now < ec_expiresAt r) (emailChecks db))))"

record batch_check_row =
  bc_orgId :: uuid
  bc_emailNormalized :: string
  bc_emailHash :: string
  bc_verdict :: verdict
  bc_reasonCodes :: "reason_code list"
  bc_checksJson :: json
  bc_expiresAt :: time_ms

definition batch_check_entry :: "time_us \<Rightarrow> uuid \<Rightarrow> batch_check_row \<Rightarrow> email_check" where
  "batch_check_entry dbnow rowId r =
     \<lparr>ec_id = rowId, ec_orgId = bc_orgId r, ec_emailNormalized = bc_emailNormalized r,
      ec_emailHash = bc_emailHash r, ec_verdict = bc_verdict r, ec_reasonCodes = bc_reasonCodes r,
      ec_checksJson = bc_checksJson r, ec_cached = False, ec_creditsUsed = 1, ec_createdAt = dbnow,
      ec_expiresAt = us_of (bc_expiresAt r)\<rparr>"

fun insert_email_checks :: "database \<Rightarrow> email_check list \<Rightarrow> db_error + database" where
  "insert_email_checks db [] = Inr db"
| "insert_email_checks db (r # rs) = and_then (insert_email_check db r) (\<lambda>db1. insert_email_checks db1 rs)"

definition insertBatchEmailChecks ::
  "time_us \<Rightarrow> uuid list \<Rightarrow> database \<Rightarrow> batch_check_row list \<Rightarrow> db_error + database" where
  "insertBatchEmailChecks dbnow uuids db rows =
     insert_email_checks db (map2 (batch_check_entry dbnow) uuids rows)"

section \<open>Lemmas\<close>

lemma insert_batch_Inr:
  "insert_batch db r = Inr db' \<Longrightarrow>
     db' = db\<lparr>batches := batches db @ [r]\<rparr> \<and> b_id r \<notin> b_id ` set (batches db) \<and> int4 (b_totalRows r)"
  by (auto simp: insert_batch_def split: if_splits)

lemma createBatch_created:
  assumes "createBatchWithReservation env db input now = Inr (BatchCreated batch bal, db')"
  shows "ci_totalRows input \<le> ledger_sum db (ci_orgId input)"
    and "bal = ledger_sum db (ci_orgId input) - ci_totalRows input"
    and "b_id batch = ci_batchId input" and "b_orgId batch = ci_orgId input"
    and "b_status batch = Pending" and "b_totalRows batch = ci_totalRows input"
    and "ci_batchId input \<notin> b_id ` set (batches db)"
    and "insert_ledger (db\<lparr>batches := batches db @ [batch]\<rparr>) (reservation_entry env input) = Inr db'"
  using assms
  by (auto simp: createBatchWithReservation_def batchLockedBalance_def to_int4_def and_then_Inr Let_def
      new_batch_row_def split: option.splits if_splits dest!: insert_batch_Inr)

lemma update_batch_ledger [simp]: "creditLedger (update_batch db i f) = creditLedger db"
  by (simp add: update_batch_def)

lemma remove_batch_ledger [simp]: "creditLedger (remove_batch db i) = creditLedger db"
  by (simp add: remove_batch_def)

lemma claimBatch_ledger [simp]: "creditLedger (snd (claimBatchForProcessing db i)) = creditLedger db"
  by (auto simp: claimBatchForProcessing_def Let_def split: option.splits)

lemma claimBatch_batches:
  "batches (snd (claimBatchForProcessing db i)) =
     map (\<lambda>b. if b_id b = i \<and> claimable (b_status b) then b\<lparr>b_status := Processing\<rparr> else b) (batches db)"
  by (auto simp: claimBatchForProcessing_def Let_def split: option.splits)

lemma keep_first_lookup:
  "keep_first m rows h = (case m h of Some r \<Rightarrow> Some r | None \<Rightarrow> find (\<lambda>r. ec_emailHash r = h) rows)"
  by (induction m rows rule: keep_first.induct) (auto split: option.splits)

lemma insert_email_checks_Inr:
  "insert_email_checks db rs = Inr db' \<Longrightarrow> db' = db\<lparr>emailChecks := emailChecks db @ rs\<rparr>"
proof (induction rs arbitrary: db)
  case (Cons r rs)
  then show ?case by (auto simp: and_then_Inr dest!: insert_email_check_Inr Cons.IH)
qed simp

lemma find_first_row: "find P xs = first_row (filter P xs)"
  by (induction xs) (auto simp: first_row_def)

lemma filter_order_desc: "filter P (order_desc key xs) = order_desc key (filter P xs)"
  by (simp add: order_desc_def filter_sort flip: rev_filter)

lemma claim_delete_race:
  assumes "distinct (map b_id (batches db))" "b \<in> set (batches db)" "b_id b = i"
    and "b_orgId b = orgId" "claimable (b_status b)"
  shows "let db' = snd (claimBatchForProcessing db i) in deleteBatchForOrg env db' i orgId = Inr (BatchProcessing, db')"
    and "deleteBatchForOrg env db i orgId = Inr (r, db'') \<Longrightarrow>
      (\<exists>x y n. r = BatchDeleted x y n) \<and> claimBatchForProcessing db'' i = (NotClaimable, db'')"
proof -
  have only: "filter (\<lambda>c. b_id c = i \<and> Q c) (batches db) = (if Q b then [b] else [])" for Q
    using filter_unique_key [OF assms(1,2)] assms(3) by simp
  let ?f = "\<lambda>b. if b_id b = i \<and> claimable (b_status b) then b\<lparr>b_status := Processing\<rparr> else b"
  have "filter (\<lambda>c. b_id c = i \<and> b_orgId c = orgId) (map ?f (batches db)) =
      map ?f (filter (\<lambda>c. b_id c = i \<and> b_orgId c = orgId) (batches db))"
    by (auto simp: filter_map comp_def intro!: arg_cong [where f = "map ?f"] filter_cong)
  also have "\<dots> = [b\<lparr>b_status := Processing\<rparr>]" using only [of "\<lambda>c. b_orgId c = orgId"] assms(3-5) by simp
  finally show "let db' = snd (claimBatchForProcessing db i) in deleteBatchForOrg env db' i orgId = Inr (BatchProcessing, db')"
    by (simp add: deleteBatchForOrg_def claimBatch_batches first_row_def Let_def)
  assume del: "deleteBatchForOrg env db i orgId = Inr (r, db'')"
  have st: "b_status b = Pending \<or> b_status b = Validating" using assms(5) by (auto simp: claimable_def)
  have bs: "batches db'' = filter (\<lambda>c. b_id c \<noteq> i) (batches db) \<and> (\<exists>x y n. r = BatchDeleted x y n)"
    using del st only [of "\<lambda>c. b_orgId c = orgId"] assms(3,4)
    by (auto simp: deleteBatchForOrg_def first_row_def and_then_Inr remove_batch_def
        elim!: insert_ledger_skip_cases dest!: insert_ledger_Inr(1))
  then have none: "filter (\<lambda>b. b_id b = i \<and> claimable (b_status b)) (batches db'') = []"
    by (auto simp: filter_empty_conv)
  moreover have "map ?f (batches db'') = batches db''"
    using bs by (auto intro: map_idI)
  ultimately show "(\<exists>x y n. r = BatchDeleted x y n) \<and> claimBatchForProcessing db'' i = (NotClaimable, db'')"
    using bs by (simp add: claimBatchForProcessing_def Let_def first_row_def)
qed

section \<open>Properties\<close>

text \<open>The batch worker's bulk cache lookup is the single lookup, hash by hash: it finds exactly
  the row that the API would reuse for that address, and nothing for a hash that was not asked for.\<close>

theorem bulk_lookup_is_single_lookup:
  "findRecentEmailChecksByHashes db orgId hashes now h =
     (if h \<in> set hashes then findRecentEmailCheck db orgId h now else None)"
proof (cases "h \<in> set hashes")
  case True
  then have ne: "hashes \<noteq> []" by auto
  have eq: "filter (\<lambda>r. ec_emailHash r = h) (filter (\<lambda>r. ec_orgId r = orgId \<and> ec_emailHash r \<in> set hashes
        \<and> c < ec_createdAt r \<and> n < ec_expiresAt r) rows)
      = filter (\<lambda>r. ec_orgId r = orgId \<and> ec_emailHash r = h \<and> c < ec_createdAt r \<and> n < ec_expiresAt r) rows"
    for c n rows using True by (auto intro: filter_cong)
  show ?thesis
    using True ne
    by (simp add: findRecentEmailChecksByHashes_def findRecentEmailCheck_def keep_first_lookup
        find_first_row filter_order_desc Let_def EMAIL_CACHE_WINDOW_MS_def eq del: filter_filter)
next
  case False
  then have eq: "filter (\<lambda>r. ec_emailHash r = h) (filter (\<lambda>r. ec_orgId r = orgId \<and> ec_emailHash r \<in> set hashes
        \<and> c < ec_createdAt r \<and> n < ec_expiresAt r) rows) = []" for c n rows
    by (auto simp: filter_empty_conv)
  have "order_desc key [] = []" for key :: "email_check \<Rightarrow> time_us \<times> uuid" by (simp add: order_desc_def)
  then show ?thesis
    using False
    by (simp add: findRecentEmailChecksByHashes_def keep_first_lookup find_first_row filter_order_desc
        Let_def eq del: filter_filter)
qed

text \<open>C33: claim and delete race for one batch row, and exactly one wins. If the worker's claim
  commits first, deletion is refused and changes nothing; if the deletion commits first, the claim
  finds nothing and changes nothing.\<close>

theorem claim_delete_exclusive:
  assumes "distinct (map b_id (batches db))" "b \<in> set (batches db)" "b_id b = i"
    and "b_orgId b = orgId" "claimable (b_status b)"
  shows "(let db' = snd (claimBatchForProcessing db i)
          in deleteBatchForOrg env db' i orgId = Inr (BatchProcessing, db'))
    \<and> (\<forall>r db''. deleteBatchForOrg env db i orgId = Inr (r, db'') \<longrightarrow>
          (\<exists>x y n. r = BatchDeleted x y n) \<and> claimBatchForProcessing db'' i = (NotClaimable, db''))"
  using claim_delete_race [OF assms] by blast

section \<open>Witnesses\<close>

definition demo_batch_input :: create_batch_input where
  "demo_batch_input = \<lparr>ci_batchId = ''b-1'', ci_orgId = ''org-1'', ci_filename = ''list.csv'',
     ci_totalRows = 2, ci_inputObjectKey = ''in'', ci_stats = JNull\<rparr>"

definition demo_batch :: batch where
  "demo_batch = new_batch_row 5000 demo_batch_input 5 30"

definition demo_batch_db :: database where
  "demo_batch_db = (demo_db 3)\<lparr>batches := [demo_batch],
     creditLedger := [demo_grant 3, reservation_entry demo_env demo_batch_input]\<rparr>"

lemmas demo_batch_defs = demo_batch_db_def demo_batch_def demo_batch_input_def new_batch_row_def demo_defs

lemma demo_batch_created:
  "createBatchWithReservation demo_env (demo_db 3) demo_batch_input 5 = Inr (BatchCreated demo_batch 1, demo_batch_db)"
  by (simp add: createBatchWithReservation_def lockBatchOrganization_def active_org_def batchLockedBalance_def
      to_int4_def ledger_sum_def org_ledger_def int4_def insert_batch_def insert_ledger_def
      reference_taken_def org_exists_def reservation_entry_def demo_batch_defs Let_def)

lemma claim_delete_exclusive_witness:
  "deleteBatchForOrg demo_env (snd (claimBatchForProcessing demo_batch_db ''b-1'')) ''b-1'' ''org-1''
     = Inr (BatchProcessing, snd (claimBatchForProcessing demo_batch_db ''b-1''))"
  using claim_delete_exclusive [of demo_batch_db demo_batch "''b-1''" "''org-1''" demo_env]
  by (simp add: demo_batch_defs claimable_def Let_def)

end
