(* ===== verification/Db_Accounts.thy ===== *)
theory Db_Accounts
  imports Db_Schema Js_Number
begin

text \<open>
  \<^verbatim>\<open>packages/db/src/crypto.ts\<close>, \<^verbatim>\<open>api-keys.ts\<close>, \<^verbatim>\<open>accounts.ts\<close>,
  \<^verbatim>\<open>email-checks.ts\<close> and \<^verbatim>\<open>errors.ts\<close>: API keys, dashboard accounts, audit
  events, the worker's row helpers and error-chain inspection.

  SHA-256 and Argon2 are code outside the repository: \<open>sha256Hex\<close> and \<open>argon2\<close> are
  parameters of the operations that call them. Random bytes, generated ids and the two clocks
  (\<open>dbnow\<close> of PostgreSQL, \<open>now\<close> of the process) are arguments.
\<close>

section \<open>Error chains\<close>

text \<open>A thrown value: an \<open>Error\<close> with its message and cause, or anything else.\<close>

datatype thrown = JsError string thrown | NotAnError

definition MAX_CAUSE_DEPTH :: nat where "MAX_CAUSE_DEPTH = 5"

function flattenErrorChain :: "thrown \<Rightarrow> nat \<Rightarrow> string" where
  "flattenErrorChain err depth =
     (if MAX_CAUSE_DEPTH < depth then ''''
      else case err of
          NotAnError \<Rightarrow> ''''
        | JsError message cause \<Rightarrow>
            (let below = flattenErrorChain cause (depth + 1)
             in if below = '''' then message else message @ [CHR 10] @ below))"
  by pat_completeness auto
termination by (relation "measure (\<lambda>(err, depth). Suc MAX_CAUSE_DEPTH - depth)") auto

definition js_includes :: "string \<Rightarrow> string \<Rightarrow> bool" where
  "js_includes text needle = sublist needle text"

definition errorChainMentions :: "thrown \<Rightarrow> string \<Rightarrow> bool" where
  "errorChainMentions err needle =
     (let text = flattenErrorChain err 0 in if text = '''' then False else js_includes text needle)"

text \<open>What the driver throws: a summary of the query around the PostgreSQL error.\<close>

definition pg_message :: "db_error \<Rightarrow> string" where
  "pg_message err =
     (case err of
        UniqueViolation c \<Rightarrow> ''duplicate key value violates unique constraint \"'' @ c @ ''\"''
      | ForeignKeyViolation c \<Rightarrow> ''insert or update violates foreign key constraint \"'' @ c @ ''\"''
      | AppendOnlyViolation \<Rightarrow> ''credit_ledger is append-only: DELETE is not allowed. Append an adjustment or refund entry instead.''
      | IntegerOutOfRange \<Rightarrow> ''integer out of range''
      | Thrown m \<Rightarrow> m)"

definition drizzle_error :: "string \<Rightarrow> db_error \<Rightarrow> thrown" where
  "drizzle_error summary err = JsError summary (JsError (pg_message err) NotAnError)"

section \<open>Key material\<close>

definition API_KEY_PREFIX_LENGTH :: int where "API_KEY_PREFIX_LENGTH = 12"

definition API_KEY_NAMESPACE :: string where "API_KEY_NAMESPACE = ''tzl_live_''"

definition BASE62_ALPHABET :: string where
  "BASE62_ALPHABET = ''0123456789ABCDEFGHIJKLMNOPQRSTUVWXYZabcdefghijklmnopqrstuvwxyz''"

definition API_KEY_RANDOM_LENGTH :: nat where "API_KEY_RANDOM_LENGTH = 32"

definition base62_limit :: nat where "base62_limit = 62 * 4"

text \<open>The inner loop over one block of random bytes, and the outer loop over successive blocks.
  The blocks that the generator would deliver are an argument; \<open>None\<close> means they ran out.\<close>

fun base62_block :: "nat \<Rightarrow> string \<Rightarrow> nat list \<Rightarrow> string" where
  "base62_block len out [] = out"
| "base62_block len out (byte # rest) =
     (if byte < base62_limit
      then let out' = out @ [BASE62_ALPHABET ! (byte mod 62)]
           in if length out' = len then out' else base62_block len out' rest
      else base62_block len out rest)"

fun randomBase62_loop :: "nat \<Rightarrow> string \<Rightarrow> nat list list \<Rightarrow> string option" where
  "randomBase62_loop len out blocks =
     (if length out < len
      then (case blocks of [] \<Rightarrow> None
            | block # blocks' \<Rightarrow> randomBase62_loop len (base62_block len out block) blocks')
      else Some out)"

definition randomBase62 :: "nat \<Rightarrow> nat list list \<Rightarrow> string option" where
  "randomBase62 len blocks = randomBase62_loop len '''' blocks"

record generated_api_key =
  gk_plaintext :: string
  gk_keyHash :: string
  gk_keyPrefix :: string

definition generateApiKey :: "(string \<Rightarrow> string) \<Rightarrow> nat list list \<Rightarrow> generated_api_key option" where
  "generateApiKey sha256Hex blocks =
     map_option (\<lambda>r. let plaintext = API_KEY_NAMESPACE @ r
        in \<lparr>gk_plaintext = plaintext, gk_keyHash = sha256Hex plaintext,
            gk_keyPrefix = js_slice plaintext 0 API_KEY_PREFIX_LENGTH\<rparr>)
       (randomBase62 API_KEY_RANDOM_LENGTH blocks)"

text \<open>\<open>/^tzl_live_[0-9A-Za-z]{32}$/\<close>\<close>

definition api_key_char :: "char \<Rightarrow> bool" where
  "api_key_char c = (let n = char_code c in (48 \<le> n \<and> n \<le> 57) \<or> (65 \<le> n \<and> n \<le> 90) \<or> (97 \<le> n \<and> n \<le> 122))"

definition API_KEY_PATTERN :: "string \<Rightarrow> bool" where
  "API_KEY_PATTERN s =
     (take 9 s = API_KEY_NAMESPACE \<and> length s = 9 + 32 \<and> (\<forall>c \<in> set (drop 9 s). api_key_char c))"

text \<open>\<open>Buffer.from(s, 'hex')\<close>: pairs of hex digits up to the first that is not.\<close>

fun hex_bytes :: "string \<Rightarrow> nat list" where
  "hex_bytes (a # b # rest) =
     (case (hex_value a, hex_value b) of
        (Some x, Some y) \<Rightarrow> (16 * x + y) # hex_bytes rest
      | _ \<Rightarrow> [])"
| "hex_bytes _ = []"

definition hashesMatch :: "string \<Rightarrow> string \<Rightarrow> bool" where
  "hashesMatch left right =
     (let a = hex_bytes left; b = hex_bytes right in length a = length b \<and> a = b)"

definition hashPassword :: "(string \<Rightarrow> string) \<Rightarrow> string \<Rightarrow> db_error + string" where
  "hashPassword argon2Hash password =
     (let encoded = argon2Hash password
      in if \<not> js_startsWith encoded ''$argon2id$''
         then Inl (Thrown ''password hashing did not produce an Argon2id hash'') else Inr encoded)"

definition verifyPassword :: "(string \<Rightarrow> string \<Rightarrow> bool) \<Rightarrow> string \<Rightarrow> string \<Rightarrow> bool" where
  "verifyPassword argon2Verify encodedHash password = argon2Verify encodedHash password"

section \<open>Audit events\<close>

definition AUDIT_RETENTION_DAYS :: int where "AUDIT_RETENTION_DAYS = 90"

definition auditExpiry :: "time_ms \<Rightarrow> time_ms" where
  "auditExpiry now = now + AUDIT_RETENTION_DAYS * 24 * 60 * 60 * 1000"

record audit_event_input =
  ai_orgId :: "uuid option"
  ai_actorUserId :: "uuid option"
  ai_actorApiKeyId :: "uuid option"
  ai_action :: string
  ai_targetType :: string
  ai_targetId :: string
  ai_metadata :: "json option"

definition insert_audit_event :: "database \<Rightarrow> audit_event \<Rightarrow> db_error + database" where
  "insert_audit_event db e =
     (if ae_id e \<in> ae_id ` set (auditEvents db) then Inl (UniqueViolation ''audit_events_pkey'')
      else if \<not> pred_option (org_exists db) (ae_orgId e)
      then Inl (ForeignKeyViolation ''audit_events_org_id_organizations_id_fk'')
      else if \<not> pred_option (\<lambda>u. u \<in> u_id ` set (users db)) (ae_actorUserId e)
      then Inl (ForeignKeyViolation ''audit_events_actor_user_id_users_id_fk'')
      else if \<not> pred_option (\<lambda>k. k \<in> k_id ` set (apiKeys db)) (ae_actorApiKeyId e)
      then Inl (ForeignKeyViolation ''audit_events_actor_api_key_id_api_keys_id_fk'')
      else Inr (db\<lparr>auditEvents := auditEvents db @ [e]\<rparr>))"

definition recordAuditEvent ::
  "time_us \<Rightarrow> uuid \<Rightarrow> database \<Rightarrow> audit_event_input \<Rightarrow> time_ms \<Rightarrow> db_error + database" where
  "recordAuditEvent dbnow auditId db event now =
     insert_audit_event db
       \<lparr>ae_id = auditId, ae_orgId = ai_orgId event, ae_actorUserId = ai_actorUserId event,
        ae_actorApiKeyId = ai_actorApiKeyId event, ae_action = ai_action event,
        ae_targetType = ai_targetType event, ae_targetId = ai_targetId event,
        ae_metadata = (case ai_metadata event of Some m \<Rightarrow> m | None \<Rightarrow> JObj []),
        ae_createdAt = dbnow, ae_expiresAt = us_of (auditExpiry now)\<rparr>"

definition org_audit :: "uuid \<Rightarrow> uuid option \<Rightarrow> string \<Rightarrow> string \<Rightarrow> string \<Rightarrow> json option \<Rightarrow> audit_event_input" where
  "org_audit orgId actor action targetType targetId metadata =
     \<lparr>ai_orgId = Some orgId, ai_actorUserId = actor, ai_actorApiKeyId = None, ai_action = action,
      ai_targetType = targetType, ai_targetId = targetId, ai_metadata = metadata\<rparr>"

section \<open>API keys\<close>

datatype api_key_failure = Unknown_key | Revoked_key | Expired_key | Org_deleted

text \<open>\<open>Inr (apiKeyId, orgId)\<close> authenticates, \<open>Inl\<close> is the failure category.\<close>

definition findActiveApiKeyByHash :: "database \<Rightarrow> string \<Rightarrow> time_ms \<Rightarrow> api_key_failure + uuid \<times> uuid" where
  "findActiveApiKeyByHash db keyHash now =
     (case first_row (List.map_filter
             (\<lambda>k. if k_keyHash k = keyHash then map_option (\<lambda>o'. (k, o')) (find_org db (k_orgId k)) else None)
             (apiKeys db)) of
        None \<Rightarrow> Inl Unknown_key
      | Some (k, org) \<Rightarrow>
          if k_revokedAt k \<noteq> None then Inl Revoked_key
          else if (case k_expiresAt k of Some e \<Rightarrow> ms_of e \<le> now | None \<Rightarrow> False) then Inl Expired_key
          else if o_deletedAt org \<noteq> None then Inl Org_deleted
          else Inr (k_id k, k_orgId k))"

definition touchApiKeyLastUsed :: "database \<Rightarrow> uuid \<Rightarrow> time_ms \<Rightarrow> database" where
  "touchApiKeyLastUsed db apiKeyId now =
     db\<lparr>apiKeys := map (\<lambda>k. if k_id k = apiKeyId then k\<lparr>k_lastUsedAt := Some (us_of now)\<rparr> else k) (apiKeys db)\<rparr>"

record created_api_key =
  ck_apiKeyId :: uuid
  ck_orgId :: uuid
  ck_plaintext :: string
  ck_keyPrefix :: string

datatype create_api_key_result = KeyCreated created_api_key | KeyOrgNotFound | KeyOrgDeleted

definition insert_api_key :: "database \<Rightarrow> api_key \<Rightarrow> db_error + database" where
  "insert_api_key db k =
     (if k_id k \<in> k_id ` set (apiKeys db) then Inl (UniqueViolation ''api_keys_pkey'')
      else if k_keyHash k \<in> k_keyHash ` set (apiKeys db) then Inl (UniqueViolation ''api_keys_key_hash_unique'')
      else if \<not> org_exists db (k_orgId k) then Inl (ForeignKeyViolation ''api_keys_org_id_organizations_id_fk'')
      else Inr (db\<lparr>apiKeys := apiKeys db @ [k]\<rparr>))"

text \<open>The generated key is an argument (one value of \<open>generateApiKey\<close>), with the ids of the
  key and of its audit event.\<close>

definition createApiKeyForOrg ::
  "time_us \<Rightarrow> uuid \<Rightarrow> uuid \<Rightarrow> generated_api_key \<Rightarrow> database \<Rightarrow> uuid \<Rightarrow> string \<Rightarrow> uuid option \<Rightarrow> time_ms
     \<Rightarrow> db_error + create_api_key_result \<times> database" where
  "createApiKeyForOrg dbnow keyId auditId key db orgId name actorUserId now =
     (case find_org db orgId of
        None \<Rightarrow> Inr (KeyOrgNotFound, db)
      | Some org \<Rightarrow>
          if o_deletedAt org \<noteq> None then Inr (KeyOrgDeleted, db)
          else
            and_then (insert_api_key db
                \<lparr>k_id = keyId, k_orgId = orgId, k_name = name, k_keyHash = gk_keyHash key,
                 k_keyPrefix = gk_keyPrefix key, k_createdAt = dbnow, k_revokedAt = None,
                 k_lastUsedAt = None, k_expiresAt = None\<rparr>) (\<lambda>db1.
            and_then (recordAuditEvent dbnow auditId db1
                (org_audit orgId actorUserId ''api_key.created'' ''api_key'' keyId
                   (Some (JObj [(''name'', JStr name), (''key_prefix'', JStr (gk_keyPrefix key))]))) now) (\<lambda>db2.
              Inr (KeyCreated \<lparr>ck_apiKeyId = keyId, ck_orgId = orgId, ck_plaintext = gk_plaintext key,
                     ck_keyPrefix = gk_keyPrefix key\<rparr>, db2))))"

datatype revoke_api_key_result = Revoked | Already_revoked | Key_not_found

definition revokeApiKeyById ::
  "time_us \<Rightarrow> uuid \<Rightarrow> database \<Rightarrow> uuid \<Rightarrow> uuid option \<Rightarrow> time_ms \<Rightarrow> time_ms \<Rightarrow> db_error + revoke_api_key_result \<times> database" where
  "revokeApiKeyById dbnow auditId db apiKeyId actorUserId now auditNow =
     (let hit = (\<lambda>k. k_id k = apiKeyId \<and> k_revokedAt k = None);
          db1 = db\<lparr>apiKeys := map (\<lambda>k. if hit k then k\<lparr>k_revokedAt := Some (us_of now)\<rparr> else k) (apiKeys db)\<rparr>
      in case first_row (filter hit (apiKeys db)) of
           Some first \<Rightarrow>
             and_then (recordAuditEvent dbnow auditId db1
                 (org_audit (k_orgId first) actorUserId ''api_key.revoked'' ''api_key'' (k_id first) None) auditNow)
               (\<lambda>db2. Inr (Revoked, db2))
         | None \<Rightarrow>
             Inr (case first_row (filter (\<lambda>k. k_id k = apiKeyId) (apiKeys db)) of
                    None \<Rightarrow> Key_not_found | Some _ \<Rightarrow> Already_revoked, db1))"

section \<open>Accounts\<close>

datatype signup_result = SignedUp uuid uuid | Email_taken

definition insert_organization :: "database \<Rightarrow> organization \<Rightarrow> db_error + database" where
  "insert_organization db org =
     (if org_exists db (o_id org) then Inl (UniqueViolation ''organizations_pkey'')
      else Inr (db\<lparr>organizations := organizations db @ [org]\<rparr>))"

definition insert_user :: "database \<Rightarrow> user \<Rightarrow> db_error + database" where
  "insert_user db u =
     (if u_id u \<in> u_id ` set (users db) then Inl (UniqueViolation ''users_pkey'')
      else if u_email u \<in> u_email ` set (users db) then Inl (UniqueViolation ''users_email_unique'')
      else if \<not> org_exists db (u_orgId u) then Inl (ForeignKeyViolation ''users_org_id_organizations_id_fk'')
      else Inr (db\<lparr>users := users db @ [u]\<rparr>))"

record signup_env =
  se_now :: time_us
  se_orgId :: uuid
  se_userId :: uuid
  se_auditId1 :: uuid
  se_auditId2 :: uuid

definition signupOrgWithAdmin ::
  "signup_env \<Rightarrow> (string \<Rightarrow> string) \<Rightarrow> database \<Rightarrow> string \<Rightarrow> string \<Rightarrow> string \<Rightarrow> time_ms \<Rightarrow> db_error + signup_result \<times> database" where
  "signupOrgWithAdmin env argon2Hash db orgName email password now =
     and_then (hashPassword argon2Hash password) (\<lambda>passwordHash.
       case first_row (filter (\<lambda>u. u_email u = email \<and> u_deletedAt u = None) (users db)) of
         Some _ \<Rightarrow> Inr (Email_taken, db)
       | None \<Rightarrow>
           and_then (insert_organization db
               \<lparr>o_id = se_orgId env, o_name = orgName, o_createdAt = se_now env, o_deletedAt = None,
                o_purgedAt = None, o_retentionDays = 30, o_smtpEnabled = False\<rparr>) (\<lambda>db1.
           and_then (insert_user db1
               \<lparr>u_id = se_userId env, u_orgId = se_orgId env, u_email = email, u_passwordHash = passwordHash,
                u_role = Admin, u_mfaSecret = None, u_mfaRecoveryCodes = [], u_createdAt = se_now env,
                u_deletedAt = None\<rparr>) (\<lambda>db2.
           and_then (recordAuditEvent (se_now env) (se_auditId1 env) db2
               (org_audit (se_orgId env) (Some (se_userId env)) ''org.created'' ''organization'' (se_orgId env) None) now) (\<lambda>db3.
           and_then (recordAuditEvent (se_now env) (se_auditId2 env) db3
               (org_audit (se_orgId env) (Some (se_userId env)) ''user.created'' ''user'' (se_userId env)
                  (Some (JObj [(''role'', JStr ''admin'')]))) now) (\<lambda>db4.
             Inr (SignedUp (se_orgId env) (se_userId env), db4))))))"

definition findUserForLogin :: "database \<Rightarrow> string \<Rightarrow> (user \<times> time_us option) option" where
  "findUserForLogin db email =
     first_row (List.map_filter
       (\<lambda>u. if u_email u = email \<and> u_deletedAt u = None
            then map_option (\<lambda>o'. (u, o_deletedAt o')) (find_org db (u_orgId u)) else None) (users db))"

definition getUserById :: "database \<Rightarrow> uuid \<Rightarrow> user option" where
  "getUserById db userId = first_row (filter (\<lambda>u. u_id u = userId \<and> u_deletedAt u = None) (users db))"

definition enrollMfa ::
  "time_us \<Rightarrow> uuid \<Rightarrow> (string \<Rightarrow> string) \<Rightarrow> database \<Rightarrow> uuid \<Rightarrow> string \<Rightarrow> string list \<Rightarrow> time_ms \<Rightarrow> db_error + database" where
  "enrollMfa dbnow auditId sha256Hex db userId secret recoveryCodes now =
     (let hit = (\<lambda>u. u_id u = userId \<and> u_deletedAt u = None);
          db1 = db\<lparr>users := map (\<lambda>u. if hit u then u\<lparr>u_mfaSecret := Some secret,
                    u_mfaRecoveryCodes := map sha256Hex recoveryCodes\<rparr> else u) (users db)\<rparr>
      in case first_row (filter hit (users db)) of
           None \<Rightarrow> Inl (Thrown ''user not found for MFA enrollment'')
         | Some u \<Rightarrow> recordAuditEvent dbnow auditId db1
             (org_audit (u_orgId u) (Some (u_id u)) ''user.mfa_enrolled'' ''user'' (u_id u) None) now)"

definition consumeRecoveryCode ::
  "time_us \<Rightarrow> uuid \<Rightarrow> (string \<Rightarrow> string) \<Rightarrow> database \<Rightarrow> uuid \<Rightarrow> string \<Rightarrow> time_ms \<Rightarrow> db_error + bool \<times> database" where
  "consumeRecoveryCode dbnow auditId sha256Hex db userId code now =
     (let hash = sha256Hex code
      in case first_row (filter (\<lambda>u. u_id u = userId \<and> u_deletedAt u = None) (users db)) of
           None \<Rightarrow> Inr (False, db)
         | Some u \<Rightarrow>
             if hash \<notin> set (u_mfaRecoveryCodes u) then Inr (False, db)
             else
               (let codes' = filter (\<lambda>entry. entry \<noteq> hash) (u_mfaRecoveryCodes u);
                    db1 = db\<lparr>users := map (\<lambda>v. if u_id v = userId then v\<lparr>u_mfaRecoveryCodes := codes'\<rparr> else v) (users db)\<rparr>
                in and_then (recordAuditEvent dbnow auditId db1
                     (org_audit (u_orgId u) (Some userId) ''user.recovery_code_used'' ''user'' userId None) now)
                     (\<lambda>db2. Inr (True, db2))))"

record org_settings =
  os_name :: string
  os_retentionDays :: int
  os_smtpEnabled :: bool

definition getOrgSettings :: "database \<Rightarrow> uuid \<Rightarrow> org_settings option" where
  "getOrgSettings db orgId =
     map_option (\<lambda>o'. \<lparr>os_name = o_name o', os_retentionDays = o_retentionDays o', os_smtpEnabled = o_smtpEnabled o'\<rparr>)
       (active_org db orgId)"

text \<open>The changed fields, in the order of the \<open>changes\<close> object; an update with no field
  raises in the query builder.\<close>

definition changed_fields :: "string option \<Rightarrow> int option \<Rightarrow> json list" where
  "changed_fields name retentionDays =
     (if name = None then [] else [JStr ''name'']) @ (if retentionDays = None then [] else [JStr ''retentionDays''])"

definition updateOrgSettings ::
  "time_us \<Rightarrow> uuid \<Rightarrow> database \<Rightarrow> uuid \<Rightarrow> uuid \<Rightarrow> string option \<Rightarrow> int option \<Rightarrow> time_ms \<Rightarrow> db_error + bool \<times> database" where
  "updateOrgSettings dbnow auditId db orgId actorUserId name retentionDays now =
     (if name = None \<and> retentionDays = None then Inl (Thrown ''No values to set'')
      else if \<not> pred_option int4 retentionDays then Inl IntegerOutOfRange
      else
        (let hit = (\<lambda>o'. o_id o' = orgId \<and> o_deletedAt o' = None);
             upd = (\<lambda>o'. o'\<lparr>o_name := (case name of Some n \<Rightarrow> n | None \<Rightarrow> o_name o'),
                            o_retentionDays := (case retentionDays of Some d \<Rightarrow> d | None \<Rightarrow> o_retentionDays o')\<rparr>);
             db1 = db\<lparr>organizations := map (\<lambda>o'. if hit o' then upd o' else o') (organizations db)\<rparr>
         in if active_org db orgId = None then Inr (False, db)
            else and_then (recordAuditEvent dbnow auditId db1
                   (org_audit orgId (Some actorUserId) ''org.settings_updated'' ''organization'' orgId
                     (Some (JObj [(''fields'', JArr (changed_fields name retentionDays))]))) now)
                   (\<lambda>db2. Inr (True, db2))))"

definition softDeleteOrganization ::
  "time_us \<Rightarrow> uuid \<Rightarrow> database \<Rightarrow> uuid \<Rightarrow> uuid \<Rightarrow> time_ms \<Rightarrow> time_ms \<Rightarrow> db_error + bool \<times> database" where
  "softDeleteOrganization dbnow auditId db orgId actorUserId now auditNow =
     (let hit = (\<lambda>o'. o_id o' = orgId \<and> o_deletedAt o' = None);
          db1 = db\<lparr>organizations := map (\<lambda>o'. if hit o' then o'\<lparr>o_deletedAt := Some (us_of now)\<rparr> else o') (organizations db)\<rparr>
      in if active_org db orgId = None then Inr (False, db)
         else and_then (recordAuditEvent dbnow auditId db1
                (org_audit orgId (Some actorUserId) ''org.deleted'' ''organization'' orgId
                   (Some (JObj [(''purge'', JStr ''scheduled_by_retention_sweep'')]))) auditNow)
                (\<lambda>db2. Inr (True, db2)))"

text \<open>The two lists of the dashboard; SQL leaves the order of rows created at the same time open.\<close>

definition listRecentAuditEvents :: "database \<Rightarrow> uuid \<Rightarrow> nat \<Rightarrow> audit_event list" where
  "listRecentAuditEvents db orgId limit =
     take limit (order_desc ae_createdAt (filter (\<lambda>e. ae_orgId e = Some orgId) (auditEvents db)))"

definition listApiKeysForOrg :: "database \<Rightarrow> uuid \<Rightarrow> api_key list" where
  "listApiKeysForOrg db orgId = order_desc k_createdAt (filter (\<lambda>k. k_orgId k = orgId) (apiKeys db))"

section \<open>Worker helpers on email checks\<close>

definition getEmailCheckForProcessing :: "database \<Rightarrow> uuid \<Rightarrow> (email_check \<times> time_us option) option" where
  "getEmailCheckForProcessing db checkId =
     first_row (List.map_filter
       (\<lambda>c. if ec_id c = checkId then map_option (\<lambda>o'. (c, o_deletedAt o')) (find_org db (ec_orgId c)) else None)
       (emailChecks db))"

record email_check_result_update =
  eu_verdict :: verdict
  eu_reasonCodes :: "reason_code list"
  eu_checksJson :: json
  eu_cached :: bool

definition updateEmailCheckResult :: "database \<Rightarrow> uuid \<Rightarrow> email_check_result_update \<Rightarrow> bool \<times> database" where
  "updateEmailCheckResult db checkId upd =
     (checkId \<in> ec_id ` set (emailChecks db),
      db\<lparr>emailChecks := map (\<lambda>c. if ec_id c = checkId
            then c\<lparr>ec_verdict := eu_verdict upd, ec_reasonCodes := eu_reasonCodes upd,
                   ec_checksJson := eu_checksJson upd, ec_cached := eu_cached upd\<rparr> else c) (emailChecks db)\<rparr>)"

definition getActiveEmailCheck :: "database \<Rightarrow> uuid \<Rightarrow> email_check option" where
  "getActiveEmailCheck db checkId =
     first_row (filter (\<lambda>c. ec_id c = checkId \<and> active_org db (ec_orgId c) \<noteq> None) (emailChecks db))"

section \<open>Lemmas\<close>

lemma flattenErrorChain_cause:
  "sublist m2 (flattenErrorChain (JsError m1 (JsError m2 NotAnError)) 0)"
  by (simp add: MAX_CAUSE_DEPTH_def Let_def) (simp add: sublist_def, metis append_Cons append_Nil append_Nil2 append_assoc)

lemma errorChainMentions_cause:
  assumes "sublist needle m2" "m2 \<noteq> ''''"
  shows "errorChainMentions (JsError m1 (JsError m2 NotAnError)) needle"
proof -
  have "sublist m2 (flattenErrorChain (JsError m1 (JsError m2 NotAnError)) 0)" by (rule flattenErrorChain_cause)
  then have "sublist needle (flattenErrorChain (JsError m1 (JsError m2 NotAnError)) 0)"
    using assms(1) sublist_order.order_trans by blast
  moreover have "flattenErrorChain (JsError m1 (JsError m2 NotAnError)) 0 \<noteq> ''''"
    using assms(2) by (simp add: MAX_CAUSE_DEPTH_def Let_def)
  ultimately show ?thesis by (simp add: errorChainMentions_def js_includes_def Let_def)
qed

lemma errorChainMentions_unique: "errorChainMentions (drizzle_error summary (UniqueViolation c)) c"
  unfolding drizzle_error_def
proof (rule errorChainMentions_cause)
  have "pg_message (UniqueViolation c) = ''duplicate key value violates unique constraint \"'' @ c @ ''\"''"
    by (simp only: pg_message_def db_error.case)
  then show "sublist c (pg_message (UniqueViolation c))" "pg_message (UniqueViolation c) \<noteq> []"
    unfolding sublist_def by (blast, simp)
qed

lemma recordAuditEvent_Inr:
  "recordAuditEvent dbnow i db e now = Inr db' \<Longrightarrow> \<exists>row. db' = db\<lparr>auditEvents := auditEvents db @ [row]\<rparr>"
  by (auto simp: recordAuditEvent_def insert_audit_event_def split: if_splits)

definition accepted_bytes :: "nat list \<Rightarrow> nat list" where
  "accepted_bytes bytes = filter (\<lambda>b. b < base62_limit) bytes"

definition base62_char :: "nat \<Rightarrow> char" where
  "base62_char b = BASE62_ALPHABET ! (b mod 62)"

lemma base62_block_spec:
  "length out < len \<Longrightarrow>
     base62_block len out bytes = out @ map base62_char (take (len - length out) (accepted_bytes bytes))"
proof (induction len out bytes rule: base62_block.induct)
  case (2 len out byte rest)
  show ?case
  proof (cases "byte < base62_limit")
    case True
    then show ?thesis
    proof (cases "Suc (length out) = len")
      case True
      then show ?thesis using \<open>byte < base62_limit\<close>
        by (auto simp: accepted_bytes_def base62_char_def)
    next
      case False
      have "len - length out = Suc (len - length (out @ [BASE62_ALPHABET ! (byte mod 62)]))"
        using 2(3) by simp
      then show ?thesis
        using 2(1) [OF True refl] 2(3) True False
        by (simp add: accepted_bytes_def base62_char_def Let_def)
    qed
  next
    case False
    then show ?thesis using 2 by (simp add: accepted_bytes_def)
  qed
qed (simp add: accepted_bytes_def)

declare randomBase62_loop.simps [simp del]

lemma randomBase62_loop_spec:
  "length out \<le> len \<Longrightarrow>
     randomBase62_loop len out blocks =
       (let acc = accepted_bytes (concat blocks)
        in if len \<le> length out + length acc
           then Some (out @ map base62_char (take (len - length out) acc)) else None)"
proof (induction blocks arbitrary: out)
  case Nil
  then show ?case by (auto simp: accepted_bytes_def randomBase62_loop.simps)
next
  case (Cons block blocks)
  show ?case
  proof (cases "length out < len")
    case True
    let ?out = "base62_block len out block" and ?a = "accepted_bytes block"
    have out: "?out = out @ map base62_char (take (len - length out) ?a)"
      by (rule base62_block_spec [OF True])
    then have "length ?out \<le> len" using Cons.prems by simp
    note IH = Cons.IH [OF this]
    have acc: "accepted_bytes (concat (block # blocks)) = ?a @ accepted_bytes (concat blocks)"
      by (simp add: accepted_bytes_def)
    have "randomBase62_loop len out (block # blocks) = randomBase62_loop len ?out blocks"
      using True by (subst randomBase62_loop.simps) simp
    then show ?thesis
      unfolding IH acc using True by (auto simp: out Let_def min_def)
  next
    case False
    then show ?thesis using Cons.prems by (simp add: randomBase62_loop.simps)
  qed
qed

lemma base62_alphabet_chars: "\<forall>c \<in> set BASE62_ALPHABET. api_key_char c"
  by (simp add: BASE62_ALPHABET_def api_key_char_def char_code_def)

lemma base62_alphabet_length: "length BASE62_ALPHABET = 62" "distinct BASE62_ALPHABET"
  by (simp_all add: BASE62_ALPHABET_def)

lemma base62_char_in: "base62_char b \<in> set BASE62_ALPHABET"
  by (simp add: base62_char_def base62_alphabet_length)

lemma base62_preimage:
  assumes "i < 62"
  shows "{b. b < base62_limit \<and> base62_char b = BASE62_ALPHABET ! i} = {i, i + 62, i + 124, i + 186}"
proof -
  have "base62_char b = BASE62_ALPHABET ! i \<longleftrightarrow> b mod 62 = i" for b
    using assms by (simp add: base62_char_def nth_eq_iff_index_eq base62_alphabet_length)
  moreover have "b < 248 \<Longrightarrow> b mod 62 = i \<Longrightarrow> b \<in> {i, i + 62, i + 124, i + 186}" for b
    by (cases "b < 62"; cases "b < 124"; cases "b < 186") (auto simp: le_mod_geq)
  moreover have "(i + 124) mod 62 = i" "(i + 186) mod 62 = i"
    using assms mod_mult_self1 [of i 2 62] mod_mult_self1 [of i 3 62] by simp_all
  ultimately show ?thesis using assms by (auto simp: base62_limit_def)
qed

section \<open>Properties\<close>

text \<open>The key generator returns exactly the first accepted bytes of the random stream, mapped
  through the alphabet, as soon as the stream holds enough of them, and the rejection of bytes from
  248 on leaves every character of the alphabet with the same number of byte values: four.\<close>

theorem randomBase62_exact:
  "randomBase62 len blocks =
     (let acc = accepted_bytes (concat blocks)
      in if len \<le> length acc then Some (map base62_char (take len acc)) else None)
   \<and> (\<forall>i < 62. card {b. b < 256 \<and> b < base62_limit \<and> base62_char b = BASE62_ALPHABET ! i} = 4)"
proof -
  have "{b. b < 256 \<and> b < base62_limit \<and> base62_char b = BASE62_ALPHABET ! i} =
      {b. b < base62_limit \<and> base62_char b = BASE62_ALPHABET ! i}" for i
    by (auto simp: base62_limit_def)
  then have "\<forall>i < 62. card {b. b < 256 \<and> b < base62_limit \<and> base62_char b = BASE62_ALPHABET ! i} = 4"
    by (simp add: base62_preimage)
  then show ?thesis
    using randomBase62_loop_spec [of "[]" len blocks] by (simp add: randomBase62_def Let_def)
qed

lemma randomBase62_exact_witness:
  "randomBase62 3 [[250, 0, 61], [255, 247, 9]] = Some ''0zz''"
  using randomBase62_exact [of 3 "[[250, 0, 61], [255, 247, 9]]"]
  by (simp add: accepted_bytes_def base62_limit_def base62_char_def BASE62_ALPHABET_def numeral_3_eq_3)

text \<open>Every generated key matches the pattern the API accepts, and what is stored of it is its
  hash and its first twelve characters.\<close>

theorem generateApiKey_well_formed:
  assumes "generateApiKey sha256Hex blocks = Some k"
  shows "API_KEY_PATTERN (gk_plaintext k) \<and> gk_keyHash k = sha256Hex (gk_plaintext k)
    \<and> gk_keyPrefix k = take 12 (gk_plaintext k)"
proof -
  obtain r where r: "randomBase62 API_KEY_RANDOM_LENGTH blocks = Some r"
    and k: "gk_plaintext k = API_KEY_NAMESPACE @ r" "gk_keyHash k = sha256Hex (gk_plaintext k)"
      "gk_keyPrefix k = js_slice (gk_plaintext k) 0 API_KEY_PREFIX_LENGTH"
    using assms by (auto simp: generateApiKey_def Let_def)
  have "length r = 32 \<and> (\<forall>c \<in> set r. api_key_char c)"
    using r randomBase62_loop_spec [of "[]" API_KEY_RANDOM_LENGTH blocks] base62_alphabet_chars base62_char_in
    by (auto simp: randomBase62_def API_KEY_RANDOM_LENGTH_def Let_def split: if_splits)
  then show ?thesis
    using k by (simp add: API_KEY_PATTERN_def API_KEY_NAMESPACE_def js_slice_def js_rel_index_def
        API_KEY_PREFIX_LENGTH_def)
qed

lemma generateApiKey_well_formed_witness:
  "API_KEY_PATTERN (gk_plaintext (the (generateApiKey id [replicate 40 7])))"
proof -
  have "\<exists>k. generateApiKey id [replicate 40 7] = Some k"
    using randomBase62_loop_spec [of "[]" API_KEY_RANDOM_LENGTH "[replicate 40 7]"]
    by (simp add: generateApiKey_def randomBase62_def API_KEY_RANDOM_LENGTH_def accepted_bytes_def base62_limit_def)
  then show ?thesis using generateApiKey_well_formed by fastforce
qed

text \<open>A recovery code works at most once: once it was consumed, consuming it again is refused
  and changes nothing.\<close>

theorem recovery_code_single_use:
  assumes "consumeRecoveryCode dbnow auditId sha256Hex db userId code now = Inr (True, db')"
  shows "consumeRecoveryCode dbnow' auditId' sha256Hex db' userId code now' = Inr (False, db')"
proof -
  let ?hit = "\<lambda>u. u_id u = userId \<and> u_deletedAt u = None"
  obtain u where u: "first_row (filter ?hit (users db)) = Some u"
    and db': "users db' = map (\<lambda>v. if u_id v = userId then v\<lparr>u_mfaRecoveryCodes :=
      filter (\<lambda>entry. entry \<noteq> sha256Hex code) (u_mfaRecoveryCodes u)\<rparr> else v) (users db)"
    using assms by (auto simp: consumeRecoveryCode_def Let_def and_then_Inr split: option.splits if_splits
        dest!: recordAuditEvent_Inr)
  obtain us where us: "filter ?hit (users db) = u # us"
    using u by (auto simp: first_row_def split: list.splits)
  have "filter ?hit (users db') = map (\<lambda>v. if u_id v = userId then v\<lparr>u_mfaRecoveryCodes :=
      filter (\<lambda>entry. entry \<noteq> sha256Hex code) (u_mfaRecoveryCodes u)\<rparr> else v) (filter ?hit (users db))"
    by (auto simp: db' filter_map comp_def intro!: arg_cong [where f = "map _"] filter_cong)
  then have "first_row (filter ?hit (users db')) = Some (if u_id u = userId then u\<lparr>u_mfaRecoveryCodes :=
      filter (\<lambda>entry. entry \<noteq> sha256Hex code) (u_mfaRecoveryCodes u)\<rparr> else u)"
    by (simp add: us first_row_def)
  moreover have "u_id u = userId" using us by (metis (mono_tags, lifting) filter_eq_ConsD)
  ultimately show ?thesis by (simp add: consumeRecoveryCode_def)
qed

text \<open>Revocation is final and idempotent: a second revocation reports so and writes nothing, and
  the revoked key authenticates no request at any time.\<close>

theorem revoked_key_never_authenticates:
  assumes "revokeApiKeyById dbnow auditId db apiKeyId actor now auditNow = Inr (Revoked, db')"
  shows "revokeApiKeyById dbnow' auditId' db' apiKeyId actor' now' auditNow' = Inr (Already_revoked, db')
    \<and> findActiveApiKeyByHash db' h t \<noteq> Inr (apiKeyId, orgId)"
proof -
  let ?hit = "\<lambda>k. k_id k = apiKeyId \<and> k_revokedAt k = None"
  obtain first where first: "first_row (filter ?hit (apiKeys db)) = Some first"
    using assms by (auto simp: revokeApiKeyById_def Let_def split: option.splits)
  have db': "apiKeys db' = map (\<lambda>k. if ?hit k then k\<lparr>k_revokedAt := Some (us_of now)\<rparr> else k) (apiKeys db)"
    using assms by (auto simp: revokeApiKeyById_def Let_def and_then_Inr first dest!: recordAuditEvent_Inr)
  have revoked: "\<not> ?hit k" if k: "k \<in> set (apiKeys db')" for k
  proof -
    obtain k0 where "k = (if ?hit k0 then k0\<lparr>k_revokedAt := Some (us_of now)\<rparr> else k0)"
      using k unfolding db' set_map by blast
    then show ?thesis by (cases "?hit k0") simp_all
  qed
  then have none: "filter ?hit (apiKeys db') = []" unfolding filter_empty_conv by blast
  moreover have "map (\<lambda>k. if ?hit k then k\<lparr>k_revokedAt := Some (us_of now')\<rparr> else k) (apiKeys db') = apiKeys db'"
    by (rule map_idI) (simp add: revoked)
  moreover have "map k_id (apiKeys db') = map k_id (apiKeys db)" by (simp add: db')
  then have "k_id ` set (apiKeys db') = k_id ` set (apiKeys db)" by (metis set_map)
  then have "apiKeyId \<in> k_id ` set (apiKeys db')" using first_row_Some_mem [OF first] by auto
  then have "filter (\<lambda>k. k_id k = apiKeyId) (apiKeys db') \<noteq> []" by (auto simp: filter_empty_conv)
  then have "first_row (filter (\<lambda>k. k_id k = apiKeyId) (apiKeys db')) \<noteq> None" by simp
  ultimately have "revokeApiKeyById dbnow' auditId' db' apiKeyId actor' now' auditNow' = Inr (Already_revoked, db')"
    by (auto simp: revokeApiKeyById_def Let_def first_row_def)
  moreover have "findActiveApiKeyByHash db' h t \<noteq> Inr (apiKeyId, orgId)"
  proof
    assume "findActiveApiKeyByHash db' h t = Inr (apiKeyId, orgId)"
    then obtain k where "k \<in> set (apiKeys db')" "?hit k"
      by (auto simp: findActiveApiKeyByHash_def List.map_filter_def dest!: first_row_Some_mem
          split: option.splits if_splits)
    then show False using revoked by blast
  qed
  ultimately show ?thesis by blast
qed

section \<open>Witnesses\<close>

definition demo_user :: user where
  "demo_user = \<lparr>u_id = ''u-1'', u_orgId = ''org-1'', u_email = ''a@b.uz'', u_passwordHash = ''x'', u_role = Admin,
     u_mfaSecret = None, u_mfaRecoveryCodes = [''r1'', ''r2''], u_createdAt = 0, u_deletedAt = None\<rparr>"

definition demo_key :: api_key where
  "demo_key = \<lparr>k_id = ''k-1'', k_orgId = ''org-1'', k_name = ''n'', k_keyHash = ''h'', k_keyPrefix = ''p'',
     k_createdAt = 0, k_revokedAt = None, k_lastUsedAt = None, k_expiresAt = None\<rparr>"

definition demo_acct_db :: database where
  "demo_acct_db = (demo_db 3)\<lparr>users := [demo_user], apiKeys := [demo_key]\<rparr>"

lemmas demo_acct_defs = demo_acct_db_def demo_user_def demo_key_def demo_db_def demo_org_def demo_grant_def
  empty_db_def recordAuditEvent_def insert_audit_event_def org_audit_def org_exists_def first_row_def

lemma recovery_code_single_use_witness:
  "\<exists>db'. consumeRecoveryCode 0 ''a-1'' id demo_acct_db ''u-1'' ''r1'' 0 = Inr (True, db')
     \<and> consumeRecoveryCode 1 ''a-2'' id db' ''u-1'' ''r1'' 1 = Inr (False, db')"
proof -
  obtain db' where "consumeRecoveryCode 0 ''a-1'' id demo_acct_db ''u-1'' ''r1'' 0 = Inr (True, db')"
    by (simp add: consumeRecoveryCode_def demo_acct_defs)
  then show ?thesis using recovery_code_single_use by blast
qed

lemma revoked_key_never_authenticates_witness:
  "\<exists>db'. findActiveApiKeyByHash demo_acct_db ''h'' 0 = Inr (''k-1'', ''org-1'')
     \<and> revokeApiKeyById 0 ''a-1'' demo_acct_db ''k-1'' None 0 0 = Inr (Revoked, db')
     \<and> findActiveApiKeyByHash db' ''h'' 0 \<noteq> Inr (''k-1'', ''org-1'')"
proof -
  obtain db' where *: "revokeApiKeyById 0 ''a-1'' demo_acct_db ''k-1'' None 0 0 = Inr (Revoked, db')"
    by (simp add: revokeApiKeyById_def demo_acct_defs)
  moreover have "findActiveApiKeyByHash demo_acct_db ''h'' 0 = Inr (''k-1'', ''org-1'')"
    by (simp add: findActiveApiKeyByHash_def List.map_filter_def find_org_def demo_acct_defs)
  moreover have "findActiveApiKeyByHash db' ''h'' 0 \<noteq> Inr (''k-1'', ''org-1'')"
    using revoked_key_never_authenticates [OF *] by blast
  ultimately show ?thesis by blast
qed

end
