(* ===== verification/Calendar.thy ===== *)
theory Calendar
  imports Prelude
begin

text \<open>
  The UTC calendar of ECMAScript \<open>Date\<close>, as the billing and retention code uses it:
  \<open>Date.UTC\<close>, \<open>getUTCFullYear\<close>, \<open>getUTCMonth\<close>, \<open>getUTCDate\<close> and
  \<open>setUTCFullYear\<close>, and PostgreSQL's subtraction of whole years. Months count from 0.
\<close>

definition MS_PER_DAY :: int where "MS_PER_DAY = 86400000"

definition leap_year :: "int \<Rightarrow> bool" where
  "leap_year y = ((y mod 4 = 0 \<and> y mod 100 \<noteq> 0) \<or> y mod 400 = 0)"

definition day_from_year :: "int \<Rightarrow> int" where
  "day_from_year y = 365 * (y - 1970) + (y - 1969) div 4 - (y - 1901) div 100 + (y - 1601) div 400"

definition month_starts :: "bool \<Rightarrow> int list" where
  "month_starts leap =
     (if leap then [0, 31, 60, 91, 121, 152, 182, 213, 244, 274, 305, 335]
      else [0, 31, 59, 90, 120, 151, 181, 212, 243, 273, 304, 334])"

definition make_day :: "int \<Rightarrow> int \<Rightarrow> int \<Rightarrow> int" where
  "make_day y m d =
     (let ym = y + m div 12; mn = m mod 12
      in day_from_year ym + month_starts (leap_year ym) ! nat mn + d - 1)"

definition date_utc :: "int \<Rightarrow> int \<Rightarrow> int \<Rightarrow> time_ms" where
  "date_utc y m d = make_day y m d * MS_PER_DAY"

definition day_of :: "time_ms \<Rightarrow> int" where "day_of t = t div MS_PER_DAY"

text \<open>The year of a day: an estimate from the mean year length, corrected by one step.\<close>

definition year_of_day :: "int \<Rightarrow> int" where
  "year_of_day d =
     (let y = 1970 + (400 * d) div 146097
      in if d < day_from_year y then y - 1 else if day_from_year (y + 1) \<le> d then y + 1 else y)"

definition month_of_yday :: "bool \<Rightarrow> int \<Rightarrow> int" where
  "month_of_yday leap yd = int (length (filter (\<lambda>s. s \<le> yd) (month_starts leap))) - 1"

definition utc_year :: "time_ms \<Rightarrow> int" where "utc_year t = year_of_day (day_of t)"

definition utc_yday :: "time_ms \<Rightarrow> int" where
  "utc_yday t = day_of t - day_from_year (utc_year t)"

definition utc_month :: "time_ms \<Rightarrow> int" where
  "utc_month t = month_of_yday (leap_year (utc_year t)) (utc_yday t)"

definition utc_date :: "time_ms \<Rightarrow> int" where
  "utc_date t = utc_yday t - month_starts (leap_year (utc_year t)) ! nat (utc_month t) + 1"

text \<open>\<open>date.setUTCFullYear(y)\<close>: month, day and time of day stay, and a day that the
  month does not have runs over into the next month.\<close>

definition set_utc_full_year :: "time_ms \<Rightarrow> int \<Rightarrow> time_ms" where
  "set_utc_full_year t y = make_day y (utc_month t) (utc_date t) * MS_PER_DAY + t mod MS_PER_DAY"

text \<open>PostgreSQL's \<open>t - interval 'n years'\<close>: a day that the month does not have is cut
  back to the last day of the month.\<close>

definition month_length :: "bool \<Rightarrow> int \<Rightarrow> int" where
  "month_length leap m = [31, if leap then 29 else 28, 31, 30, 31, 30, 31, 31, 30, 31, 30, 31] ! nat m"

definition pg_minus_years :: "time_ms \<Rightarrow> int \<Rightarrow> time_ms" where
  "pg_minus_years t n =
     (let y = utc_year t - n; m = utc_month t
      in make_day y m (min (utc_date t) (month_length (leap_year y) m)) * MS_PER_DAY + t mod MS_PER_DAY)"

section \<open>Correctness of the year\<close>

lemma div_bounds:
  fixes a :: int
  assumes "0 < k"
  shows "k * (a div k) \<le> a" "a < k * (a div k) + k"
  using assms by (simp_all add: mult_div_mod_eq [symmetric] pos_mod_bound minus_mod_eq_mult_div [symmetric])

lemma div_step:
  fixes x :: int
  assumes "0 < k"
  shows "(x + 1) div k = x div k + (if (x + 1) mod k = 0 then 1 else 0)"
proof (cases "x mod k + 1 = k")
  case True
  have "x = k * (x div k) + x mod k" by simp
  then have eq: "x + 1 = k * (x div k + 1) + 0"
    using True by (metis add.assoc add_0_right distrib_left mult.right_neutral)
  have "(x + 1) div k = x div k + 1" by (rule int_div_pos_eq [OF eq]) (use assms in auto)
  moreover have "(x + 1) mod k = 0" by (rule int_mod_pos_eq [OF eq]) (use assms in auto)
  ultimately show ?thesis by simp
next
  case False
  then have eq: "x + 1 = k * (x div k) + (x mod k + 1)"
    using mult_div_mod_eq [of k x] by simp
  have r: "0 \<le> x mod k + 1" "x mod k + 1 < k"
    using False assms pos_mod_sign [of k x] pos_mod_bound [of k x] by linarith+
  have "(x + 1) div k = x div k" by (rule int_div_pos_eq [OF eq r])
  moreover have "(x + 1) mod k = x mod k + 1" by (rule int_mod_pos_eq [OF eq r])
  moreover have "x mod k + 1 \<noteq> 0" using assms pos_mod_sign [of k x] by linarith
  ultimately show ?thesis by simp
qed

lemma mod_shift: "k dvd c \<Longrightarrow> (y - c) mod k = y mod (k::int)"
  by (metis mod_diff_eq dvd_eq_mod_eq_0 diff_zero mod_mod_trivial)

lemma day_from_year_Suc:
  "day_from_year (y + 1) = day_from_year y + (if leap_year y then 366 else 365)"
proof -
  have 4: "(y - 1968) div 4 = (y - 1969) div 4 + (if y mod 4 = 0 then 1 else 0)"
    using div_step [of 4 "y - 1969"] mod_shift [of 4 1968 y] by (simp add: algebra_simps)
  have 100: "(y - 1900) div 100 = (y - 1901) div 100 + (if y mod 100 = 0 then 1 else 0)"
    using div_step [of 100 "y - 1901"] mod_shift [of 100 1900 y] by (simp add: algebra_simps)
  have 400: "(y - 1600) div 400 = (y - 1601) div 400 + (if y mod 400 = 0 then 1 else 0)"
    using div_step [of 400 "y - 1601"] mod_shift [of 400 1600 y] by (simp add: algebra_simps)
  have imp: "y mod 400 = 0 \<longrightarrow> y mod 100 = 0" "y mod 100 = 0 \<longrightarrow> y mod 4 = 0"
    using dvd_trans [of 100 400 y] dvd_trans [of 4 100 y] by (simp_all add: mod_eq_0_iff_dvd)
  have lhs: "day_from_year (y + 1) = 365 * (y - 1970) + 365 + (y - 1968) div 4 - (y - 1900) div 100 + (y - 1600) div 400"
    by (simp add: day_from_year_def)
  have rhs: "day_from_year y = 365 * (y - 1970) + (y - 1969) div 4 - (y - 1901) div 100 + (y - 1601) div 400"
    by (simp add: day_from_year_def)
  have "(if leap_year y then 366 else (365::int)) = 365 + (if y mod 4 = 0 then 1 else 0)
      - (if y mod 100 = 0 then 1 else 0) + (if y mod 400 = 0 then 1 else 0)"
    using imp by (simp add: leap_year_def)
  then show ?thesis using lhs rhs 4 100 400 by linarith
qed

lemma day_from_year_mean:
  "400 * day_from_year y \<le> 146097 * (y - 1970) + 700"
  "146097 * (y - 1970) - 700 \<le> 400 * day_from_year y"
  using div_bounds [of 100 "y - 1901"] div_bounds [of 400 "y - 1601"] div_bounds [of 4 "y - 1969"]
  unfolding day_from_year_def by simp_all

lemma year_of_day_correct:
  "day_from_year (year_of_day d) \<le> d \<and> d < day_from_year (year_of_day d + 1)"
proof -
  define y where "y = 1970 + (400 * d) div 146097"
  have b: "146097 * (y - 1970) \<le> 400 * d" "400 * d < 146097 * (y - 1970) + 146097"
    using div_bounds [of 146097 "400 * d"] by (simp_all add: y_def)
  have "day_from_year (y - 1) \<le> d" using b(1) day_from_year_mean(1) [of "y - 1"] by (simp add: algebra_simps)
  moreover have "d < day_from_year (y + 2)" using b(2) day_from_year_mean(2) [of "y + 2"] by (simp add: algebra_simps)
  ultimately show ?thesis
    by (auto simp: year_of_day_def Let_def y_def [symmetric] add.commute)
qed

lemma utc_yday_bounds: "0 \<le> utc_yday t" "utc_yday t < (if leap_year (utc_year t) then 366 else 365)"
  using year_of_day_correct [of "day_of t"] day_from_year_Suc [of "utc_year t"]
  by (simp_all add: utc_yday_def utc_year_def)

lemma month_of_yday_bounds:
  assumes "0 \<le> yd" "yd < (if leap then 366 else 365)"
  shows "0 \<le> month_of_yday leap yd \<and> month_of_yday leap yd \<le> 11
    \<and> month_starts leap ! nat (month_of_yday leap yd) \<le> yd"
  using assms by (cases leap) (auto simp: month_of_yday_def month_starts_def)

lemma month_start_before_now: "date_utc (utc_year t) (utc_month t) 1 \<le> t"
proof -
  let ?l = "leap_year (utc_year t)"
  have m: "0 \<le> utc_month t" "utc_month t \<le> 11" "month_starts ?l ! nat (utc_month t) \<le> utc_yday t"
    using month_of_yday_bounds [OF utc_yday_bounds] by (auto simp: utc_month_def)
  then have "make_day (utc_year t) (utc_month t) 1 \<le> day_of t"
    by (simp add: make_day_def Let_def utc_yday_def)
  then have "make_day (utc_year t) (utc_month t) 1 * MS_PER_DAY \<le> day_of t * MS_PER_DAY"
    by (simp add: MS_PER_DAY_def)
  also have "\<dots> \<le> t" using div_bounds [of MS_PER_DAY t] by (simp add: day_of_def MS_PER_DAY_def mult.commute)
  finally show ?thesis by (simp add: date_utc_def)
qed

lemma date_utc_next_year: "date_utc y 12 1 = date_utc (y + 1) 0 1"
  by (simp add: date_utc_def make_day_def Let_def)

lemma date_utc_next_month:
  "0 \<le> m \<Longrightarrow> m < 12 \<Longrightarrow> date_utc y m 1 < date_utc y (m + 1) 1"
proof -
  assume m: "0 \<le> m" "m < 12"
  have "make_day y m 1 < make_day y (m + 1) 1"
  proof (cases "m = 11")
    case True
    then show ?thesis using day_from_year_Suc [of y]
      by (auto simp: make_day_def Let_def month_starts_def)
  next
    case False
    with m have "m = 0 \<or> m = 1 \<or> m = 2 \<or> m = 3 \<or> m = 4 \<or> m = 5 \<or> m = 6 \<or> m = 7
      \<or> m = 8 \<or> m = 9 \<or> m = 10" by presburger
    then show ?thesis by (elim disjE; simp add: make_day_def Let_def month_starts_def)
  qed
  then show ?thesis by (simp add: date_utc_def MS_PER_DAY_def)
qed

end
