(* ===== verification/Db_Billing.thy ===== *)
theory Db_Billing
  imports Db_Batches Db_Accounts Calendar Core_Plans "HOL-Library.Multiset"
begin

text \<open>
  \<^verbatim>\<open>packages/db/src/billing.ts\<close>: manual grants with their replay guard, the
  month-to-date summary, monthly statements and invoice requests. All figures come from the
  ledger. \<open>sum(delta)\<close> is read as a \<open>Number\<close> here; the model keeps it exact, which it
  is up to 2^53.
\<close>

section \<open>Grants\<close>

datatype grant_failure = Invalid_input | Grant_org_not_found | Grant_org_deleted | Duplicate_reference

datatype grant_result = Granted uuid string | GrantRefused grant_failure

definition grantReference :: "(string \<Rightarrow> string) \<Rightarrow> nat \<Rightarrow> string \<Rightarrow> string" where
  "grantReference sha256Hex credits note =
     ''grant:'' @ js_slice (sha256Hex (nat_text credits @ '':'' @ note)) 0 32"

definition MAX_SAFE_INTEGER :: int where "MAX_SAFE_INTEGER = 2 ^ 53 - 1"

record grant_env =
  ge_now :: time_us
  ge_ledgerId :: uuid
  ge_auditId :: uuid
  ge_summary :: string \<comment> \<open>the driver's text around a failed query\<close>

definition grant_entry :: "grant_env \<Rightarrow> uuid \<Rightarrow> int \<Rightarrow> string \<Rightarrow> string \<Rightarrow> ledger_entry" where
  "grant_entry env orgId credits referenceId note =
     \<lparr>l_id = ge_ledgerId env, l_orgId = orgId, l_delta = credits, l_reason = Grant,
      l_referenceId = Some referenceId, l_note = Some note, l_createdAt = ge_now env\<rparr>"

text \<open>The transaction, and around it the validation and the \<open>catch\<close> that recognises a
  replay by the violated index. An integral \<open>credits\<close> is assumed by its type; \<open>Inr\<close>
  is the returned result, \<open>Inl\<close> an error that is thrown on.\<close>

definition grant_transaction ::
  "grant_env \<Rightarrow> database \<Rightarrow> uuid \<Rightarrow> int \<Rightarrow> string \<Rightarrow> string \<Rightarrow> time_ms \<Rightarrow> db_error + grant_result \<times> database" where
  "grant_transaction env db orgId credits referenceId note now =
     (case find_org db orgId of
        None \<Rightarrow> Inr (GrantRefused Grant_org_not_found, db)
      | Some org \<Rightarrow>
          if o_deletedAt org \<noteq> None then Inr (GrantRefused Grant_org_deleted, db)
          else
            and_then (insert_ledger db (grant_entry env orgId credits referenceId note)) (\<lambda>db1.
            and_then (recordAuditEvent (ge_now env) (ge_auditId env) db1
                (org_audit orgId None ''billing.grant'' ''credit_ledger'' (ge_ledgerId env)
                   (Some (JObj [(''credits'', JNum (rat_of_int credits)), (''reference_id'', JStr referenceId)]))) now) (\<lambda>db2.
              Inr (Granted (ge_ledgerId env) referenceId, db2))))"

definition grantCreditsWithAudit ::
  "grant_env \<Rightarrow> (string \<Rightarrow> string) \<Rightarrow> database \<Rightarrow> uuid \<Rightarrow> int \<Rightarrow> string \<Rightarrow> time_ms \<Rightarrow> db_error + grant_result \<times> database" where
  "grantCreditsWithAudit env sha256Hex db orgId credits rawNote now =
     (if MAX_SAFE_INTEGER < \<bar>credits\<bar> \<or> credits \<le> 0 then Inr (GrantRefused Invalid_input, db)
      else
        (let note = js_trim rawNote
         in if note = '''' then Inr (GrantRefused Invalid_input, db)
            else
              (let referenceId = grantReference sha256Hex (nat credits) note
               in case grant_transaction env db orgId credits referenceId note now of
                    Inr r \<Rightarrow> Inr r
                  | Inl e \<Rightarrow>
                      if errorChainMentions (drizzle_error (ge_summary env) e) ''credit_ledger_org_id_reference_id_uniq''
                      then Inr (GrantRefused Duplicate_reference, db) else Inl e)))"

section \<open>Summary\<close>

record month_to_date =
  md_creditsGranted :: int
  md_creditsConsumed :: int
  md_batchesRun :: nat

record billing_summary =
  bs_balance :: int
  bs_lastGrant :: "int option"
  bs_monthToDate :: month_to_date

definition CONSUMPTION_REASONS :: "credit_reason list" where
  "CONSUMPTION_REASONS = [Single_check, Batch_check]"

definition monthStartUtc :: "time_ms \<Rightarrow> time_ms" where
  "monthStartUtc now = date_utc (utc_year now) (utc_month now) 1"

definition sum_delta :: "ledger_entry list \<Rightarrow> int" where
  "sum_delta rows = sum_list (map l_delta rows)"

definition getBillingSummary :: "database \<Rightarrow> uuid \<Rightarrow> time_ms \<Rightarrow> billing_summary" where
  "getBillingSummary db orgId now =
     (let start = monthStartUtc now;
          mine = org_ledger db orgId;
          grants = order_desc (\<lambda>e. (l_createdAt e, l_id e)) (filter (\<lambda>e. l_reason e = Grant) mine);
          inMonth = filter (\<lambda>e. us_of start \<le> l_createdAt e \<and> l_createdAt e \<le> us_of now) mine
      in \<lparr>bs_balance = sum_delta mine,
          bs_lastGrant = map_option l_delta (first_row grants),
          bs_monthToDate =
            \<lparr>md_creditsGranted = sum_delta (filter (\<lambda>e. l_reason e = Grant) inMonth),
             md_creditsConsumed = - sum_delta (filter (\<lambda>e. l_reason e \<in> {Single_check, Batch_check}) inMonth),
             md_batchesRun = length (filter (\<lambda>e. l_reason e = Batch_check) inMonth)\<rparr>\<rparr>)"

section \<open>Statements\<close>

text \<open>\<open>/^(\d{4})-(\d{2})$/\<close>, then the bounds on month and year.\<close>

definition parseStatementMonth :: "string \<Rightarrow> (time_ms \<times> time_ms) option" where
  "parseStatementMonth month =
     (if \<not> (length month = 7 \<and> list_all is_digit (take 4 month) \<and> month ! 4 = CHR ''-''
            \<and> list_all is_digit (drop 5 month)) then None
      else
        (let year = digits_value (take 4 month); monthIndex = digits_value (drop 5 month) - 1
         in if monthIndex < 0 \<or> monthIndex > 11 \<or> year < 2020 \<or> year > 2100 then None
            else Some (date_utc year monthIndex 1, date_utc year (monthIndex + 1) 1)))"

record monthly_statement =
  ms_month :: string
  ms_openingBalance :: int
  ms_creditsGranted :: int
  ms_creditsConsumed :: int
  ms_creditsRefunded :: int
  ms_adjustments :: int
  ms_closingBalance :: int
  ms_checksCharged :: int
  ms_batchesRun :: nat
  ms_entries :: "ledger_entry list"

definition byReason :: "ledger_entry list \<Rightarrow> credit_reason list \<Rightarrow> int" where
  "byReason entries reasons =
     foldl (\<lambda>total entry. total + l_delta entry) 0 (filter (\<lambda>entry. l_reason entry \<in> set reasons) entries)"

definition getMonthlyStatement :: "database \<Rightarrow> uuid \<Rightarrow> string \<Rightarrow> monthly_statement option" where
  "getMonthlyStatement db orgId month =
     (case parseStatementMonth month of
        None \<Rightarrow> None
      | Some (start, stop) \<Rightarrow>
          (let openingBalance = sum_delta (filter (\<lambda>e. l_createdAt e < us_of start) (org_ledger db orgId));
               entries = order_asc (\<lambda>e. (l_createdAt e, l_id e))
                 (filter (\<lambda>e. us_of start \<le> l_createdAt e \<and> l_createdAt e < us_of stop) (org_ledger db orgId));
               consumedDelta = byReason entries CONSUMPTION_REASONS;
               monthDelta = foldl (\<lambda>total entry. total + l_delta entry) 0 entries
           in Some
             \<lparr>ms_month = month,
              ms_openingBalance = openingBalance,
              ms_creditsGranted = byReason entries [Grant],
              ms_creditsConsumed = - consumedDelta,
              ms_creditsRefunded = byReason entries [Refund],
              ms_adjustments = byReason entries [Adjustment],
              ms_closingBalance = openingBalance + monthDelta,
              ms_checksCharged = - consumedDelta,
              ms_batchesRun = length (filter (\<lambda>entry. l_reason entry = Batch_check) entries),
              ms_entries = entries\<rparr>))"

section \<open>Invoice requests\<close>

definition insert_invoice_request :: "database \<Rightarrow> invoice_request \<Rightarrow> db_error + database" where
  "insert_invoice_request db r =
     (if ir_id r \<in> ir_id ` set (invoiceRequests db) then Inl (UniqueViolation ''invoice_requests_pkey'')
      else if \<not> org_exists db (ir_orgId r) then Inl (ForeignKeyViolation ''invoice_requests_org_id_organizations_id_fk'')
      else if \<not> pred_option (\<lambda>u. u \<in> u_id ` set (users db)) (ir_requestedByUserId r)
      then Inl (ForeignKeyViolation ''invoice_requests_requested_by_user_id_users_id_fk'')
      else Inr (db\<lparr>invoiceRequests := invoiceRequests db @ [r]\<rparr>))"

definition createInvoiceRequest ::
  "time_us \<Rightarrow> uuid \<Rightarrow> uuid \<Rightarrow> database \<Rightarrow> uuid \<Rightarrow> string \<Rightarrow> uuid \<Rightarrow> time_ms \<Rightarrow> db_error + uuid option \<times> database" where
  "createInvoiceRequest dbnow requestId auditId db orgId planCode requestedByUserId now =
     (case active_org db orgId of
        None \<Rightarrow> Inr (None, db)
      | Some _ \<Rightarrow>
          and_then (insert_invoice_request db
              \<lparr>ir_id = requestId, ir_orgId = orgId, ir_requestedByUserId = Some requestedByUserId,
               ir_planCode = planCode, ir_createdAt = dbnow\<rparr>) (\<lambda>db1.
          and_then (recordAuditEvent dbnow auditId db1
              (org_audit orgId (Some requestedByUserId) ''billing.invoice_requested'' ''invoice_request'' requestId
                 (Some (JObj [(''plan_code'', JStr planCode)]))) now) (\<lambda>db2.
            Inr (Some requestId, db2))))"

section \<open>Lemmas\<close>

lemma foldl_sum_delta: "foldl (\<lambda>total e. total + l_delta e) a es = a + sum_delta es"
  by (induction es arbitrary: a) (simp_all add: sum_delta_def)

lemma sum_delta_sort: "sum_delta (sort_key k es) = sum_delta es"
  unfolding sum_delta_def by (metis mset_map mset_sort sum_mset_sum_list)

lemma sum_delta_by_reason:
  "sum_delta es = byReason es [Grant] + byReason es CONSUMPTION_REASONS + byReason es [Refund] + byReason es [Adjustment]"
proof (induction es)
  case (Cons e es)
  then show ?case
    by (cases "l_reason e") (simp_all add: byReason_def CONSUMPTION_REASONS_def foldl_sum_delta sum_delta_def)
qed (simp add: byReason_def sum_delta_def)

lemma sum_delta_split:
  "a \<le> b \<Longrightarrow> sum_delta (filter (\<lambda>e. l_createdAt e < b) es) =
     sum_delta (filter (\<lambda>e. l_createdAt e < a) es) + sum_delta (filter (\<lambda>e. a \<le> l_createdAt e \<and> l_createdAt e < b) es)"
  by (induction es) (auto simp: sum_delta_def)

lemma parseStatementMonth_order:
  assumes "parseStatementMonth m = Some (start, stop)"
  shows "start < stop"
proof -
  obtain year i where "start = date_utc year i 1" "stop = date_utc year (i + 1) 1" "0 \<le> i" "i < 12"
    using assms by (auto simp: parseStatementMonth_def Let_def split: if_splits)
  then show ?thesis by (simp add: date_utc_next_month)
qed

lemma statement_closing:
  assumes "parseStatementMonth m = Some (start, stop)" "getMonthlyStatement db o' m = Some s"
  shows "ms_openingBalance s = sum_delta (filter (\<lambda>e. l_createdAt e < us_of start) (org_ledger db o'))"
    and "ms_closingBalance s = sum_delta (filter (\<lambda>e. l_createdAt e < us_of stop) (org_ledger db o'))"
proof -
  have le: "us_of start \<le> us_of stop" using parseStatementMonth_order [OF assms(1)] by simp
  show "ms_openingBalance s = sum_delta (filter (\<lambda>e. l_createdAt e < us_of start) (org_ledger db o'))"
    using assms by (auto simp: getMonthlyStatement_def Let_def)
  show "ms_closingBalance s = sum_delta (filter (\<lambda>e. l_createdAt e < us_of stop) (org_ledger db o'))"
    using assms sum_delta_split [OF le, of "org_ledger db o'"]
    by (auto simp: getMonthlyStatement_def Let_def foldl_sum_delta order_asc_def sum_delta_sort)
qed

section \<open>Properties\<close>

text \<open>A monthly statement adds up: closing is opening plus grants, minus consumption, plus
  refunds and adjustments, and it is the balance of all entries before the end of the month.\<close>

theorem statement_adds_up:
  assumes "getMonthlyStatement db orgId month = Some s"
  shows "ms_closingBalance s = ms_openingBalance s + ms_creditsGranted s - ms_creditsConsumed s
      + ms_creditsRefunded s + ms_adjustments s
    \<and> (\<exists>start stop. parseStatementMonth month = Some (start, stop) \<and> start < stop
        \<and> ms_closingBalance s = sum_list (map l_delta (filter (\<lambda>e. l_createdAt e < us_of stop) (org_ledger db orgId))))"
proof -
  obtain start stop where p: "parseStatementMonth month = Some (start, stop)"
    using assms by (auto simp: getMonthlyStatement_def split: option.splits)
  have "ms_closingBalance s = ms_openingBalance s + sum_delta (ms_entries s)
      \<and> ms_creditsGranted s = byReason (ms_entries s) [Grant]
      \<and> ms_creditsConsumed s = - byReason (ms_entries s) CONSUMPTION_REASONS
      \<and> ms_creditsRefunded s = byReason (ms_entries s) [Refund]
      \<and> ms_adjustments s = byReason (ms_entries s) [Adjustment]"
    using assms p by (auto simp: getMonthlyStatement_def Let_def foldl_sum_delta)
  then show ?thesis
    using p parseStatementMonth_order [OF p] statement_closing(2) [OF p assms] sum_delta_by_reason [of "ms_entries s"]
    by (simp add: sum_delta_def)
qed

text \<open>Statements chain: where one month ends and the next begins, the closing balance of the
  first is the opening balance of the second, so no entry falls between two statements and none
  is counted twice.\<close>

theorem statements_chain:
  assumes "parseStatementMonth m1 = Some (a, b)" "parseStatementMonth m2 = Some (b, c)"
    and "getMonthlyStatement db orgId m1 = Some s1" "getMonthlyStatement db orgId m2 = Some s2"
  shows "ms_closingBalance s1 = ms_openingBalance s2"
  using statement_closing(2) [OF assms(1,3)] statement_closing(1) [OF assms(2,4)] by simp

text \<open>Replaying a grant is refused: after a grant, any grant of the same amount to the same
  organisation whose note differs only in surrounding white space returns
  \<open>duplicate_reference\<close> and writes nothing, as long as the organisation is active and the
  entry is still in the ledger.\<close>

theorem grant_replay_refused:
  assumes "grantCreditsWithAudit env sha256Hex db orgId credits rawNote now = Inr (Granted ledgerId ref, db')"
    and "js_trim rawNote' = js_trim rawNote"
    and "set (creditLedger db') \<subseteq> set (creditLedger db'')"
    and "active_org db'' orgId = find_org db'' orgId" "find_org db'' orgId \<noteq> None"
    and "ge_ledgerId env' \<notin> l_id ` set (creditLedger db'')"
  shows "grantCreditsWithAudit env' sha256Hex db'' orgId credits rawNote' now' = Inr (GrantRefused Duplicate_reference, db'')"
proof -
  let ?note = "js_trim rawNote" and ?ref = "grantReference sha256Hex (nat credits) (js_trim rawNote)"
  obtain org where org: "find_org db'' orgId = Some org" "o_deletedAt org = None"
    using assms(4,5) active_org_Some [of db'' orgId] by auto
  have ok: "\<not> (MAX_SAFE_INTEGER < \<bar>credits\<bar> \<or> credits \<le> 0)" "?note \<noteq> ''''"
    using assms(1) by (auto simp: grantCreditsWithAudit_def Let_def split: if_splits)
  then obtain db1 where ins: "insert_ledger db (grant_entry env orgId credits ?ref ?note) = Inr db1"
    and db': "creditLedger db' = creditLedger db1"
    using assms(1)
    by (auto simp: grantCreditsWithAudit_def grant_transaction_def Let_def and_then_Inr
        split: sum.splits option.splits if_splits dest!: recordAuditEvent_Inr)
  then have "grant_entry env orgId credits ?ref ?note \<in> set (creditLedger db'')"
    using assms(3) insert_ledger_Inr(1) [OF ins] by auto
  then have "reference_taken db'' orgId (Some ?ref)"
    unfolding reference_taken_def by (auto simp: grant_entry_def intro: rev_bexI)
  moreover have "int4 credits" using insert_ledger_Inr(2) [OF ins] by (simp add: grant_entry_def)
  ultimately have "insert_ledger db'' (grant_entry env' orgId credits ?ref ?note)
      = Inl (UniqueViolation ''credit_ledger_org_id_reference_id_uniq'')"
    using assms(6) by (simp add: insert_ledger_def grant_entry_def)
  moreover have "errorChainMentions (drizzle_error (ge_summary env') (UniqueViolation ''credit_ledger_org_id_reference_id_uniq''))
      ''credit_ledger_org_id_reference_id_uniq''"
    by (rule errorChainMentions_unique)
  ultimately show ?thesis
    using ok org by (auto simp: grantCreditsWithAudit_def grant_transaction_def assms(2) Let_def)
qed


section \<open>Witnesses\<close>

lemma parse_dec_2024: "parseStatementMonth ''2024-12'' = Some (date_utc 2024 11 1, date_utc 2024 12 1)"
  by (simp add: parseStatementMonth_def digits_value_def is_digit_def char_code_def Let_def)

lemma parse_jan_2025: "parseStatementMonth ''2025-01'' = Some (date_utc 2025 0 1, date_utc 2025 1 1)"
  by (simp add: parseStatementMonth_def digits_value_def is_digit_def char_code_def Let_def)

lemma statement_adds_up_witness:
  "\<exists>s. getMonthlyStatement (demo_db 3) ''org-1'' ''2024-12'' = Some s \<and> ms_closingBalance s = 3
     \<and> ms_closingBalance s = ms_openingBalance s + ms_creditsGranted s - ms_creditsConsumed s
         + ms_creditsRefunded s + ms_adjustments s"
proof -
  obtain s where s: "getMonthlyStatement (demo_db 3) ''org-1'' ''2024-12'' = Some s"
    by (simp add: getMonthlyStatement_def parse_dec_2024 Let_def)
  have "ms_closingBalance s = 3"
    using statement_closing(2) [OF parse_dec_2024 s]
    by (simp add: org_ledger_def demo_db_def demo_grant_def empty_db_def sum_delta_def date_utc_def
        make_day_def day_from_year_def month_starts_def MS_PER_DAY_def us_of_def)
  then show ?thesis using s statement_adds_up [OF s] by blast
qed

lemma statements_chain_witness:
  "\<exists>s1 s2. getMonthlyStatement (demo_db 3) ''org-1'' ''2024-12'' = Some s1
     \<and> getMonthlyStatement (demo_db 3) ''org-1'' ''2025-01'' = Some s2
     \<and> ms_closingBalance s1 = ms_openingBalance s2"
proof -
  obtain s1 where s1: "getMonthlyStatement (demo_db 3) ''org-1'' ''2024-12'' = Some s1"
    by (simp add: getMonthlyStatement_def parse_dec_2024 Let_def)
  obtain s2 where s2: "getMonthlyStatement (demo_db 3) ''org-1'' ''2025-01'' = Some s2"
    by (simp add: getMonthlyStatement_def parse_jan_2025 Let_def)
  have "ms_closingBalance s1 = ms_openingBalance s2"
    by (rule statements_chain [OF parse_dec_2024 parse_jan_2025 [folded date_utc_next_year [of 2024, simplified]] s1 s2])
  then show ?thesis using s1 s2 by blast
qed

definition demo_grant_env :: grant_env where
  "demo_grant_env = \<lparr>ge_now = 7, ge_ledgerId = ''l-9'', ge_auditId = ''a-9'', ge_summary = ''Failed query''\<rparr>"

lemma demo_granted:
  "\<exists>db'. grantCreditsWithAudit demo_grant_env id (demo_db 2147483647) ''org-1'' 2147483647 ''Invoice 7'' 0
       = Inr (Granted ''l-9'' (grantReference id 2147483647 ''Invoice 7''), db')
     \<and> ledger_sum db' ''org-1'' = 4294967294 \<and> active_org db' ''org-1'' = Some demo_org
     \<and> find_org db' ''org-1'' = Some demo_org \<and> l_id ` set (creditLedger db') = {''l-0'', ''l-9''}"
proof -
  have ref: "grantReference id 2147483647 ''Invoice 7'' \<noteq> ''g-0''"
    by (simp add: grantReference_def)
  have trim: "js_trim ''Invoice 7'' = ''Invoice 7''"
    by (simp add: js_trim_def js_trimStart_def js_ws_def char_code_def)
  show ?thesis
    using ref
    by (simp add: grantCreditsWithAudit_def trim grant_transaction_def MAX_SAFE_INTEGER_def Let_def
        find_org_def insert_ledger_def reference_taken_def grant_entry_def int4_def org_exists_def
        recordAuditEvent_def insert_audit_event_def org_audit_def ledger_sum_def org_ledger_def
        active_org_def demo_db_def demo_org_def demo_grant_def empty_db_def demo_grant_env_def)
qed

lemma grant_replay_refused_witness:
  "\<exists>db'. grantCreditsWithAudit (demo_grant_env\<lparr>ge_ledgerId := ''l-10''\<rparr>) id db' ''org-1'' 2147483647 ''Invoice 7'' 5
     = Inr (GrantRefused Duplicate_reference, db')"
proof -
  obtain db' where g: "grantCreditsWithAudit demo_grant_env id (demo_db 2147483647) ''org-1'' 2147483647 ''Invoice 7'' 0
       = Inr (Granted ''l-9'' (grantReference id 2147483647 ''Invoice 7''), db')"
    "active_org db' ''org-1'' = Some demo_org" "find_org db' ''org-1'' = Some demo_org"
    "l_id ` set (creditLedger db') = {''l-0'', ''l-9''}"
    using demo_granted by blast
  show ?thesis
    by (rule exI [of _ db'], rule grant_replay_refused [OF g(1)]) (simp_all add: g)
qed


end
