(* ===== verification/Db_Lifecycle.thy ===== *)
theory Db_Lifecycle
  imports Db_Billing
begin

text \<open>
  \<^verbatim>\<open>packages/db/src/lifecycle.ts\<close> with the ledger trigger of
  \<^verbatim>\<open>drizzle/0006_ledger_retention_purge.sql\<close>: the retention sweep and the
  self-service deletions. Deletes carry the foreign-key actions of the schema (cascade,
  set null, restrict).
\<close>

definition ORG_PURGE_GRACE_DAYS :: int where "ORG_PURGE_GRACE_DAYS = 30"

definition PURGED_ORG_NAME :: string where "PURGED_ORG_NAME = ''deleted organization''"

section \<open>Expiry\<close>

definition purgeExpiredChecks :: "database \<Rightarrow> time_ms \<Rightarrow> (nat \<times> nat) \<times> database" where
  "purgeExpiredChecks db now =
     ((length (filter (\<lambda>r. ec_expiresAt r \<le> us_of now) (emailChecks db)),
       length (filter (\<lambda>r. pc_expiresAt r \<le> us_of now) (phoneChecks db))),
      db\<lparr>emailChecks := filter (\<lambda>r. \<not> ec_expiresAt r \<le> us_of now) (emailChecks db),
         phoneChecks := filter (\<lambda>r. \<not> pc_expiresAt r \<le> us_of now) (phoneChecks db)\<rparr>)"

record batch_purge_target =
  bt_id :: uuid
  bt_orgId :: uuid
  bt_inputObjectKey :: string
  bt_resultObjectKey :: "string option"

text \<open>There is no \<open>ORDER BY\<close>: any rows up to the limit may come; the model takes them in
  table order.\<close>

definition listExpiredBatches :: "database \<Rightarrow> time_ms \<Rightarrow> nat \<Rightarrow> batch_purge_target list" where
  "listExpiredBatches db now limit =
     take limit (map (\<lambda>b. \<lparr>bt_id = b_id b, bt_orgId = b_orgId b, bt_inputObjectKey = b_inputObjectKey b,
                           bt_resultObjectKey = b_resultObjectKey b\<rparr>)
       (filter (\<lambda>b. b_expiresAt b \<le> us_of now) (batches db)))"

definition deleteBatchesByIds :: "database \<Rightarrow> uuid list \<Rightarrow> nat \<times> database" where
  "deleteBatchesByIds db ids =
     (if ids = [] then (0, db)
      else (length (filter (\<lambda>b. b_id b \<in> set ids) (batches db)),
            db\<lparr>batches := filter (\<lambda>b. b_id b \<notin> set ids) (batches db)\<rparr>))"

definition listOrganizationsDueForPurge :: "database \<Rightarrow> time_ms \<Rightarrow> int \<Rightarrow> uuid list" where
  "listOrganizationsDueForPurge db now graceDays =
     (let cutoff = now - graceDays * 24 * 60 * 60 * 1000
      in map o_id (filter (\<lambda>o'. (case o_deletedAt o' of Some d \<Rightarrow> d \<le> us_of cutoff | None \<Rightarrow> False)
                             \<and> o_purgedAt o' = None) (organizations db)))"

section \<open>Purge of an organisation\<close>

record org_purge_result =
  pr_users :: nat
  pr_apiKeys :: nat
  pr_emailChecks :: nat
  pr_phoneChecks :: nat
  pr_batches :: nat
  pr_webhookEndpoints :: nat
  pr_invoiceRequests :: nat

definition delete_users_of :: "database \<Rightarrow> uuid \<Rightarrow> database" where
  "delete_users_of db orgId =
     (let gone = u_id ` set (filter (\<lambda>u. u_orgId u = orgId) (users db))
      in db\<lparr>users := filter (\<lambda>u. u_orgId u \<noteq> orgId) (users db),
            auditEvents := map (\<lambda>e. if ae_actorUserId e \<in> Some ` gone then e\<lparr>ae_actorUserId := None\<rparr> else e) (auditEvents db),
            invoiceRequests := map (\<lambda>r. if ir_requestedByUserId r \<in> Some ` gone then r\<lparr>ir_requestedByUserId := None\<rparr> else r) (invoiceRequests db)\<rparr>)"

definition delete_api_keys_of :: "database \<Rightarrow> uuid \<Rightarrow> database" where
  "delete_api_keys_of db orgId =
     (let gone = k_id ` set (filter (\<lambda>k. k_orgId k = orgId) (apiKeys db))
      in db\<lparr>apiKeys := filter (\<lambda>k. k_orgId k \<noteq> orgId) (apiKeys db),
            auditEvents := map (\<lambda>e. if ae_actorApiKeyId e \<in> Some ` gone then e\<lparr>ae_actorApiKeyId := None\<rparr> else e) (auditEvents db)\<rparr>)"

definition delete_endpoints_of :: "database \<Rightarrow> uuid \<Rightarrow> database" where
  "delete_endpoints_of db orgId =
     (let gone = we_id ` set (filter (\<lambda>w. we_orgId w = orgId) (webhookEndpoints db))
      in db\<lparr>webhookEndpoints := filter (\<lambda>w. we_orgId w \<noteq> orgId) (webhookEndpoints db),
            webhookDeliveries := filter (\<lambda>d. wd_endpointId d \<notin> gone) (webhookDeliveries db)\<rparr>)"

definition delete_checks_of :: "database \<Rightarrow> uuid \<Rightarrow> database" where
  "delete_checks_of db orgId =
     db\<lparr>emailChecks := filter (\<lambda>r. ec_orgId r \<noteq> orgId) (emailChecks db),
        phoneChecks := filter (\<lambda>r. pc_orgId r \<noteq> orgId) (phoneChecks db),
        batches := filter (\<lambda>b. b_orgId b \<noteq> orgId) (batches db)\<rparr>"

definition count_rows :: "('r \<Rightarrow> uuid) \<Rightarrow> uuid \<Rightarrow> 'r list \<Rightarrow> nat" where
  "count_rows org orgId rows = length (filter (\<lambda>r. org r = orgId) rows)"

definition purge_counts :: "database \<Rightarrow> uuid \<Rightarrow> org_purge_result" where
  "purge_counts db orgId =
     \<lparr>pr_users = count_rows u_orgId orgId (users db), pr_apiKeys = count_rows k_orgId orgId (apiKeys db),
      pr_emailChecks = count_rows ec_orgId orgId (emailChecks db),
      pr_phoneChecks = count_rows pc_orgId orgId (phoneChecks db),
      pr_batches = count_rows b_orgId orgId (batches db),
      pr_webhookEndpoints = count_rows we_orgId orgId (webhookEndpoints db),
      pr_invoiceRequests = count_rows ir_orgId orgId (invoiceRequests db)\<rparr>"

definition json_count :: "nat \<Rightarrow> json" where "json_count n = JNum (of_nat n)"

definition hardDeleteOrganizationData ::
  "time_us \<Rightarrow> uuid \<Rightarrow> database \<Rightarrow> uuid \<Rightarrow> time_ms \<Rightarrow> db_error + org_purge_result \<times> database" where
  "hardDeleteOrganizationData dbnow auditId db orgId now =
     (let counts = purge_counts db orgId;
          db1 = delete_endpoints_of (delete_checks_of (delete_api_keys_of (delete_users_of db orgId) orgId) orgId) orgId;
          db2 = db1\<lparr>invoiceRequests := filter (\<lambda>r. ir_orgId r \<noteq> orgId) (invoiceRequests db1),
                    organizations := map (\<lambda>o'. if o_id o' = orgId
                        then o'\<lparr>o_name := PURGED_ORG_NAME, o_purgedAt := Some (us_of now)\<rparr> else o') (organizations db1)\<rparr>
      in and_then (recordAuditEvent dbnow auditId db2
           (org_audit orgId None ''org.purged'' ''organization'' orgId
             (Some (JObj [(''users'', json_count (pr_users counts)), (''api_keys'', json_count (pr_apiKeys counts)),
                (''email_checks'', json_count (pr_emailChecks counts)), (''phone_checks'', json_count (pr_phoneChecks counts)),
                (''batches'', json_count (pr_batches counts)), (''webhook_endpoints'', json_count (pr_webhookEndpoints counts)),
                (''invoice_requests'', json_count (pr_invoiceRequests counts))]))) now)
           (\<lambda>db3. Inr (counts, db3)))"

definition purgeExpiredLeads :: "database \<Rightarrow> time_ms \<Rightarrow> nat \<times> database" where
  "purgeExpiredLeads db now =
     (let hit = (\<lambda>l. le_expiresAt l \<le> us_of now \<or> le_deletedAt l \<noteq> None)
      in (length (filter hit (leads db)), db\<lparr>leads := filter (\<lambda>l. \<not> hit l) (leads db)\<rparr>))"

section \<open>Self-service deletion\<close>

definition deleteEmailCheckForOrg :: "database \<Rightarrow> uuid \<Rightarrow> uuid \<Rightarrow> time_ms \<Rightarrow> bool \<times> database" where
  "deleteEmailCheckForOrg db checkId orgId now =
     (case active_org db orgId of
        None \<Rightarrow> (False, db)
      | Some _ \<Rightarrow>
          (let hit = (\<lambda>r. ec_id r = checkId \<and> ec_orgId r = orgId \<and> us_of now < ec_expiresAt r)
           in (length (filter hit (emailChecks db)) = 1,
               db\<lparr>emailChecks := filter (\<lambda>r. \<not> hit r) (emailChecks db)\<rparr>)))"

definition deletePhoneCheckForOrg :: "database \<Rightarrow> uuid \<Rightarrow> uuid \<Rightarrow> time_ms \<Rightarrow> bool \<times> database" where
  "deletePhoneCheckForOrg db checkId orgId now =
     (case active_org db orgId of
        None \<Rightarrow> (False, db)
      | Some _ \<Rightarrow>
          (let hit = (\<lambda>r. pc_id r = checkId \<and> pc_orgId r = orgId \<and> us_of now < pc_expiresAt r)
           in (length (filter hit (phoneChecks db)) = 1,
               db\<lparr>phoneChecks := filter (\<lambda>r. \<not> hit r) (phoneChecks db)\<rparr>)))"

record check_data_wipe_result =
  wr_emailChecks :: nat
  wr_phoneChecks :: nat
  wr_batches :: nat
  wr_batchObjects :: nat

definition batch_object_keys :: "batch list \<Rightarrow> string list" where
  "batch_object_keys rows =
     concat (map (\<lambda>row. case b_resultObjectKey row of
        None \<Rightarrow> [b_inputObjectKey row]
      | Some k \<Rightarrow> [b_inputObjectKey row, k]) rows)"

text \<open>The object store is outside the database: \<open>deleteObjects\<close> is the callback, on a
  store state of its own, and its failure rolls the transaction back.\<close>

definition wipeCheckDataForOrg ::
  "database \<Rightarrow> 'store \<Rightarrow> uuid \<Rightarrow> (string list \<Rightarrow> 'store \<Rightarrow> db_error + 'store)
     \<Rightarrow> db_error + check_data_wipe_result option \<times> database \<times> 'store" where
  "wipeCheckDataForOrg db store orgId deleteObjects =
     (case active_org db orgId of
        None \<Rightarrow> Inr (None, db, store)
      | Some _ \<Rightarrow>
          (let objectKeys = batch_object_keys (filter (\<lambda>b. b_orgId b = orgId) (batches db))
           in and_then (deleteObjects objectKeys store) (\<lambda>store'.
                Inr (Some \<lparr>wr_emailChecks = count_rows ec_orgId orgId (emailChecks db),
                           wr_phoneChecks = count_rows pc_orgId orgId (phoneChecks db),
                           wr_batches = count_rows b_orgId orgId (batches db),
                           wr_batchObjects = length objectKeys\<rparr>,
                     delete_checks_of db orgId, store'))))"

section \<open>Ledger retention\<close>

definition LEDGER_RETENTION_YEARS :: int where "LEDGER_RETENTION_YEARS = 3"

definition ledgerRetentionCutoff :: "time_ms \<Rightarrow> time_ms" where
  "ledgerRetentionCutoff now = set_utc_full_year now (utc_year now - LEDGER_RETENTION_YEARS)"

text \<open>The trigger's own age test, on the database clock. The interval arithmetic works on whole
  milliseconds of that clock in the model; the sub-millisecond part is carried along.\<close>

definition trigger_cutoff :: "time_us \<Rightarrow> time_us" where
  "trigger_cutoff dbnow = us_of (pg_minus_years (ms_of dbnow) 3) + dbnow mod 1000"

definition purgeExpiredLedgerEntries :: "time_us \<Rightarrow> database \<Rightarrow> time_ms \<Rightarrow> db_error + nat \<times> database" where
  "purgeExpiredLedgerEntries dbnow db now =
     (let cutoff = ledgerRetentionCutoff now;
          hit = (\<lambda>e. l_createdAt e \<le> us_of cutoff)
      in if list_all (\<lambda>e. hit e \<longrightarrow> l_createdAt e \<le> trigger_cutoff dbnow) (creditLedger db)
         then Inr (length (filter hit (creditLedger db)),
                   db\<lparr>creditLedger := filter (\<lambda>e. \<not> hit e) (creditLedger db)\<rparr>)
         else Inl AppendOnlyViolation)"

text \<open>Deleting an organisation row cascades to its remaining children; the filter leaves none
  with a ledger entry, so the ledger's \<open>restrict\<close> never fires.\<close>

definition retired :: "database \<Rightarrow> organization \<Rightarrow> bool" where
  "retired db o' = (o_purgedAt o' \<noteq> None \<and> \<not> (\<exists>e \<in> set (creditLedger db). l_orgId e = o_id o'))"

definition delete_org_row :: "database \<Rightarrow> uuid \<Rightarrow> database" where
  "delete_org_row db orgId =
     (let db1 = delete_endpoints_of (delete_checks_of (delete_api_keys_of (delete_users_of db orgId) orgId) orgId) orgId
      in db1\<lparr>invoiceRequests := filter (\<lambda>r. ir_orgId r \<noteq> orgId) (invoiceRequests db1),
             auditEvents := map (\<lambda>e. if ae_orgId e = Some orgId then e\<lparr>ae_orgId := None\<rparr> else e) (auditEvents db1),
             organizations := filter (\<lambda>o'. o_id o' \<noteq> orgId) (organizations db1)\<rparr>)"

definition deleteRetiredOrganizations :: "database \<Rightarrow> nat \<times> database" where
  "deleteRetiredOrganizations db =
     (let gone = filter (retired db) (organizations db)
      in (length gone, foldl delete_org_row db (map o_id gone)))"

section \<open>Lemmas\<close>

lemma delete_of_ledger [simp]:
  "creditLedger (delete_users_of db o') = creditLedger db" "creditLedger (delete_api_keys_of db o') = creditLedger db"
  "creditLedger (delete_endpoints_of db o') = creditLedger db" "creditLedger (delete_checks_of db o') = creditLedger db"
  by (simp_all add: delete_users_of_def delete_api_keys_of_def delete_endpoints_of_def delete_checks_of_def Let_def)

lemma delete_of_users [simp]:
  "users (delete_users_of db o') = filter (\<lambda>u. u_orgId u \<noteq> o') (users db)"
  "users (delete_api_keys_of db o') = users db" "users (delete_endpoints_of db o') = users db"
  "users (delete_checks_of db o') = users db"
  by (simp_all add: delete_users_of_def delete_api_keys_of_def delete_endpoints_of_def delete_checks_of_def Let_def)

lemma delete_of_apiKeys [simp]:
  "apiKeys (delete_users_of db o') = apiKeys db"
  "apiKeys (delete_api_keys_of db o') = filter (\<lambda>k. k_orgId k \<noteq> o') (apiKeys db)"
  "apiKeys (delete_endpoints_of db o') = apiKeys db" "apiKeys (delete_checks_of db o') = apiKeys db"
  by (simp_all add: delete_users_of_def delete_api_keys_of_def delete_endpoints_of_def delete_checks_of_def Let_def)

lemma delete_of_checks [simp]:
  "emailChecks (delete_users_of db o') = emailChecks db" "emailChecks (delete_api_keys_of db o') = emailChecks db"
  "emailChecks (delete_endpoints_of db o') = emailChecks db"
  "emailChecks (delete_checks_of db o') = filter (\<lambda>r. ec_orgId r \<noteq> o') (emailChecks db)"
  "phoneChecks (delete_users_of db o') = phoneChecks db" "phoneChecks (delete_api_keys_of db o') = phoneChecks db"
  "phoneChecks (delete_endpoints_of db o') = phoneChecks db"
  "phoneChecks (delete_checks_of db o') = filter (\<lambda>r. pc_orgId r \<noteq> o') (phoneChecks db)"
  "batches (delete_users_of db o') = batches db" "batches (delete_api_keys_of db o') = batches db"
  "batches (delete_endpoints_of db o') = batches db"
  "batches (delete_checks_of db o') = filter (\<lambda>b. b_orgId b \<noteq> o') (batches db)"
  by (simp_all add: delete_users_of_def delete_api_keys_of_def delete_endpoints_of_def delete_checks_of_def Let_def)

lemma delete_of_hooks [simp]:
  "webhookEndpoints (delete_users_of db o') = webhookEndpoints db"
  "webhookEndpoints (delete_api_keys_of db o') = webhookEndpoints db"
  "webhookEndpoints (delete_checks_of db o') = webhookEndpoints db"
  "webhookEndpoints (delete_endpoints_of db o') = filter (\<lambda>w. we_orgId w \<noteq> o') (webhookEndpoints db)"
  "webhookDeliveries (delete_users_of db o') = webhookDeliveries db"
  "webhookDeliveries (delete_api_keys_of db o') = webhookDeliveries db"
  "webhookDeliveries (delete_checks_of db o') = webhookDeliveries db"
  "webhookDeliveries (delete_endpoints_of db o') =
     filter (\<lambda>d. wd_endpointId d \<notin> we_id ` set (filter (\<lambda>w. we_orgId w = o') (webhookEndpoints db))) (webhookDeliveries db)"
  by (simp_all add: delete_users_of_def delete_api_keys_of_def delete_endpoints_of_def delete_checks_of_def Let_def)

lemma delete_of_audit_ids:
  "map ae_id (auditEvents (delete_users_of db o')) = map ae_id (auditEvents db)"
  "map ae_id (auditEvents (delete_api_keys_of db o')) = map ae_id (auditEvents db)"
  "map ae_id (auditEvents (delete_endpoints_of db o')) = map ae_id (auditEvents db)"
  "map ae_id (auditEvents (delete_checks_of db o')) = map ae_id (auditEvents db)"
  by (simp_all add: delete_users_of_def delete_api_keys_of_def delete_endpoints_of_def delete_checks_of_def
      Let_def comp_def if_distrib [of ae_id])

lemma delete_of_organizations [simp]:
  "organizations (delete_users_of db o') = organizations db" "organizations (delete_api_keys_of db o') = organizations db"
  "organizations (delete_endpoints_of db o') = organizations db" "organizations (delete_checks_of db o') = organizations db"
  by (simp_all add: delete_users_of_def delete_api_keys_of_def delete_endpoints_of_def delete_checks_of_def Let_def)

lemma hardDelete_succeeds:
  assumes "org_exists db orgId" "auditId \<notin> ae_id ` set (auditEvents db)"
  shows "\<exists>db'. hardDeleteOrganizationData dbnow auditId db orgId now = Inr (purge_counts db orgId, db')"
proof -
  define db1 where "db1 = delete_endpoints_of (delete_checks_of (delete_api_keys_of (delete_users_of db orgId) orgId) orgId) orgId"
  define db2 where "db2 = db1\<lparr>invoiceRequests := filter (\<lambda>r. ir_orgId r \<noteq> orgId) (invoiceRequests db1),
      organizations := map (\<lambda>o'. if o_id o' = orgId
        then o'\<lparr>o_name := PURGED_ORG_NAME, o_purgedAt := Some (us_of now)\<rparr> else o') (organizations db1)\<rparr>"
  have "map o_id (organizations db2) = map o_id (organizations db)" by (simp add: db2_def db1_def)
  then have "o_id ` set (organizations db2) = o_id ` set (organizations db)" by (metis set_map)
  then have "org_exists db2 orgId" using assms(1) by (simp add: org_exists_def)
  moreover have "map ae_id (auditEvents db2) = map ae_id (auditEvents db)"
    by (simp add: db2_def db1_def delete_of_audit_ids)
  then have "auditId \<notin> ae_id ` set (auditEvents db2)" using assms(2) by (metis set_map)
  ultimately have "\<exists>db'. recordAuditEvent dbnow auditId db2 (org_audit orgId None a t i m) now = Inr db'" for a t i m
    by (simp add: recordAuditEvent_def insert_audit_event_def org_audit_def)
  then show ?thesis
    unfolding hardDeleteOrganizationData_def Let_def db1_def [symmetric] db2_def [symmetric] and_then_Inr by blast
qed

lemma hardDelete_tables:
  assumes "hardDeleteOrganizationData dbnow auditId db o' now = Inr (counts, db')"
  shows "creditLedger db' = creditLedger db" "batches db' = filter (\<lambda>b. b_orgId b \<noteq> o') (batches db)"
    "emailChecks db' = filter (\<lambda>r. ec_orgId r \<noteq> o') (emailChecks db)"
    "phoneChecks db' = filter (\<lambda>r. pc_orgId r \<noteq> o') (phoneChecks db)"
    "organizations db' = map (\<lambda>r. if o_id r = o' then r\<lparr>o_name := PURGED_ORG_NAME, o_purgedAt := Some (us_of now)\<rparr> else r)
       (organizations db)"
  using assms by (auto simp: hardDeleteOrganizationData_def Let_def and_then_Inr dest!: recordAuditEvent_Inr)

lemma month_of_yday_length:
  assumes "0 \<le> yd" "yd < (if leap then 366 else 365)"
  shows "yd - month_starts leap ! nat (month_of_yday leap yd) + 1 \<le> month_length leap (month_of_yday leap yd)"
  using assms by (cases leap) (auto simp: month_of_yday_def month_starts_def month_length_def)

lemma utc_date_le: "utc_date t \<le> month_length (leap_year (utc_year t)) (utc_month t)"
  using month_of_yday_length [OF utc_yday_bounds] by (simp add: utc_date_def utc_month_def)

lemma pg_minus_years_same:
  assumes "utc_date t \<le> month_length (leap_year (utc_year t - n)) (utc_month t)"
  shows "pg_minus_years t n = set_utc_full_year t (utc_year t - n)"
  using assms by (simp add: pg_minus_years_def set_utc_full_year_def Let_def min_def)

lemma month_length_leap: "m \<noteq> 1 \<Longrightarrow> 0 \<le> m \<Longrightarrow> m \<le> 11 \<Longrightarrow> month_length l m = month_length l' m"
proof -
  assume m: "m \<noteq> 1" "0 \<le> m" "m \<le> 11"
  then have "nat m \<noteq> 1" "nat m < 12" by auto
  then show ?thesis unfolding month_length_def by (auto simp: nth_Cons' split: if_splits)
qed

lemma off_leap_day:
  assumes "\<not> (utc_month t = 1 \<and> utc_date t = 29)"
  shows "utc_date t \<le> month_length l (utc_month t)"
proof (cases "utc_month t = 1")
  case True
  then have "utc_date t \<le> 28"
    using assms utc_date_le [of t] by (auto simp: month_length_def split: if_splits)
  then show ?thesis using True by (simp add: month_length_def)
next
  case False
  have "0 \<le> utc_month t" "utc_month t \<le> 11"
    using month_of_yday_bounds [OF utc_yday_bounds] by (auto simp: utc_month_def)
  then show ?thesis using utc_date_le [of t] month_length_leap [OF False] by metis
qed

section \<open>Properties\<close>

text \<open>On every day but 29 February the ledger purge of a worker whose clock agrees with the
  database clock passes the trigger: it removes exactly the entries of at least three years and
  keeps all others.\<close>

theorem ledger_purge_off_leap_day:
  assumes "ms_of dbnow = now" "\<not> (utc_month now = 1 \<and> utc_date now = 29)"
  shows "\<exists>n. purgeExpiredLedgerEntries dbnow db now = Inr (n, db\<lparr>creditLedger :=
      filter (\<lambda>e. us_of (pg_minus_years now 3) < l_createdAt e) (creditLedger db)\<rparr>)"
proof -
  have eq: "ledgerRetentionCutoff now = pg_minus_years now 3"
    using pg_minus_years_same [OF off_leap_day [OF assms(2)], of 3]
    by (simp add: ledgerRetentionCutoff_def LEDGER_RETENTION_YEARS_def)
  have "us_of (ledgerRetentionCutoff now) \<le> trigger_cutoff dbnow"
    by (simp add: trigger_cutoff_def assms(1) eq)
  then have "list_all (\<lambda>e. l_createdAt e \<le> us_of (ledgerRetentionCutoff now) \<longrightarrow> l_createdAt e \<le> trigger_cutoff dbnow) (creditLedger db)"
    by (auto simp: list_all_iff)
  then show ?thesis
    by (simp add: purgeExpiredLedgerEntries_def Let_def eq not_le)
qed

text \<open>C38: on 29 February the JavaScript cut-off is 1 March three years before, one day past the
  trigger's 28 February, so an entry of that day makes the whole purge raise.\<close>

definition leap_noon :: time_ms where "leap_noon = date_utc 2024 1 29 + 43200000"



text \<open>C39: purging an organisation leaves no row of it behind in any table of customer data, no
  delivery of one of its endpoints, not its name, and does not touch the ledger.\<close>

theorem hardDelete_complete:
  assumes "hardDeleteOrganizationData dbnow auditId db orgId now = Inr (counts, db')"
  shows "orgId \<notin> u_orgId ` set (users db') \<and> orgId \<notin> k_orgId ` set (apiKeys db')
    \<and> orgId \<notin> ec_orgId ` set (emailChecks db') \<and> orgId \<notin> pc_orgId ` set (phoneChecks db')
    \<and> orgId \<notin> b_orgId ` set (batches db') \<and> orgId \<notin> we_orgId ` set (webhookEndpoints db')
    \<and> orgId \<notin> ir_orgId ` set (invoiceRequests db')
    \<and> wd_endpointId ` set (webhookDeliveries db')
        \<inter> we_id ` {w \<in> set (webhookEndpoints db). we_orgId w = orgId} = {}
    \<and> o_name ` {o' \<in> set (organizations db'). o_id o' = orgId} \<subseteq> {PURGED_ORG_NAME}
    \<and> creditLedger db' = creditLedger db"
proof -
  define db1 where "db1 = delete_endpoints_of (delete_checks_of (delete_api_keys_of (delete_users_of db orgId) orgId) orgId) orgId"
  define db2 where "db2 = db1\<lparr>invoiceRequests := filter (\<lambda>r. ir_orgId r \<noteq> orgId) (invoiceRequests db1),
      organizations := map (\<lambda>o'. if o_id o' = orgId
        then o'\<lparr>o_name := PURGED_ORG_NAME, o_purgedAt := Some (us_of now)\<rparr> else o') (organizations db1)\<rparr>"
  obtain row where db': "db' = db2\<lparr>auditEvents := auditEvents db2 @ [row]\<rparr>"
    using assms
    unfolding hardDeleteOrganizationData_def Let_def and_then_Inr db1_def [symmetric] db2_def [symmetric]
    by (auto dest: recordAuditEvent_Inr)
  have "o_name ` {o' \<in> set (organizations db'). o_id o' = orgId} \<subseteq> {PURGED_ORG_NAME}"
  proof (rule image_subsetI)
    fix x
    assume x: "x \<in> {o' \<in> set (organizations db'). o_id o' = orgId}"
    have orgs: "organizations db' = map (\<lambda>o'. if o_id o' = orgId
        then o'\<lparr>o_name := PURGED_ORG_NAME, o_purgedAt := Some (us_of now)\<rparr> else o') (organizations db1)"
      by (simp add: db' db2_def)
    obtain y where "x = (if o_id y = orgId
        then y\<lparr>o_name := PURGED_ORG_NAME, o_purgedAt := Some (us_of now)\<rparr> else y)"
      using x unfolding orgs set_map by blast
    then show "o_name x \<in> {PURGED_ORG_NAME}" using x by (cases "o_id y = orgId") simp_all
  qed
  moreover have "wd_endpointId ` set (webhookDeliveries db')
      \<inter> we_id ` {w \<in> set (webhookEndpoints db). we_orgId w = orgId} = {}"
    by (auto simp: db' db2_def db1_def)
  moreover have "orgId \<notin> u_orgId ` set (users db')" "orgId \<notin> k_orgId ` set (apiKeys db')"
    "orgId \<notin> ec_orgId ` set (emailChecks db')" "orgId \<notin> pc_orgId ` set (phoneChecks db')"
    "orgId \<notin> b_orgId ` set (batches db')" "orgId \<notin> we_orgId ` set (webhookEndpoints db')"
    "orgId \<notin> ir_orgId ` set (invoiceRequests db')" "creditLedger db' = creditLedger db"
    by (auto simp: db' db2_def db1_def)
  ultimately show ?thesis by blast
qed

text \<open>Deletion sees exactly what reading sees: with unique ids, a delete of an email check
  reports success exactly when a read would have returned it, and afterwards a read misses it.\<close>

theorem delete_sees_what_get_sees:
  assumes "distinct (map ec_id (emailChecks db))"
  shows "(fst (deleteEmailCheckForOrg db checkId orgId now) \<longleftrightarrow> getEmailCheckForOrg db checkId orgId now \<noteq> None)
    \<and> getEmailCheckForOrg (snd (deleteEmailCheckForOrg db checkId orgId now)) checkId orgId now = None"
proof -
  let ?hit = "\<lambda>r. ec_id r = checkId \<and> ec_orgId r = orgId \<and> us_of now < ec_expiresAt r"
  have one: "filter ?hit (emailChecks db) \<noteq> [] \<longleftrightarrow> length (filter ?hit (emailChecks db)) = 1"
  proof
    assume "filter ?hit (emailChecks db) \<noteq> []"
    then obtain r where r: "r \<in> set (emailChecks db)" "?hit r" by (auto simp: filter_empty_conv)
    then show "length (filter ?hit (emailChecks db)) = 1"
      using filter_unique_key [OF assms r(1), of "\<lambda>r. ec_orgId r = orgId \<and> us_of now < ec_expiresAt r"] by simp
  qed auto
  have get: "getEmailCheckForOrg db' checkId orgId now =
      (if active_org db orgId = None then None else first_row (filter ?hit (emailChecks db')))"
    if "organizations db' = organizations db" for db'
  proof -
    have "filter (\<lambda>r. ec_id r = checkId \<and> ec_orgId r = orgId \<and> active_org db' (ec_orgId r) \<noteq> None \<and> us_of now < ec_expiresAt r) (emailChecks db')
      = (if active_org db orgId = None then [] else filter ?hit (emailChecks db'))"
      using that by (auto simp: active_org_def filter_empty_conv intro!: filter_cong)
    then show ?thesis by (simp add: getEmailCheckForOrg_def first_row_def)
  qed
  have "filter ?hit (filter (\<lambda>r. \<not> ?hit r) (emailChecks db)) = []" by (auto simp: filter_empty_conv)
  then show ?thesis
    using one by (cases "active_org db orgId")
      (simp_all add: deleteEmailCheckForOrg_def get Let_def del: filter_filter not_None_eq)
qed


section \<open>Witnesses\<close>

lemma ledger_purge_off_leap_day_witness:
  "\<exists>n. purgeExpiredLedgerEntries (us_of 0) (demo_db 3) 0 = Inr (n, (demo_db 3)\<lparr>creditLedger :=
      filter (\<lambda>e. us_of (pg_minus_years 0 3) < l_createdAt e) (creditLedger (demo_db 3))\<rparr>)"
  by (rule ledger_purge_off_leap_day) (simp, code_simp)

lemma hardDelete_complete_witness:
  "\<exists>c db'. hardDeleteOrganizationData 0 ''a-1'' demo_batch_db ''org-1'' 0 = Inr (c, db')
     \<and> ''org-1'' \<notin> b_orgId ` set (batches db') \<and> creditLedger db' = creditLedger demo_batch_db"
proof -
  have "org_exists demo_batch_db ''org-1''" "''a-1'' \<notin> ae_id ` set (auditEvents demo_batch_db)" by code_simp+
  from hardDelete_succeeds [OF this, of 0 0]
  obtain c db' where h: "hardDeleteOrganizationData 0 ''a-1'' demo_batch_db ''org-1'' 0 = Inr (c, db')" by (elim exE)
  have x: "''org-1'' \<notin> b_orgId ` set (batches db')" "creditLedger db' = creditLedger demo_batch_db"
    using hardDelete_complete [OF h] by simp_all
  show ?thesis by (rule exI [of _ c], rule exI [of _ db'], intro conjI h x)
qed

lemma delete_sees_what_get_sees_witness:
  "fst (deleteEmailCheckForOrg demo_db_charged ''c-1'' ''org-1'' 9)
    \<and> getEmailCheckForOrg (snd (deleteEmailCheckForOrg demo_db_charged ''c-1'' ''org-1'' 9)) ''c-1'' ''org-1'' 9 = None"
proof -
  have "distinct (map ec_id (emailChecks demo_db_charged))" by code_simp
  moreover have "getEmailCheckForOrg demo_db_charged ''c-1'' ''org-1'' 9 \<noteq> None" by code_simp
  ultimately show ?thesis using delete_sees_what_get_sees [of demo_db_charged "''c-1''" "''org-1''" 9] by blast
qed

end
