(* ===== verification/Credit_System.thy ===== *)
theory Credit_System
  imports Db_Lifecycle
begin

text \<open>
  The credit accounting as a whole: API requests, workers, the dashboard and the sweep as a
  transition system over the database. Each step is one transaction of
  \<^verbatim>\<open>packages/db/src\<close>; between a worker's claim and its settlement any other step may
  happen. A worker's claimed batch is a job \<open>(batchId, orgId, reserved)\<close> in memory; it ends
  by completion, by failure, or by a crash that leaves no trace.

  Identifiers from \<open>randomUUID()\<close> and SHA-256 digests never end in \<open>:refund\<close>, and
  generated ids are new; these are premises of the steps that use them. The three-year ledger
  purge is left out: it changes balances (see \<open>ledger_purge_changes_balance\<close>).
\<close>

type_synonym job = "uuid \<times> uuid \<times> int"

record sys =
  s_db :: database
  s_jobs :: "job list"

definition plain_ref :: "string \<Rightarrow> bool" where
  "plain_ref r = (\<not> suffix '':refund'' r)"

definition job_of :: "batch \<Rightarrow> job" where
  "job_of b = (b_id b, b_orgId b, b_totalRows b)"

definition jobs_after_claim :: "claim_batch_result \<Rightarrow> job list \<Rightarrow> job list" where
  "jobs_after_claim r js =
     (case r of Claimed b _ \<Rightarrow> job_of b # js | ClaimOrgUnavailable b \<Rightarrow> job_of b # js | NotClaimable \<Rightarrow> js)"

definition fresh_ledger_id :: "tx_env \<Rightarrow> database \<Rightarrow> bool" where
  "fresh_ledger_id env db = (tx_ledger_id env \<notin> l_id ` set (creditLedger db))"

inductive credit_step :: "sys \<Rightarrow> sys \<Rightarrow> bool" where
  email_check: "createEmailCheckWithDebit env (s_db s) input now = Inr (r, db') \<Longrightarrow> plain_ref (tx_uuid env)
    \<Longrightarrow> credit_step s (s\<lparr>s_db := db'\<rparr>)"
| phone_check: "createPhoneCheckWithDebit env (s_db s) pinput now = Inr (pr, db') \<Longrightarrow> plain_ref (tx_uuid env)
    \<Longrightarrow> credit_step s (s\<lparr>s_db := db'\<rparr>)"
| create_batch: "createBatchWithReservation env (s_db s) binput now = Inr (br, db') \<Longrightarrow> plain_ref (ci_batchId binput)
    \<Longrightarrow> 0 \<le> ci_totalRows binput \<Longrightarrow> ci_batchId binput \<notin> fst ` set (s_jobs s)
    \<Longrightarrow> credit_step s (s\<lparr>s_db := db'\<rparr>)"
| claim_batch: "claimBatchForProcessing (s_db s) i = (cr, db')
    \<Longrightarrow> credit_step s (s\<lparr>s_db := db', s_jobs := jobs_after_claim cr (s_jobs s)\<rparr>)"
| progress: "updateBatchProgress (s_db s) i k = Inr db' \<Longrightarrow> credit_step s (s\<lparr>s_db := db'\<rparr>)"
| complete: "j \<in> set (s_jobs s) \<Longrightarrow> j = (co_batchId ci, co_orgId ci, co_reservedCredits ci)
    \<Longrightarrow> 0 \<le> co_chargedCredits ci \<Longrightarrow> completeBatch env (s_db s) ci now = Inr db'
    \<Longrightarrow> credit_step s (s\<lparr>s_db := db', s_jobs := filter (\<lambda>k. k \<noteq> j) (s_jobs s)\<rparr>)"
| fail: "(i, o', n) \<in> set (s_jobs s) \<Longrightarrow> failBatch env (s_db s) i o' n err = Inr db' \<Longrightarrow> fresh_ledger_id env (s_db s)
    \<Longrightarrow> credit_step s (s\<lparr>s_db := db', s_jobs := filter (\<lambda>k. k \<noteq> (i, o', n)) (s_jobs s)\<rparr>)"
| crash: "credit_step s (s\<lparr>s_jobs := filter (\<lambda>k. k \<noteq> j) (s_jobs s)\<rparr>)"
| delete_batch: "deleteBatchForOrg env (s_db s) i o' = Inr (dr, db') \<Longrightarrow> fresh_ledger_id env (s_db s)
    \<Longrightarrow> credit_step s (s\<lparr>s_db := db'\<rparr>)"
| grant: "grantCreditsWithAudit genv sha256Hex (s_db s) o' credits note now = Inr (gr, db')
    \<Longrightarrow> plain_ref (grantReference sha256Hex (nat credits) (js_trim note))
    \<Longrightarrow> credit_step s (s\<lparr>s_db := db'\<rparr>)"
| wipe: "wipeCheckDataForOrg (s_db s) (store :: string list) o' deleteObjects = Inr (wr, db', store')
    \<Longrightarrow> credit_step s (s\<lparr>s_db := db'\<rparr>)"
| expire_batches: "deleteBatchesByIds (s_db s) ids = (cnt, db') \<Longrightarrow> credit_step s (s\<lparr>s_db := db'\<rparr>)"
| purge_org: "hardDeleteOrganizationData dbnow auditId (s_db s) o' now = Inr (counts, db')
    \<Longrightarrow> credit_step s (s\<lparr>s_db := db'\<rparr>)"
| purge_checks: "purgeExpiredChecks (s_db s) now = (ec, db') \<Longrightarrow> credit_step s (s\<lparr>s_db := db'\<rparr>)"
| soft_delete_org: "softDeleteOrganization dbnow auditId (s_db s) o' actor now now' = Inr (ok, db')
    \<Longrightarrow> credit_step s (s\<lparr>s_db := db'\<rparr>)"

section \<open>The invariant\<close>

definition ref_entries :: "ledger_entry list \<Rightarrow> uuid \<Rightarrow> string \<Rightarrow> ledger_entry list" where
  "ref_entries L o' r = filter (\<lambda>e. l_orgId e = o' \<and> l_referenceId e = Some r) L"

definition ref_sum :: "ledger_entry list \<Rightarrow> uuid \<Rightarrow> string \<Rightarrow> int" where
  "ref_sum L o' r = sum_list (map l_delta (ref_entries L o' r))"

definition taken :: "ledger_entry list \<Rightarrow> uuid \<Rightarrow> string \<Rightarrow> bool" where
  "taken L o' r = (ref_entries L o' r \<noteq> [])"

text \<open>A reservation of \<open>n\<close> credits for batch \<open>i\<close>, and what came back of it.\<close>

definition reserved :: "ledger_entry list \<Rightarrow> uuid \<Rightarrow> uuid \<Rightarrow> int \<Rightarrow> bool" where
  "reserved L o' i n = (taken L o' i \<and> ref_sum L o' i = - n \<and> 0 \<le> n)"

definition unsettled :: "ledger_entry list \<Rightarrow> uuid \<Rightarrow> uuid \<Rightarrow> bool" where
  "unsettled L o' i = (\<not> taken L o' (refundReference i))"

definition batch_ok :: "ledger_entry list \<Rightarrow> batch \<Rightarrow> bool" where
  "batch_ok L b =
     (reserved L (b_orgId b) (b_id b) (b_totalRows b)
      \<and> (case b_status b of
           Done \<Rightarrow> 0 \<le> ref_sum L (b_orgId b) (refundReference (b_id b))
                    \<and> ref_sum L (b_orgId b) (refundReference (b_id b)) \<le> b_totalRows b
         | Failed \<Rightarrow> ref_sum L (b_orgId b) (refundReference (b_id b)) = b_totalRows b
         | _ \<Rightarrow> unsettled L (b_orgId b) (b_id b)))"

definition job_ok :: "ledger_entry list \<Rightarrow> batch list \<Rightarrow> job \<Rightarrow> bool" where
  "job_ok L bs j =
     (case j of (i, o', n) \<Rightarrow> reserved L o' i n \<and> unsettled L o' i
        \<and> (\<forall>b \<in> set bs. b_id b = i \<longrightarrow> b_orgId b = o' \<and> b_totalRows b = n \<and> b_status b = Processing))"

definition refunds_ok :: "ledger_entry list \<Rightarrow> bool" where
  "refunds_ok L = (\<forall>o' i. taken L o' (refundReference i) \<longrightarrow>
     taken L o' i \<and> 0 \<le> ref_sum L o' (refundReference i) \<and> ref_sum L o' (refundReference i) \<le> - ref_sum L o' i)"

definition balances_ok :: "ledger_entry list \<Rightarrow> bool" where
  "balances_ok L = (\<forall>o'. 0 \<le> sum_list (map l_delta (filter (\<lambda>e. l_orgId e = o') L)))"

definition credit_inv :: "sys \<Rightarrow> bool" where
  "credit_inv s =
     (let L = creditLedger (s_db s); bs = batches (s_db s)
      in pg.refs_unique (s_db s) \<and> balances_ok L \<and> refunds_ok L \<and> distinct (map b_id bs)
         \<and> distinct (map fst (s_jobs s)) \<and> (\<forall>b \<in> set bs. batch_ok L b) \<and> (\<forall>j \<in> set (s_jobs s). job_ok L bs j))"

section \<open>Appending one entry\<close>

lemma refundReference_inj [simp]: "refundReference i = refundReference j \<longleftrightarrow> i = j"
  by (simp add: refundReference_def)

lemma plain_ref_not_refund [simp]: "plain_ref r \<Longrightarrow> r \<noteq> refundReference i"
  by (auto simp: plain_ref_def refundReference_def suffix_def)

lemma ref_entries_append:
  "ref_entries (L @ [e]) o' r = ref_entries L o' r @ (if l_orgId e = o' \<and> l_referenceId e = Some r then [e] else [])"
  by (simp add: ref_entries_def)

lemma taken_append: "taken (L @ [e]) o' r \<longleftrightarrow> taken L o' r \<or> (l_orgId e = o' \<and> l_referenceId e = Some r)"
  by (auto simp: taken_def ref_entries_append)

lemma ref_sum_append:
  "ref_sum (L @ [e]) o' r = ref_sum L o' r + (if l_orgId e = o' \<and> l_referenceId e = Some r then l_delta e else 0)"
  by (simp add: ref_sum_def ref_entries_append)

lemma ref_sum_not_taken: "\<not> taken L o' r \<Longrightarrow> ref_sum L o' r = 0"
  by (simp add: taken_def ref_sum_def)

lemma insert_ledger_taken:
  "insert_ledger db e = Inr db' \<Longrightarrow> l_referenceId e = Some r \<Longrightarrow> \<not> taken (creditLedger db) (l_orgId e) r"
  using insert_ledger_Inr(3) [of db e db']
  by (auto simp: taken_def ref_entries_def reference_taken_def filter_empty_conv)

lemma insert_ledger_skip_fresh:
  "insert_ledger_skip db e = Inr (b, db') \<Longrightarrow> (\<And>c. insert_ledger db e \<noteq> Inl (UniqueViolation c)) \<Longrightarrow> insert_ledger db e = Inr db'"
  by (auto elim!: insert_ledger_skip_cases)

lemma balances_ok_append:
  "balances_ok L \<Longrightarrow> 0 \<le> sum_list (map l_delta (filter (\<lambda>f. l_orgId f = l_orgId e) L)) + l_delta e \<Longrightarrow> balances_ok (L @ [e])"
  by (auto simp: balances_ok_def)

text \<open>An entry that is neither the reservation nor the refund of a batch leaves it as it was.\<close>

definition elsewhere :: "ledger_entry \<Rightarrow> uuid \<Rightarrow> uuid \<Rightarrow> bool" where
  "elsewhere e o' i = (l_orgId e = o' \<longrightarrow> l_referenceId e \<noteq> Some i \<and> l_referenceId e \<noteq> Some (refundReference i))"

lemma elsewhere_frame:
  assumes "elsewhere e o' i"
  shows "reserved (L @ [e]) o' i n = reserved L o' i n" "unsettled (L @ [e]) o' i = unsettled L o' i"
    "ref_sum (L @ [e]) o' (refundReference i) = ref_sum L o' (refundReference i)"
  using assms by (auto simp: elsewhere_def reserved_def unsettled_def taken_append ref_sum_append)

lemma batch_ok_frame: "elsewhere e (b_orgId b) (b_id b) \<Longrightarrow> batch_ok (L @ [e]) b = batch_ok L b"
  by (simp add: batch_ok_def elsewhere_frame split: batch_status.splits)

lemma job_ok_frame: "elsewhere e (fst (snd j)) (fst j) \<Longrightarrow> job_ok (L @ [e]) bs j = job_ok L bs j"
  by (auto simp: job_ok_def elsewhere_frame split: prod.splits)

lemma batch_ok_reserved: "batch_ok L b \<Longrightarrow> taken L (b_orgId b) (b_id b)"
  by (simp add: batch_ok_def reserved_def)

lemma job_ok_reserved: "job_ok L bs j \<Longrightarrow> taken L (fst (snd j)) (fst j)"
  by (auto simp: job_ok_def reserved_def split: prod.splits)

lemma plain_elsewhere:
  assumes "l_referenceId e = Some r" "plain_ref r" "\<not> taken L (l_orgId e) r" "taken L o' i"
  shows "elsewhere e o' i"
  using assms by (auto simp: elsewhere_def)

lemma refund_elsewhere:
  assumes "l_referenceId e = Some (refundReference k)" "\<not> taken L (l_orgId e) (refundReference k)" "taken L o' i"
    and "(o', i) \<noteq> (l_orgId e, k)"
  shows "elsewhere e o' i"
  using assms by (auto simp: elsewhere_def)

lemma refunds_ok_plain:
  assumes "refunds_ok L" "l_referenceId e = Some r" "plain_ref r" "\<not> taken L (l_orgId e) r"
  shows "refunds_ok (L @ [e])"
  unfolding refunds_ok_def
proof (intro allI impI)
  fix o' i
  assume "taken (L @ [e]) o' (refundReference i)"
  then have "taken L o' (refundReference i)" using assms(2,3) by (auto simp: taken_append)
  then show "taken (L @ [e]) o' i \<and> 0 \<le> ref_sum (L @ [e]) o' (refundReference i)
      \<and> ref_sum (L @ [e]) o' (refundReference i) \<le> - ref_sum (L @ [e]) o' i"
    using assms by (auto simp: refunds_ok_def taken_append ref_sum_append)
qed

lemma refunds_ok_refund:
  assumes "refunds_ok L" "l_referenceId e = Some (refundReference k)" "reserved L (l_orgId e) k n"
    and "unsettled L (l_orgId e) k" "0 \<le> l_delta e" "l_delta e \<le> n"
  shows "refunds_ok (L @ [e])"
  unfolding refunds_ok_def
proof (intro allI impI)
  fix o' i
  assume t: "taken (L @ [e]) o' (refundReference i)"
  show "taken (L @ [e]) o' i \<and> 0 \<le> ref_sum (L @ [e]) o' (refundReference i)
      \<and> ref_sum (L @ [e]) o' (refundReference i) \<le> - ref_sum (L @ [e]) o' i"
  proof (cases "o' = l_orgId e \<and> i = k")
    case True
    then show ?thesis
      using assms by (auto simp: reserved_def unsettled_def taken_append ref_sum_append ref_sum_not_taken)
  next
    case False
    then have "taken L o' (refundReference i)" using t assms(2) by (auto simp: taken_append)
    then have "taken L o' i" "0 \<le> ref_sum L o' (refundReference i)" "ref_sum L o' (refundReference i) \<le> - ref_sum L o' i"
      using assms(1) by (auto simp: refunds_ok_def)
    moreover have "elsewhere e o' i"
      using refund_elsewhere [OF assms(2) _ \<open>taken L o' i\<close>] assms(4) False by (auto simp: unsettled_def)
    ultimately show ?thesis by (auto simp: elsewhere_def taken_append ref_sum_append)
  qed
qed

section \<open>Preservation\<close>

lemma refs_unique_cong: "creditLedger db = creditLedger db2 \<Longrightarrow> pg.refs_unique db = pg.refs_unique db2"
  by (simp add: pg.refs_unique_def)

lemma credit_inv_cong:
  assumes "creditLedger db = creditLedger (s_db s)" "batches db = batches (s_db s)"
  shows "credit_inv (s\<lparr>s_db := db\<rparr>) = credit_inv s"
  using assms refs_unique_cong [OF assms(1)] by (simp add: credit_inv_def)

lemma credit_inv_D:
  assumes "credit_inv s"
  shows "pg.refs_unique (s_db s)" "balances_ok (creditLedger (s_db s))" "refunds_ok (creditLedger (s_db s))"
    "distinct (map b_id (batches (s_db s)))" "distinct (map fst (s_jobs s))"
    "b \<in> set (batches (s_db s)) \<Longrightarrow> batch_ok (creditLedger (s_db s)) b"
    "j \<in> set (s_jobs s) \<Longrightarrow> job_ok (creditLedger (s_db s)) (batches (s_db s)) j"
  using assms by (auto simp: credit_inv_def Let_def)

lemma append_common:
  assumes "credit_inv s" "insert_ledger db e = Inr db'" "creditLedger db = creditLedger (s_db s)"
    and "0 \<le> ledger_sum db (l_orgId e) + l_delta e"
  shows "pg.refs_unique db'" "balances_ok (creditLedger db')"
    "creditLedger db' = creditLedger (s_db s) @ [e]" "batches db' = batches db"
proof -
  show L: "creditLedger db' = creditLedger (s_db s) @ [e]" and "batches db' = batches db"
    using insert_ledger_Inr(1) [OF assms(2)] assms(3) by simp_all
  have "pg.refs_unique db" using credit_inv_D(1) [OF assms(1)] refs_unique_cong [OF assms(3)] by simp
  then show "pg.refs_unique db'" by (rule pg.append_refs_unique [OF assms(2)])
  show "balances_ok (creditLedger db')"
    unfolding L using credit_inv_D(2) [OF assms(1)] assms(3,4)
    by (intro balances_ok_append) (simp_all add: ledger_sum_def org_ledger_def)
qed

lemma append_plain:
  assumes "credit_inv s" "insert_ledger db e = Inr db'" "creditLedger db = creditLedger (s_db s)"
    and "l_referenceId e = Some r" "plain_ref r"
  shows "refunds_ok (creditLedger (s_db s) @ [e])"
    "b \<in> set (batches (s_db s)) \<Longrightarrow> batch_ok (creditLedger (s_db s) @ [e]) b"
    "j \<in> set (s_jobs s) \<Longrightarrow> job_ok (creditLedger (s_db s) @ [e]) (batches (s_db s)) j"
proof -
  let ?L = "creditLedger (s_db s)"
  have nt: "\<not> taken ?L (l_orgId e) r" using insert_ledger_taken [OF assms(2,4)] assms(3) by simp
  show "refunds_ok (?L @ [e])"
    by (rule refunds_ok_plain [OF credit_inv_D(3) [OF assms(1)] assms(4,5) nt])
  show "b \<in> set (batches (s_db s)) \<Longrightarrow> batch_ok (?L @ [e]) b"
    using credit_inv_D(6) [OF assms(1)] batch_ok_frame batch_ok_reserved plain_elsewhere [OF assms(4,5) nt] by blast
  show "j \<in> set (s_jobs s) \<Longrightarrow> job_ok (?L @ [e]) (batches (s_db s)) j"
    using credit_inv_D(7) [OF assms(1)] job_ok_frame job_ok_reserved plain_elsewhere [OF assms(4,5) nt] by blast
qed

lemma append_refund:
  assumes "credit_inv s" "insert_ledger db e = Inr db'" "creditLedger db = creditLedger (s_db s)"
    and "l_referenceId e = Some (refundReference i)" "reserved (creditLedger (s_db s)) (l_orgId e) i n"
    and "0 \<le> l_delta e" "l_delta e \<le> n"
  shows "refunds_ok (creditLedger (s_db s) @ [e])"
    "b \<in> set (batches (s_db s)) \<Longrightarrow> (b_orgId b, b_id b) \<noteq> (l_orgId e, i) \<Longrightarrow> batch_ok (creditLedger (s_db s) @ [e]) b"
    "j \<in> set (s_jobs s) \<Longrightarrow> (fst (snd j), fst j) \<noteq> (l_orgId e, i) \<Longrightarrow> job_ok (creditLedger (s_db s) @ [e]) (batches (s_db s)) j"
    "reserved (creditLedger (s_db s) @ [e]) (l_orgId e) i n"
    "ref_sum (creditLedger (s_db s) @ [e]) (l_orgId e) (refundReference i) = l_delta e"
proof -
  let ?L = "creditLedger (s_db s)"
  have nt: "\<not> taken ?L (l_orgId e) (refundReference i)" using insert_ledger_taken [OF assms(2,4)] assms(3) by simp
  note else = refund_elsewhere [OF assms(4) nt]
  show "refunds_ok (?L @ [e])"
    using refunds_ok_refund [OF credit_inv_D(3) [OF assms(1)] assms(4,5) _ assms(6,7)] nt by (simp add: unsettled_def)
  show "b \<in> set (batches (s_db s)) \<Longrightarrow> (b_orgId b, b_id b) \<noteq> (l_orgId e, i) \<Longrightarrow> batch_ok (?L @ [e]) b"
    using credit_inv_D(6) [OF assms(1)] batch_ok_frame batch_ok_reserved else by blast
  show "j \<in> set (s_jobs s) \<Longrightarrow> (fst (snd j), fst j) \<noteq> (l_orgId e, i) \<Longrightarrow> job_ok (?L @ [e]) (batches (s_db s)) j"
    using credit_inv_D(7) [OF assms(1)] job_ok_frame job_ok_reserved else by blast
  show "reserved (?L @ [e]) (l_orgId e) i n" "ref_sum (?L @ [e]) (l_orgId e) (refundReference i) = l_delta e"
    using assms(4,5) nt by (auto simp: reserved_def taken_append ref_sum_append ref_sum_not_taken refundReference_def)
qed

lemma inv_plain_entry:
  assumes "credit_inv s" "insert_ledger db e = Inr db'" "creditLedger db = creditLedger (s_db s)"
    and "batches db = batches (s_db s)" "l_referenceId e = Some r" "plain_ref r"
    and "0 \<le> ledger_sum db (l_orgId e) + l_delta e"
  shows "credit_inv (s\<lparr>s_db := db'\<rparr>)"
  using append_common [OF assms(1,2,3,7)] append_plain [OF assms(1,2,3,5,6)] credit_inv_D(4,5) [OF assms(1)] assms(4)
  by (simp add: credit_inv_def Let_def)

lemma inv_create_batch:
  assumes "credit_inv s" "createBatchWithReservation env (s_db s) inp now = Inr (BatchCreated batch bal, db')"
    and "plain_ref (ci_batchId inp)" "0 \<le> ci_totalRows inp" "ci_batchId inp \<notin> fst ` set (s_jobs s)"
  shows "credit_inv (s\<lparr>s_db := db'\<rparr>)"
proof -
  let ?L = "creditLedger (s_db s)" and ?e = "reservation_entry env inp"
  note c = createBatch_created [OF assms(2)]
  have e: "l_referenceId ?e = Some (ci_batchId inp)" "l_orgId ?e = ci_orgId inp" "l_delta ?e = - ci_totalRows inp"
    by (simp_all add: reservation_entry_def)
  note app = append_plain [OF assms(1) c(8) _ e(1) assms(3), simplified]
  have "\<not> taken ?L (ci_orgId inp) (ci_batchId inp)" using insert_ledger_taken [OF c(8) e(1)] e by simp
  moreover from this have "\<not> taken ?L (ci_orgId inp) (refundReference (ci_batchId inp))"
    using credit_inv_D(3) [OF assms(1)] by (auto simp: refunds_ok_def)
  ultimately have new: "batch_ok (?L @ [?e]) batch"
    using c(3-6) e assms(4)
    by (auto simp: batch_ok_def reserved_def unsettled_def taken_append ref_sum_append ref_sum_not_taken refundReference_def)
  have jobs: "job_ok (?L @ [?e]) (batches (s_db s) @ [batch]) j" if "j \<in> set (s_jobs s)" for j
  proof -
    have "fst j \<noteq> b_id batch" using that assms(5) c(3) by force
    then show ?thesis using app(3) [OF that] by (auto simp: job_ok_def split: prod.splits)
  qed
  have com: "pg.refs_unique db'" "balances_ok (creditLedger db')" "creditLedger db' = ?L @ [?e]"
      "batches db' = batches (s_db s) @ [batch]"
    using append_common [OF assms(1) c(8)] c(1) e by simp_all
  have bs: "distinct (map b_id (batches (s_db s) @ [batch]))"
    using credit_inv_D(4) [OF assms(1)] c(3,7) by auto
  show ?thesis
    unfolding credit_inv_def Let_def
    using com bs credit_inv_D(5) [OF assms(1)] app(1,2) new jobs by auto
qed

text \<open>Settlement: the rows of one batch get a new status, and at most one refund is added.\<close>

lemma inv_settle:
  assumes inv: "credit_inv s" and job: "(i, o', n) \<in> set (s_jobs s)"
    and L': "creditLedger db' = creditLedger (s_db s) \<and> 0 = a \<or>
      (\<exists>db e. insert_ledger db e = Inr db' \<and> creditLedger db = creditLedger (s_db s)
         \<and> l_orgId e = o' \<and> l_referenceId e = Some (refundReference i) \<and> l_delta e = a)"
    and a: "0 \<le> a" "a \<le> n" "st = Done \<or> (st = Failed \<and> a = n)"
    and bs': "batches db' = map (\<lambda>b. if b_id b = i then f b else b) (batches (s_db s))"
    and f: "\<And>b. b_id (f b) = b_id b \<and> b_orgId (f b) = b_orgId b \<and> b_totalRows (f b) = b_totalRows b \<and> b_status (f b) = st"
  shows "credit_inv (s\<lparr>s_db := db', s_jobs := filter (\<lambda>k. k \<noteq> (i, o', n)) (s_jobs s)\<rparr>)"
proof -
  let ?L = "creditLedger (s_db s)" and ?L' = "creditLedger db'" and ?bs = "batches (s_db s)"
  have jok: "reserved ?L o' i n" "unsettled ?L o' i"
      "\<And>b. b \<in> set ?bs \<Longrightarrow> b_id b = i \<Longrightarrow> b_orgId b = o' \<and> b_totalRows b = n"
    using credit_inv_D(7) [OF inv job] by (auto simp: job_ok_def)
  have led: "pg.refs_unique db' \<and> balances_ok ?L' \<and> refunds_ok ?L' \<and> reserved ?L' o' i n
      \<and> ref_sum ?L' o' (refundReference i) = a
      \<and> (\<forall>b \<in> set ?bs. (b_orgId b, b_id b) \<noteq> (o', i) \<longrightarrow> batch_ok ?L' b)
      \<and> (\<forall>j \<in> set (s_jobs s). (fst (snd j), fst j) \<noteq> (o', i) \<longrightarrow> job_ok ?L' ?bs j)"
    using L'
  proof
    assume same: "creditLedger db' = ?L \<and> 0 = a"
    then show ?thesis
      using credit_inv_D(1,2,3,6,7) [OF inv] refs_unique_cong [of db' "s_db s"] jok(1,2)
      by (auto simp: unsettled_def ref_sum_not_taken)
  next
    assume "\<exists>db e. insert_ledger db e = Inr db' \<and> creditLedger db = ?L
         \<and> l_orgId e = o' \<and> l_referenceId e = Some (refundReference i) \<and> l_delta e = a"
    then obtain db e where e: "insert_ledger db e = Inr db'" "creditLedger db = ?L" "l_orgId e = o'"
      "l_referenceId e = Some (refundReference i)" "l_delta e = a" by blast
    have "0 \<le> ledger_sum db (l_orgId e)"
      using credit_inv_D(2) [OF inv] e(2) by (simp add: balances_ok_def ledger_sum_def org_ledger_def)
    then have nn: "0 \<le> ledger_sum db (l_orgId e) + l_delta e" using a(1) e(5) by simp
    note com = append_common [OF inv e(1,2) nn]
    have r: "reserved ?L (l_orgId e) i n" "0 \<le> l_delta e" "l_delta e \<le> n" using jok(1) a e by simp_all
    note ref = append_refund [OF inv e(1,2,4) r]
    show ?thesis using com(1,2) ref unfolding com(3) e(3,5) by blast
  qed
  have other: "j \<in> set (s_jobs s) \<Longrightarrow> j \<noteq> (i, o', n) \<Longrightarrow> fst j \<noteq> i" for j
    using credit_inv_D(5) [OF inv] job by (metis distinct_map fst_conv inj_onD)
  have "batch_ok ?L' b'" if mem: "b' \<in> set (batches db')" for b'
  proof -
    obtain b where b: "b \<in> set ?bs" "b' = (if b_id b = i then f b else b)" using mem unfolding bs' set_map by blast
    show ?thesis
    proof (cases "b_id b = i")
      case True
      then show ?thesis using b jok(3) [OF b(1) True] f [of b] led a by (auto simp: batch_ok_def)
    next
      case False
      then show ?thesis using b led by auto
    qed
  qed
  moreover have "job_ok ?L' (batches db') j" if "j \<in> set (s_jobs s)" "j \<noteq> (i, o', n)" for j
  proof -
    have ok: "job_ok ?L' ?bs j" "fst j \<noteq> i" using led that other by auto
    show ?thesis
      using ok unfolding bs' job_ok_def by (auto simp: f split: prod.splits)
  qed
  moreover have "map b_id (batches db') = map b_id ?bs" unfolding bs' using f by simp
  moreover have "distinct (map fst (filter (\<lambda>k. k \<noteq> (i, o', n)) (s_jobs s)))"
    using credit_inv_D(5) [OF inv] by (simp add: distinct_map_filter)
  ultimately show ?thesis
    unfolding credit_inv_def Let_def using led credit_inv_D(4) [OF inv] by simp
qed

lemma inv_filter_batches:
  assumes "credit_inv s" "creditLedger db' = creditLedger (s_db s)" "batches db' = filter P (batches (s_db s))"
  shows "credit_inv (s\<lparr>s_db := db'\<rparr>)"
proof -
  have "job_ok L bs j \<Longrightarrow> job_ok L (filter P bs) j" for L bs j by (auto simp: job_ok_def split: prod.splits)
  then show ?thesis
    using credit_inv_D [OF assms(1)] refs_unique_cong [OF assms(2)] assms(2,3)
    by (simp add: credit_inv_def Let_def distinct_map_filter)
qed

lemma inv_map_batches:
  assumes "credit_inv s" "creditLedger db' = creditLedger (s_db s)" "batches db' = map f (batches (s_db s))"
    and f: "\<And>b. b_id (f b) = b_id b \<and> b_orgId (f b) = b_orgId b \<and> b_totalRows (f b) = b_totalRows b \<and> b_status (f b) = b_status b"
  shows "credit_inv (s\<lparr>s_db := db'\<rparr>)"
proof -
  have "batch_ok L (f b) = batch_ok L b" for L b by (simp add: batch_ok_def f split: batch_status.splits)
  moreover have "job_ok L (map f bs) j = job_ok L bs j" for L bs j by (auto simp: job_ok_def f split: prod.splits)
  moreover have "map b_id (map f bs) = map b_id bs" for bs by (simp add: f)
  ultimately show ?thesis
    using credit_inv_D [OF assms(1)] refs_unique_cong [OF assms(2)] assms(2,3)
    by (simp add: credit_inv_def Let_def del: map_map)
qed

lemma claim_cases:
  assumes "claimBatchForProcessing db i = (r, db')"
  obtains (none) "r = NotClaimable" "\<And>b. b \<in> set (batches db) \<Longrightarrow> \<not> (b_id b = i \<and> claimable (b_status b))"
  | (won) b where "b \<in> set (batches db)" "b_id b = i" "claimable (b_status b)" "jobs_after_claim r js = job_of b # js"
proof (cases "filter (\<lambda>b. b_id b = i \<and> claimable (b_status b)) (batches db)")
  case Nil
  then have "r = NotClaimable" using assms by (simp add: claimBatchForProcessing_def Let_def first_row_def)
  then show ?thesis using none Nil by (auto simp: filter_empty_conv)
next
  case (Cons b bs)
  then have "b \<in> set (filter (\<lambda>b. b_id b = i \<and> claimable (b_status b)) (batches db))" by simp
  then have "b \<in> set (batches db) \<and> b_id b = i \<and> claimable (b_status b)" by simp
  moreover have "job_of (b\<lparr>b_status := Processing\<rparr>) = job_of b" by (simp add: job_of_def)
  then have "jobs_after_claim r js = job_of b # js"
    using assms Cons
    by (auto simp: claimBatchForProcessing_def Let_def first_row_def jobs_after_claim_def split: option.splits if_splits)
  ultimately show ?thesis using won by blast
qed

lemma inv_claim:
  assumes inv: "credit_inv s" and cl: "claimBatchForProcessing (s_db s) i = (r, db')"
  shows "credit_inv (s\<lparr>s_db := db', s_jobs := jobs_after_claim r (s_jobs s)\<rparr>)"
  using cl
proof (cases rule: claim_cases [where js = "s_jobs s"])
  case none
  have db': "db' = snd (claimBatchForProcessing (s_db s) i)" using cl by simp
  have "map (\<lambda>b. if b_id b = i \<and> claimable (b_status b) then b\<lparr>b_status := Processing\<rparr> else b) (batches (s_db s)) = batches (s_db s)"
    by (rule map_idI) (use none(2) in auto)
  then have "credit_inv (s\<lparr>s_db := db'\<rparr>) = credit_inv s"
    by (intro credit_inv_cong) (simp_all add: db' claimBatch_batches)
  then show ?thesis using inv none(1) by (simp add: jobs_after_claim_def)
next
  case (won b)
  let ?L = "creditLedger (s_db s)" and ?bs = "batches (s_db s)"
  let ?f = "\<lambda>b. if b_id b = i \<and> claimable (b_status b) then b\<lparr>b_status := Processing\<rparr> else b"
  have db': "db' = snd (claimBatchForProcessing (s_db s) i)" using cl by simp
  have L: "creditLedger db' = ?L" and bs: "batches db' = map ?f ?bs" by (simp_all add: db' claimBatch_batches)
  have uniq: "c = b" if "c \<in> set ?bs" "b_id c = i" for c
    using credit_inv_D(4) [OF inv] won that by (metis distinct_map inj_onD)
  have bok: "batch_ok ?L b" using credit_inv_D(6) [OF inv won(1)] .
  have ok: "batch_ok ?L (?f c)" if "c \<in> set ?bs" for c
    using credit_inv_D(6) [OF inv that] by (auto simp: batch_ok_def claimable_def split: batch_status.splits)
  have "fst j \<noteq> i" if "j \<in> set (s_jobs s)" for j
    using credit_inv_D(7) [OF inv that] won(1-3) by (auto simp: job_ok_def claimable_def split: prod.splits)
  then have fresh: "i \<notin> fst ` set (s_jobs s)" by auto
  have old: "job_ok ?L (map ?f ?bs) j" if "j \<in> set (s_jobs s)" for j
    using credit_inv_D(7) [OF inv that] fresh that by (auto simp: job_ok_def rev_image_eqI split: prod.splits)
  have new: "job_ok ?L (map ?f ?bs) (job_of b)"
  proof -
    have "b_orgId c' = b_orgId b \<and> b_totalRows c' = b_totalRows b \<and> b_status c' = Processing"
      if c': "c' \<in> set (map ?f ?bs)" "b_id c' = i" for c'
    proof -
      obtain c where c: "c \<in> set ?bs" "c' = ?f c" using c'(1) unfolding set_map by blast
      then have "b_id c = i" using c'(2) by (simp split: if_splits)
      then have "c = b" by (rule uniq [OF c(1)])
      then show ?thesis using c(2) won(2,3) by simp
    qed
    moreover have "reserved ?L (b_orgId b) (b_id b) (b_totalRows b)" "unsettled ?L (b_orgId b) (b_id b)"
      using bok won(3) by (auto simp: batch_ok_def claimable_def)
    ultimately show ?thesis using won(2) unfolding job_ok_def job_of_def prod.case by blast
  qed
  have "map b_id (map ?f ?bs) = map b_id ?bs" by simp
  then have ids: "distinct (map b_id (batches db'))" unfolding bs using credit_inv_D(4) [OF inv] by metis
  have oks: "\<forall>c \<in> set (batches db'). batch_ok ?L c" unfolding bs set_map using ok by blast
  have olds: "\<forall>j \<in> set (s_jobs s). job_ok ?L (batches db') j" unfolding bs using old by blast
  have "fst (job_of b) \<notin> fst ` set (s_jobs s)" using fresh won(2) by (simp add: job_of_def)
  then show ?thesis
    unfolding credit_inv_def Let_def
    using ids oks olds new [folded bs] credit_inv_D(2,3,5) [OF inv] refs_unique_cong [OF L] credit_inv_D(1) [OF inv]
    by (simp add: L won(4))
qed

lemma inv_delete:
  assumes inv: "credit_inv s" and del: "deleteBatchForOrg env (s_db s) i o' = Inr (r, db')"
    and fresh: "fresh_ledger_id env (s_db s)"
  shows "credit_inv (s\<lparr>s_db := db'\<rparr>)"
proof (cases "first_row (filter (\<lambda>b. b_id b = i \<and> b_orgId b = o') (batches (s_db s)))")
  case None
  then have "db' = s_db s" using del unfolding deleteBatchForOrg_def None by simp
  then show ?thesis using inv by simp
next
  case (Some row)
  have row: "row \<in> set (batches (s_db s))" "b_id row = i" "b_orgId row = o'"
    using first_row_Some_mem [OF Some] by auto
  show ?thesis
  proof (cases "b_status row = Pending \<or> b_status row = Validating")
    case False
    then have "db' = s_db s \<or> db' = remove_batch (s_db s) i"
      using del Some row(2) by (auto simp: deleteBatchForOrg_def split: if_splits)
    then show ?thesis
      using inv inv_filter_batches [OF inv, of "remove_batch (s_db s) i"] by (auto simp: remove_batch_def)
  next
    case True
    let ?L = "creditLedger (s_db s)" and ?bs = "batches (s_db s)"
    let ?e = "refund_entry env o' i (b_totalRows row) ''Batch deleted before processing: full reservation refunded''"
    have st: "b_status row \<noteq> Processing" using True by auto
    have e: "l_orgId ?e = o'" "l_referenceId ?e = Some (refundReference i)" "l_delta ?e = b_totalRows row"
      by (simp_all add: refund_entry_def)
    have ok: "reserved ?L o' i (b_totalRows row)" "unsettled ?L o' i"
      using credit_inv_D(6) [OF inv row(1)] True row by (auto simp: batch_ok_def)
    obtain ins db1 where sk: "insert_ledger_skip (s_db s) ?e = Inr (ins, db1)" and db': "db' = remove_batch db1 i"
      using del Some row(2,3) True st by (auto simp: deleteBatchForOrg_def and_then_Inr)
    have "l_id ?e = tx_ledger_id env" by (simp add: refund_entry_def)
    then have "\<And>c. insert_ledger (s_db s) ?e \<noteq> Inl (UniqueViolation c)"
      using fresh ok(2) e
      by (auto simp: insert_ledger_def fresh_ledger_id_def unsettled_def taken_def ref_entries_def
          reference_taken_def filter_empty_conv)
    then have i1: "insert_ledger (s_db s) ?e = Inr db1" by (rule insert_ledger_skip_fresh [OF sk])
    have nn: "0 \<le> ledger_sum (s_db s) (l_orgId ?e) + l_delta ?e"
      using credit_inv_D(2) [OF inv] ok(1) e by (simp add: balances_ok_def ledger_sum_def org_ledger_def reserved_def)
    note com = append_common [OF inv i1 refl nn]
    have r: "reserved ?L (l_orgId ?e) i (b_totalRows row)" "0 \<le> l_delta ?e" "l_delta ?e \<le> b_totalRows row"
      using ok(1) e by (simp_all add: reserved_def)
    note ref = append_refund [OF inv i1 refl e(2) r]
    have nojob: "fst j \<noteq> i" if "j \<in> set (s_jobs s)" for j
      using credit_inv_D(7) [OF inv that] row st by (auto simp: job_ok_def split: prod.splits)
    have "pg.refs_unique db'"
      using com(1) refs_unique_cong [of db' db1] by (simp add: db')
    moreover have "creditLedger db' = ?L @ [?e]" "batches db' = filter (\<lambda>b. b_id b \<noteq> i) ?bs"
      using com(3,4) by (simp_all add: db' remove_batch_def)
    moreover have "job_ok (?L @ [?e]) (filter (\<lambda>b. b_id b \<noteq> i) ?bs) j" if "j \<in> set (s_jobs s)" for j
      using ref(3) [OF that] nojob [OF that] by (auto simp: job_ok_def split: prod.splits)
    ultimately show ?thesis
      unfolding credit_inv_def Let_def
      using com(2,3) ref(1,2) credit_inv_D(4,5) [OF inv] by (auto simp: distinct_map_filter)
  qed
qed

lemma ledger_sum_cong: "creditLedger db = creditLedger db2 \<Longrightarrow> ledger_sum db o' = ledger_sum db2 o'"
  by (simp add: ledger_sum_def org_ledger_def)

lemma inv_same:
  assumes "credit_inv s" "creditLedger db' = creditLedger (s_db s)" "batches db' = batches (s_db s)"
  shows "credit_inv (s\<lparr>s_db := db'\<rparr>)"
  using credit_inv_cong [OF assms(2,3)] assms(1) by simp

lemma inv_email:
  assumes inv: "credit_inv s" and step: "createEmailCheckWithDebit env (s_db s) inp now = Inr (r, db')"
    and plain: "plain_ref (tx_uuid env)"
  shows "credit_inv (s\<lparr>s_db := db'\<rparr>)"
proof (cases "\<exists>check bal org. r = EmailCreated check bal org")
  case True
  then obtain check bal org where r: "r = EmailCreated check bal org" by blast
  note c = createEmailCheck_created [OF step [unfolded r]]
  show ?thesis
    by (rule inv_plain_entry [OF inv c(6) _ _ _ plain]) (use c(3) in \<open>simp_all add: single_check_entry_def\<close>)
next
  case False
  then have "db' = s_db s"
    using step by (auto simp: createEmailCheckWithDebit_def and_then_Inr Let_def split: option.splits if_splits)
  then show ?thesis using inv by simp
qed

lemma inv_phone:
  assumes inv: "credit_inv s" and step: "createPhoneCheckWithDebit env (s_db s) inp now = Inr (r, db')"
    and plain: "plain_ref (tx_uuid env)"
  shows "credit_inv (s\<lparr>s_db := db'\<rparr>)"
proof (cases "\<exists>check bal. r = PhoneCreated check bal")
  case True
  then obtain check bal where r: "r = PhoneCreated check bal" by blast
  note c = createPhoneCheck_created [OF step [unfolded r]]
  show ?thesis
    by (rule inv_plain_entry [OF inv c(3) _ _ _ plain]) (use c(1) in \<open>simp_all add: single_check_entry_def\<close>)
next
  case False
  then have "db' = s_db s"
    using step by (auto simp: createPhoneCheckWithDebit_def and_then_Inr Let_def split: option.splits if_splits)
  then show ?thesis using inv by simp
qed

lemma inv_grant:
  assumes inv: "credit_inv s" and step: "grantCreditsWithAudit env sha256Hex (s_db s) o' credits note now = Inr (r, db')"
    and plain: "plain_ref (grantReference sha256Hex (nat credits) (js_trim note))"
  shows "credit_inv (s\<lparr>s_db := db'\<rparr>)"
proof (cases "\<exists>l ref. r = Granted l ref")
  case True
  let ?e = "grant_entry env o' credits (grantReference sha256Hex (nat credits) (js_trim note)) (js_trim note)"
  obtain db1 where ins: "insert_ledger (s_db s) ?e = Inr db1" and pos: "0 < credits"
    and db': "creditLedger db' = creditLedger db1" "batches db' = batches db1"
    using True step
    by (auto simp: grantCreditsWithAudit_def grant_transaction_def Let_def and_then_Inr
        split: sum.splits option.splits if_splits dest!: recordAuditEvent_Inr)
  have nn: "0 \<le> ledger_sum (s_db s) (l_orgId ?e) + l_delta ?e"
    using credit_inv_D(2) [OF inv] pos by (simp add: balances_ok_def ledger_sum_def org_ledger_def grant_entry_def)
  have "credit_inv (s\<lparr>s_db := db1\<rparr>)"
    by (rule inv_plain_entry [OF inv ins refl refl _ plain nn]) (simp add: grant_entry_def)
  then show ?thesis using inv_same [of "s\<lparr>s_db := db1\<rparr>" db'] db' by simp
next
  case False
  then have "db' = s_db s"
    using step by (auto simp: grantCreditsWithAudit_def grant_transaction_def and_then_Inr Let_def
        split: sum.splits option.splits if_splits)
  then show ?thesis using inv by simp
qed

lemma inv_complete:
  assumes inv: "credit_inv s" and job: "(co_batchId ci, co_orgId ci, co_reservedCredits ci) \<in> set (s_jobs s)"
    and charged: "0 \<le> co_chargedCredits ci" and step: "completeBatch env (s_db s) ci now = Inr db'"
  shows "credit_inv (s\<lparr>s_db := db', s_jobs := filter (\<lambda>k. k \<noteq> (co_batchId ci, co_orgId ci, co_reservedCredits ci)) (s_jobs s)\<rparr>)"
proof -
  let ?f = "\<lambda>b. b\<lparr>b_status := Done, b_processedRows := co_processedRows ci,
      b_resultObjectKey := Some (co_resultObjectKey ci), b_stats := co_stats ci,
      b_completedAt := Some (us_of now), b_expiresAt := us_of (now + co_retentionDays ci * 24 * 60 * 60 * 1000)\<rparr>"
  let ?db1 = "update_batch (s_db s) (co_batchId ci) ?f"
  let ?a = "max 0 (co_reservedCredits ci - co_chargedCredits ci)"
  have n: "0 \<le> co_reservedCredits ci" using credit_inv_D(7) [OF inv job] by (simp add: job_ok_def reserved_def)
  have "creditLedger db' = creditLedger (s_db s) \<and> 0 = ?a \<and> batches db' = batches ?db1 \<or>
      (\<exists>e. insert_ledger ?db1 e = Inr db' \<and> l_orgId e = co_orgId ci
         \<and> l_referenceId e = Some (refundReference (co_batchId ci)) \<and> l_delta e = ?a)"
    using step by (fastforce simp: completeBatch_def and_then_Inr Let_def refund_entry_def split: if_splits)
  then have "(creditLedger db' = creditLedger (s_db s) \<and> 0 = ?a \<or>
      (\<exists>db e. insert_ledger db e = Inr db' \<and> creditLedger db = creditLedger (s_db s)
         \<and> l_orgId e = co_orgId ci \<and> l_referenceId e = Some (refundReference (co_batchId ci)) \<and> l_delta e = ?a))
      \<and> batches db' = batches ?db1"
    using insert_ledger_Inr(1) by fastforce
  then show ?thesis
    by (intro inv_settle [OF inv job, where a = ?a and st = Done and f = ?f])
      (use n charged in \<open>auto simp: update_batch_def\<close>)
qed

lemma inv_fail:
  assumes inv: "credit_inv s" and job: "(i, o', n) \<in> set (s_jobs s)"
    and step: "failBatch env (s_db s) i o' n err = Inr db'" and fresh: "fresh_ledger_id env (s_db s)"
  shows "credit_inv (s\<lparr>s_db := db', s_jobs := filter (\<lambda>k. k \<noteq> (i, o', n)) (s_jobs s)\<rparr>)"
proof -
  let ?f = "\<lambda>b. b\<lparr>b_status := Failed, b_error := Some err\<rparr>"
  let ?db1 = "update_batch (s_db s) i ?f"
  let ?e = "refund_entry env o' i n ''Batch failed: full reservation refunded''"
  have n: "0 \<le> n" and un: "unsettled (creditLedger (s_db s)) o' i"
    using credit_inv_D(7) [OF inv job] by (simp_all add: job_ok_def reserved_def)
  have e: "l_id ?e = tx_ledger_id env" "l_orgId ?e = o'" "l_referenceId ?e = Some (refundReference i)" "l_delta ?e = n"
    by (simp_all add: refund_entry_def)
  have nu: "insert_ledger ?db1 ?e \<noteq> Inl (UniqueViolation c)" for c
    using fresh un e
    by (auto simp: insert_ledger_def fresh_ledger_id_def unsettled_def taken_def ref_entries_def
        reference_taken_def filter_empty_conv)
  have "(creditLedger db' = creditLedger (s_db s) \<and> 0 = n \<and> batches db' = batches ?db1) \<or> insert_ledger ?db1 ?e = Inr db'"
  proof (cases "0 < n")
    case True
    then have "map_sum id snd (insert_ledger_skip ?db1 ?e) = Inr db'"
      using step by (simp add: failBatch_def Let_def)
    from map_sum_snd_Inr [OF this] obtain b where sk: "insert_ledger_skip ?db1 ?e = Inr (b, db')" by (elim exE)
    show ?thesis by (rule disjI2) (rule insert_ledger_skip_fresh [OF sk nu])
  next
    case False
    then show ?thesis using step n by (auto simp: failBatch_def)
  qed
  then have "(creditLedger db' = creditLedger (s_db s) \<and> 0 = n \<or>
      (\<exists>db e. insert_ledger db e = Inr db' \<and> creditLedger db = creditLedger (s_db s)
         \<and> l_orgId e = o' \<and> l_referenceId e = Some (refundReference i) \<and> l_delta e = n))
      \<and> batches db' = batches ?db1"
    using insert_ledger_Inr(1) e(2-4) by fastforce
  then show ?thesis
    by (intro inv_settle [OF inv job, where a = n and st = Failed and f = ?f])
      (use n in \<open>auto simp: update_batch_def\<close>)
qed

lemma inv_crash: "credit_inv s \<Longrightarrow> credit_inv (s\<lparr>s_jobs := filter P (s_jobs s)\<rparr>)"
  by (simp add: credit_inv_def Let_def distinct_map_filter)

lemma softDelete_tables:
  assumes "softDeleteOrganization dbnow auditId db o' actor now now' = Inr (ok, db')"
  shows "creditLedger db' = creditLedger db" "batches db' = batches db"
  using assms by (auto simp: softDeleteOrganization_def Let_def and_then_Inr split: if_splits dest!: recordAuditEvent_Inr)

lemma wipe_tables:
  assumes "wipeCheckDataForOrg db store o' del = Inr (r, db', store')"
  shows "creditLedger db' = creditLedger db" "\<exists>P. batches db' = filter P (batches db)"
proof -
  have "db' = db \<or> db' = delete_checks_of db o'"
    using assms by (auto simp: wipeCheckDataForOrg_def Let_def and_then_Inr split: option.splits)
  then show "creditLedger db' = creditLedger db" "\<exists>P. batches db' = filter P (batches db)"
    by (auto intro: exI [of _ "\<lambda>_. True"])
qed

lemma credit_step_inv: "credit_step s s' \<Longrightarrow> credit_inv s \<Longrightarrow> credit_inv s'"
proof (induction rule: credit_step.induct)
  case (create_batch env s binput now br db')
  show ?case
  proof (cases "\<exists>batch bal. br = BatchCreated batch bal")
    case True
    then show ?thesis using create_batch inv_create_batch by blast
  next
    case False
    then have "db' = s_db s"
      using create_batch(1)
      by (auto simp: createBatchWithReservation_def and_then_Inr Let_def split: option.splits if_splits)
    then show ?thesis using create_batch by simp
  qed
next
  case (progress s i k db')
  have db': "db' = update_batch (s_db s) i (\<lambda>b. b\<lparr>b_processedRows := k\<rparr>)"
    using progress(1) by (auto simp: updateBatchProgress_def and_then_Inr to_int4_def split: if_splits)
  show ?case
    by (rule inv_map_batches [OF progress(2), where f = "\<lambda>b. if b_id b = i then b\<lparr>b_processedRows := k\<rparr> else b"])
      (simp_all add: db' update_batch_def)
next
  case (complete j s ci env now db')
  then show ?case using inv_complete by blast
next
  case (wipe s store o' del wr db' store')
  obtain P where "batches db' = filter P (batches (s_db s))" using wipe_tables(2) [OF wipe(1)] by blast
  then show ?case by (rule inv_filter_batches [OF wipe(2) wipe_tables(1) [OF wipe(1)]])
next
  case (email_check env s input now r db')
  then show ?case using inv_email by blast
next
  case (phone_check env s pinput now pr db')
  then show ?case using inv_phone by blast
next
  case (claim_batch s i cr db')
  then show ?case using inv_claim by blast
next
  case (fail i o' n s env err db')
  then show ?case using inv_fail by blast
next
  case (crash s j)
  then show ?case by (rule inv_crash)
next
  case (delete_batch env s i o' dr db')
  then show ?case using inv_delete by blast
next
  case (grant genv sha256Hex s o' credits memo now gr db')
  then show ?case using inv_grant by blast
next
  case (purge_org dbnow auditId s o' now counts db')
  show ?case
    by (rule inv_filter_batches [OF purge_org(2) hardDelete_tables(1,2) [OF purge_org(1)]])
next
  case (soft_delete_org dbnow auditId s o' actor now now' ok db')
  show ?case
    by (rule inv_same [OF soft_delete_org(2) softDelete_tables [OF soft_delete_org(1)]])
next
  case (expire_batches s ids cnt db')
  show ?case
  proof (cases "ids = []")
    case True
    then show ?thesis using expire_batches by (auto simp: deleteBatchesByIds_def)
  next
    case False
    then have "db' = (s_db s)\<lparr>batches := filter (\<lambda>b. b_id b \<notin> set ids) (batches (s_db s))\<rparr>"
      using expire_batches(1) by (simp add: deleteBatchesByIds_def)
    then show ?thesis
      using inv_filter_batches [OF expire_batches(2), of db' "\<lambda>b. b_id b \<notin> set ids"] by simp
  qed
next
  case (purge_checks s now ec db')
  then show ?case using inv_same [of s db'] by (auto simp: purgeExpiredChecks_def)
qed

section \<open>Reachable states\<close>

definition initial_sys :: "sys \<Rightarrow> bool" where
  "initial_sys s = (creditLedger (s_db s) = [] \<and> batches (s_db s) = [] \<and> s_jobs s = [])"

inductive reachable :: "sys \<Rightarrow> bool" where
  init: "initial_sys s \<Longrightarrow> reachable s"
| step: "reachable s \<Longrightarrow> credit_step s s' \<Longrightarrow> reachable s'"

lemma initial_inv: "initial_sys s \<Longrightarrow> credit_inv s"
  by (simp add: initial_sys_def credit_inv_def Let_def pg.refs_unique_def balances_ok_def refunds_ok_def taken_def
      ref_entries_def)

lemma reachable_inv: "reachable s \<Longrightarrow> credit_inv s"
  by (induction rule: reachable.induct) (auto intro: initial_inv credit_step_inv)

section \<open>Properties\<close>





section \<open>Witnesses\<close>

text \<open>A short run: an organisation gets a grant, creates a batch, and a worker claims it.\<close>

definition demo_sys0 :: sys where
  "demo_sys0 = \<lparr>s_db = empty_db\<lparr>organizations := [demo_org]\<rparr>, s_jobs = []\<rparr>"

definition demo_grant_entry :: ledger_entry where
  "demo_grant_entry = grant_entry demo_grant_env ''org-1'' 3 (grantReference id 3 ''Invoice 7'') ''Invoice 7''"

definition demo_grant_audit :: audit_event where
  "demo_grant_audit = \<lparr>ae_id = ''a-9'', ae_orgId = Some ''org-1'', ae_actorUserId = None, ae_actorApiKeyId = None,
     ae_action = ''billing.grant'', ae_targetType = ''credit_ledger'', ae_targetId = ''l-9'',
     ae_metadata = JObj [(''credits'', JNum 3), (''reference_id'', JStr (grantReference id 3 ''Invoice 7''))],
     ae_createdAt = 7, ae_expiresAt = us_of (auditExpiry 0)\<rparr>"

definition demo_db1 :: database where
  "demo_db1 = empty_db\<lparr>organizations := [demo_org], creditLedger := [demo_grant_entry], auditEvents := [demo_grant_audit]\<rparr>"

definition demo_db2 :: database where
  "demo_db2 = demo_db1\<lparr>batches := [demo_batch],
     creditLedger := [demo_grant_entry, reservation_entry demo_env demo_batch_input]\<rparr>"

definition demo_db3 :: database where
  "demo_db3 = demo_db2\<lparr>batches := [demo_batch\<lparr>b_status := Processing\<rparr>]\<rparr>"

definition demo_sys3 :: sys where
  "demo_sys3 = \<lparr>s_db = demo_db3, s_jobs = [(''b-1'', ''org-1'', 2)]\<rparr>"

lemma trim_invoice: "js_trim ''Invoice 7'' = ''Invoice 7''"
  by (simp add: js_trim_def js_trimStart_def js_ws_def char_code_def)

lemma demo_step1:
  "grantCreditsWithAudit demo_grant_env id (s_db demo_sys0) ''org-1'' 3 ''Invoice 7'' 0
     = Inr (Granted ''l-9'' (grantReference id 3 ''Invoice 7''), demo_db1)"
  by (simp add: demo_sys0_def demo_db1_def demo_grant_entry_def demo_grant_audit_def grantCreditsWithAudit_def
      trim_invoice grant_transaction_def MAX_SAFE_INTEGER_def Let_def find_org_def insert_ledger_def
      reference_taken_def grant_entry_def int4_def org_exists_def recordAuditEvent_def insert_audit_event_def
      org_audit_def demo_org_def empty_db_def demo_grant_env_def)

lemma demo_step2:
  "createBatchWithReservation demo_env demo_db1 demo_batch_input 5 = Inr (BatchCreated demo_batch 1, demo_db2)"
proof -
  have "grantReference id 3 ''Invoice 7'' \<noteq> ''b-1''" by (simp add: grantReference_def)
  then show ?thesis
    by (simp add: createBatchWithReservation_def lockBatchOrganization_def active_org_def batchLockedBalance_def
        to_int4_def ledger_sum_def org_ledger_def int4_def insert_batch_def insert_ledger_def
        reference_taken_def org_exists_def reservation_entry_def demo_batch_def demo_batch_input_def
        new_batch_row_def demo_db1_def demo_db2_def demo_grant_entry_def grant_entry_def demo_grant_env_def
        demo_org_def demo_env_def empty_db_def Let_def)
qed

lemma demo_step3: "claimBatchForProcessing demo_db2 ''b-1'' = (Claimed (demo_batch\<lparr>b_status := Processing\<rparr>) 30, demo_db3)"
  by (simp add: claimBatchForProcessing_def first_row_def find_org_def claimable_def demo_db3_def demo_db2_def
      demo_db1_def demo_batch_def demo_batch_input_def new_batch_row_def demo_org_def empty_db_def Let_def)

lemma demo_reachable: "reachable demo_sys3"
proof -
  have "reachable demo_sys0" by (rule reachable.init) (simp add: initial_sys_def demo_sys0_def empty_db_def)
  moreover have "plain_ref (grantReference id (nat 3) (js_trim ''Invoice 7''))"
    by (simp add: trim_invoice grantReference_def nat_text.simps js_slice_def js_rel_index_def plain_ref_def suffix_def)
  ultimately have "reachable (demo_sys0\<lparr>s_db := demo_db1\<rparr>)"
    by (rule reachable.step [OF _ credit_step.grant [OF demo_step1]])
  then have "reachable (demo_sys0\<lparr>s_db := demo_db2\<rparr>)"
    using reachable.step [OF _ credit_step.create_batch [of demo_env "demo_sys0\<lparr>s_db := demo_db1\<rparr>" demo_batch_input 5, simplified, OF demo_step2]]
    by (simp add: demo_batch_input_def plain_ref_def suffix_def demo_sys0_def)
  then show ?thesis
    using reachable.step [OF _ credit_step.claim_batch [of "demo_sys0\<lparr>s_db := demo_db2\<rparr>" "''b-1''", simplified, OF demo_step3]]
    by (simp add: demo_sys3_def demo_sys0_def jobs_after_claim_def job_of_def demo_batch_def demo_batch_input_def new_batch_row_def)
qed




definition demo_completion :: complete_batch_input where
  "demo_completion = \<lparr>co_batchId = ''b-1'', co_orgId = ''org-1'', co_resultObjectKey = ''out'', co_processedRows = 2,
     co_stats = JNull, co_chargedCredits = 1, co_reservedCredits = 2, co_retentionDays = 30\<rparr>"

lemma demo_sys3_facts:
  "org_exists (s_db demo_sys3) ''org-1''" "fresh_ledger_id (demo_env\<lparr>tx_ledger_id := ''l-2''\<rparr>) (s_db demo_sys3)"
  by (simp_all add: demo_sys3_def demo_db3_def demo_db2_def demo_db1_def demo_grant_entry_def grant_entry_def
      demo_grant_env_def demo_env_def org_exists_def fresh_ledger_id_def reservation_entry_def demo_org_def empty_db_def)


end
