(* ===== verification/Shared_Ssrf.thy ===== *)
theory Shared_Ssrf
  imports Js_Number
begin

unbundle bit_operations_syntax

text \<open>
  \<^verbatim>\<open>packages/shared/src/ssrf.ts\<close>: the guard on webhook destinations. Addresses are
  text, as the code has them; \<open>isIP\<close> is Node's literal grammar. The specification side
  reads addresses as numbers and private ranges as CIDR blocks.
\<close>

section \<open>Node's \<open>isIP\<close>\<close>

text \<open>A decimal octet without leading zeros.\<close>

definition v4_segment :: "string \<Rightarrow> bool" where
  "v4_segment s = (list_all is_digit s \<and> 1 \<le> length s \<and> length s \<le> 3
     \<and> (length s = 1 \<or> s ! 0 \<noteq> CHR ''0'') \<and> digits_value s \<le> 255)"

definition isIPv4 :: "string \<Rightarrow> bool" where
  "isIPv4 s = (let parts = js_split CHR ''.'' s in length parts = 4 \<and> list_all v4_segment parts)"

definition v6_segment :: "string \<Rightarrow> bool" where
  "v6_segment s = (1 \<le> length s \<and> length s \<le> 4 \<and> list_all (\<lambda>c. hex_value c \<noteq> None) s)"

text \<open>\<open>s.split('::')\<close>\<close>

fun split_double_colon :: "string \<Rightarrow> string list" where
  "split_double_colon [] = [[]]"
| "split_double_colon [x] = [[x]]"
| "split_double_colon (x # y # rest) =
     (if x = CHR '':'' \<and> y = CHR '':'' then [] # split_double_colon rest
      else (case split_double_colon (y # rest) of [] \<Rightarrow> [[x]] | p # ps \<Rightarrow> (x # p) # ps))"

text \<open>The 16-bit units of one side of \<open>::\<close>: hexadecimal segments, and where allowed a last
  dotted quad that counts two. \<open>None\<close> when the side is malformed.\<close>

definition v6_units :: "bool \<Rightarrow> string \<Rightarrow> nat option" where
  "v6_units quad_allowed side =
     (if side = [] then Some 0
      else
        (let parts = js_split CHR '':'' side
         in if list_all v6_segment parts then Some (length parts)
            else if quad_allowed \<and> list_all v6_segment (butlast parts) \<and> isIPv4 (last parts)
            then Some (length parts + 1) else None))"

definition zone_char :: "char \<Rightarrow> bool" where
  "zone_char c = (let n = char_code c in (48 \<le> n \<and> n \<le> 57) \<or> (65 \<le> n \<and> n \<le> 90) \<or> (97 \<le> n \<and> n \<le> 122)
     \<or> c \<in> {CHR ''-'', CHR ''.'', CHR '':''})"

definition isIPv6 :: "string \<Rightarrow> bool" where
  "isIPv6 s =
     (let addr = takeWhile (\<lambda>c. c \<noteq> CHR ''%'') s; zone = dropWhile (\<lambda>c. c \<noteq> CHR ''%'') s
      in (zone = [] \<or> (2 \<le> length zone \<and> list_all zone_char (tl zone)))
         \<and> (case split_double_colon addr of
              [whole] \<Rightarrow> v6_units True whole = Some 8
            | [left, right] \<Rightarrow>
                (case (v6_units False left, v6_units True right) of
                   (Some l, Some r) \<Rightarrow> l + r \<le> 7
                 | _ \<Rightarrow> False)
            | _ \<Rightarrow> False))"

definition isIP :: "string \<Rightarrow> nat" where
  "isIP s = (if isIPv4 s then 4 else if isIPv6 s then 6 else 0)"

section \<open>The code\<close>

definition octet_range :: "int option \<Rightarrow> bool" where
  "octet_range p = (case p of None \<Rightarrow> False | Some n \<Rightarrow> 0 \<le> n \<and> n \<le> 255)"

definition isPrivateIpv4 :: "string \<Rightarrow> bool" where
  "isPrivateIpv4 ip =
     (let parts = map js_number (js_split CHR ''.'' ip)
      in if length parts \<noteq> 4 \<or> \<not> list_all octet_range parts then True
         else
           (let a = the (parts ! 0); b = the (parts ! 1)
            in if a = 10 then True
               else if a = 172 \<and> 16 \<le> b \<and> b \<le> 31 then True
               else if a = 192 \<and> b = 168 then True
               else if a = 127 then True
               else if a = 169 \<and> b = 254 then True
               else if a = 0 then True
               else False))"

text \<open>\<open>/^[0-9a-f]{1,4}$/\<close>\<close>

definition hex_group :: "string \<Rightarrow> bool" where
  "hex_group part = (1 \<le> length part \<and> length part \<le> 4
     \<and> list_all (\<lambda>c. let n = char_code c in (48 \<le> n \<and> n \<le> 57) \<or> (97 \<le> n \<and> n \<le> 102)) part)"

definition expand :: "string \<Rightarrow> int list option" where
  "expand side =
     (if side = [] then Some []
      else
        (let parts = js_split CHR '':'' side
         in if list_all hex_group parts then Some (map hex_number parts) else None))"

text \<open>\<open>/^(.*):(\d+\.\d+\.\d+\.\d+)$/\<close>: the text before and after the last colon, when what
  follows is a dotted quad of digits.\<close>

definition dotted_tail :: "string \<Rightarrow> (string \<times> string) option" where
  "dotted_tail s =
     (let parts = js_split CHR '':'' s; quad = js_split CHR ''.'' (last parts)
      in if 2 \<le> length parts \<and> length quad = 4 \<and> list_all (\<lambda>p. p \<noteq> [] \<and> list_all is_digit p) quad
         then Some (js_join '':'' (butlast parts), last parts) else None)"

text \<open>The trailing quad as two groups, and the head that remains.\<close>

definition ipv6_tail :: "string \<Rightarrow> (string \<times> int list) option" where
  "ipv6_tail ip =
     (case dotted_tail ip of
        None \<Rightarrow> Some (ip, [])
      | Some (front, quad) \<Rightarrow>
          (let parts = map js_number (js_split CHR ''.'' quad)
           in if length parts \<noteq> 4 \<or> \<not> list_all octet_range parts then None
              else
                (let a = the (parts ! 0); b = the (parts ! 1); c = the (parts ! 2); d = the (parts ! 3)
                 in Some (if js_endsWith front '':'' \<and> \<not> js_endsWith front ''::''
                          then js_slice front 0 (-1) else front,
                          [push_bit 8 a OR b, push_bit 8 c OR d]))))"

definition ipv6_groups :: "string \<Rightarrow> int list \<Rightarrow> int list option" where
  "ipv6_groups head tailGroups =
     (let halves = split_double_colon head
      in if 2 < length halves then None
         else if length halves = 2 then
           (case (expand (halves ! 0), expand (halves ! 1)) of
              (Some left, Some right) \<Rightarrow>
                (let fill = 8 - int (length tailGroups) - int (length left) - int (length right)
                 in if fill < 0 then None
                    else Some (left @ replicate (nat fill) 0 @ right @ tailGroups))
            | _ \<Rightarrow> None)
         else map_option (\<lambda>flat. flat @ tailGroups) (expand head))"

definition canonicalizeIpv6 :: "string \<Rightarrow> int list option" where
  "canonicalizeIpv6 ip =
     (if CHR ''%'' \<in> set ip then None
      else
        (case ipv6_tail ip of
           None \<Rightarrow> None
         | Some (head, tailGroups) \<Rightarrow>
             (case ipv6_groups head tailGroups of
                None \<Rightarrow> None
              | Some groups \<Rightarrow> if length groups = 8 then Some groups else None)))"

definition isPrivateIpv6Canonical :: "int list \<Rightarrow> bool" where
  "isPrivateIpv6Canonical g =
     (if g ! 0 = 0 \<and> g ! 1 = 0 \<and> g ! 2 = 0 \<and> g ! 3 = 0 \<and> g ! 4 = 0 \<and> g ! 5 = 0 \<and> g ! 6 = 0 \<and> g ! 7 = 1 then True
      else if g ! 0 = 0 \<and> g ! 1 = 0 \<and> g ! 2 = 0 \<and> g ! 3 = 0 \<and> g ! 4 = 0 \<and> g ! 5 = 0xffff then
        isPrivateIpv4 (js_join ''.'' (map (\<lambda>n. nat_text (nat n))
          [drop_bit 8 (g ! 6), g ! 6 AND 0xff, drop_bit 8 (g ! 7), g ! 7 AND 0xff]))
      else if (g ! 0 AND 0xfe00) = 0xfc00 then True
      else if (g ! 0 AND 0xffc0) = 0xfe80 then True
      else False)"

definition isPrivateAddress :: "string \<Rightarrow> bool" where
  "isPrivateAddress ip =
     (let normalized = js_toLowerCase (js_trim ip)
      in if isIP normalized = 4 then isPrivateIpv4 normalized
         else if isIP normalized = 6 then
           (case canonicalizeIpv6 normalized of None \<Rightarrow> True | Some groups \<Rightarrow> isPrivateIpv6Canonical groups)
         else True)"

datatype ssrf_check = SsrfOk "string list" | Unresolvable | Private_address

text \<open>The resolver is an argument: \<open>None\<close> when it throws.\<close>

definition checkWebhookHost :: "string \<Rightarrow> (string \<Rightarrow> string list option) \<Rightarrow> ssrf_check" where
  "checkWebhookHost hostname resolver =
     (if isIP hostname \<noteq> 0 then
        (if isPrivateAddress hostname then Private_address else SsrfOk [hostname])
      else
        (case resolver hostname of
           None \<Rightarrow> Unresolvable
         | Some addresses \<Rightarrow>
             if addresses = [] then Unresolvable
             else if list_ex isPrivateAddress addresses then Private_address
             else SsrfOk addresses))"

section \<open>Specification: CIDR blocks\<close>

definition in_cidr :: "nat \<Rightarrow> int \<Rightarrow> int \<times> nat \<Rightarrow> bool" where
  "in_cidr width addr block =
     (case block of (base, len) \<Rightarrow> addr div 2 ^ (width - len) = base div 2 ^ (width - len))"

definition v4_addr :: "int \<Rightarrow> int \<Rightarrow> int \<Rightarrow> int \<Rightarrow> int" where
  "v4_addr a b c d = ((a * 256 + b) * 256 + c) * 256 + d"

definition v4_private :: "int \<Rightarrow> bool" where
  "v4_private addr = list_ex (in_cidr 32 addr)
     [(v4_addr 10 0 0 0, 8), (v4_addr 172 16 0 0, 12), (v4_addr 192 168 0 0, 16), (v4_addr 127 0 0 0, 8),
      (v4_addr 169 254 0 0, 16), (v4_addr 0 0 0 0, 8)]"

definition v6_addr :: "int list \<Rightarrow> int" where
  "v6_addr gs = foldl (\<lambda>acc g. acc * 65536 + g) 0 gs"

text \<open>Loopback, unique local, link local, and the IPv4-mapped block with a private inside.\<close>

definition v6_private :: "int \<Rightarrow> bool" where
  "v6_private addr =
     (list_ex (in_cidr 128 addr)
        [(1, 128), (0xfc00 * 2 ^ 112, 7), (0xfe80 * 2 ^ 112, 10)]
      \<or> (in_cidr 128 addr (0xffff * 2 ^ 32, 96) \<and> v4_private (addr mod 2 ^ 32)))"

section \<open>Lemmas\<close>

definition byte :: "int \<Rightarrow> bool" where "byte n = (0 \<le> n \<and> n \<le> 255)"

definition group16 :: "int \<Rightarrow> bool" where "group16 n = (0 \<le> n \<and> n \<le> 65535)"

lemma v4_addr_div:
  assumes "byte b" "byte c" "byte d"
  shows "v4_addr a b c d div 2 ^ 24 = a" "v4_addr a b c d div 2 ^ 16 = a * 256 + b"
    "v4_addr a b c d div 2 ^ 20 = a * 16 + b div 16"
proof -
  have bd: "0 \<le> b" "b \<le> 255" "0 \<le> c" "c \<le> 255" "0 \<le> d" "d \<le> 255" using assms by (auto simp: byte_def)
  show "v4_addr a b c d div 2 ^ 24 = a"
    by (rule int_div_pos_eq [where r = "b * 65536 + c * 256 + d"]) (use bd in \<open>auto simp: v4_addr_def\<close>)
  show "v4_addr a b c d div 2 ^ 16 = a * 256 + b"
    by (rule int_div_pos_eq [where r = "c * 256 + d"]) (use bd in \<open>auto simp: v4_addr_def\<close>)
  define q r where "q = b div 16" and "r = b mod 16"
  have m: "0 \<le> r" "r \<le> 15" "b = 16 * q + r" by (auto simp: q_def r_def)
  have "v4_addr a b c d div 2 ^ 20 = a * 16 + q"
    by (rule int_div_pos_eq [where r = "r * 65536 + c * 256 + d"])
      (use bd m in \<open>auto simp: v4_addr_def algebra_simps\<close>)
  then show "v4_addr a b c d div 2 ^ 20 = a * 16 + b div 16" by (simp add: q_def)
qed

lemma v4_private_octets:
  assumes "byte a" "byte b" "byte c" "byte d"
  shows "v4_private (v4_addr a b c d) \<longleftrightarrow>
    a = 10 \<or> (a = 172 \<and> 16 \<le> b \<and> b \<le> 31) \<or> (a = 192 \<and> b = 168) \<or> a = 127 \<or> (a = 169 \<and> b = 254) \<or> a = 0"
proof -
  have bd: "0 \<le> a" "a \<le> 255" "0 \<le> b" "b \<le> 255" using assms by (auto simp: byte_def)
  have "a * 16 + q = 2753 \<longleftrightarrow> a = 172 \<and> q = 1" if "0 \<le> q" "q \<le> 15" for q using that by presburger
  moreover have "0 \<le> b div 16" "b div 16 \<le> 15" "b div 16 = 1 \<longleftrightarrow> 16 \<le> b \<and> b \<le> 31" using bd by auto
  ultimately have "a * 16 + b div 16 = 2753 \<longleftrightarrow> a = 172 \<and> 16 \<le> b \<and> b \<le> 31" by blast
  moreover have "a * 256 + b = 49320 \<longleftrightarrow> a = 192 \<and> b = 168" using bd by presburger
  moreover have "a * 256 + b = 43518 \<longleftrightarrow> a = 169 \<and> b = 254" using bd by presburger
  ultimately show ?thesis
    using v4_addr_div [OF assms(2-4), of a]
    by (simp add: v4_private_def in_cidr_def v4_addr_div byte_def) (auto simp: v4_addr_def)
qed

lemma isPrivateIpv4_spec:
  assumes "map js_number (js_split CHR ''.'' ip) = map Some [a, b, c, d]" "byte a" "byte b" "byte c" "byte d"
  shows "isPrivateIpv4 ip \<longleftrightarrow> v4_private (v4_addr a b c d)"
  unfolding v4_private_octets [OF assms(2-5)]
  using assms(1) assms(2-5) by (simp add: isPrivateIpv4_def octet_range_def byte_def)

lemma quad_split:
  "js_split CHR ''.'' (js_join ''.'' (map nat_text [a, b, c, d])) = map nat_text [a, b, c, d]"
proof -
  have "CHR ''.'' \<notin> set (nat_text n)" for n using nat_text_digits [of n] by (auto simp: is_digit_def char_code_def)
  then show ?thesis by (simp add: js_split_append js_split_single)
qed

lemma and_push_bit: "(x :: int) AND push_bit n m = push_bit n (drop_bit n x AND m)"
  by (rule bit_eqI) (auto simp: bit_simps)

lemma drop_bit_16: "group16 x \<Longrightarrow> n \<le> 16 \<Longrightarrow> drop_bit n x AND mask (16 - n) = drop_bit n x"
proof -
  assume x: "group16 x" and n: "n \<le> 16"
  have "drop_bit n x AND mask (16 - n) = take_bit (16 - n) (drop_bit n x)" by (simp add: take_bit_eq_mask)
  also have "\<dots> = drop_bit n (take_bit 16 x)" using n by (simp add: take_bit_drop_bit)
  also have "take_bit 16 x = x" using x by (simp add: group16_def take_bit_int_eq_self)
  finally show ?thesis .
qed

lemma g0_mask:
  assumes "group16 x" "n \<le> 16"
  shows "(x AND push_bit n (mask (16 - n))) = push_bit n k \<longleftrightarrow> x div 2 ^ n = k"
  using and_push_bit [of x n "mask (16 - n)"] drop_bit_16 [OF assms]
  by (simp add: push_bit_eq_mult drop_bit_eq_div)

lemma g0_masks:
  assumes "group16 x"
  shows "(x AND 0xfe00) = 0xfc00 \<longleftrightarrow> x div 512 = 126" "(x AND 0xffc0) = 0xfe80 \<longleftrightarrow> x div 64 = 1018"
proof -
  have c: "push_bit 9 (mask (16 - 9)) = (0xfe00 :: int)" "push_bit 9 126 = (0xfc00 :: int)"
    "push_bit 6 (mask (16 - 6)) = (0xffc0 :: int)" "push_bit 6 1018 = (0xfe80 :: int)"
    by (simp_all add: push_bit_eq_mult mask_eq_exp_minus_1)
  show "(x AND 0xfe00) = 0xfc00 \<longleftrightarrow> x div 512 = 126"
    using g0_mask [OF assms, of 9 126] unfolding c by simp
  show "(x AND 0xffc0) = 0xfe80 \<longleftrightarrow> x div 64 = 1018"
    using g0_mask [OF assms, of 6 1018] unfolding c by simp
qed

lemma group16_bytes:
  assumes "group16 x"
  shows "byte (drop_bit 8 x)" "byte (x AND 0xff)" "drop_bit 8 x * 256 + (x AND 0xff) = x"
proof -
  have "(x AND 0xff) = x mod 256" using take_bit_eq_mask [of 8 x] by (simp add: mask_eq_exp_minus_1 take_bit_eq_mod)
  then show "byte (drop_bit 8 x)" "byte (x AND 0xff)" "drop_bit 8 x * 256 + (x AND 0xff) = x"
    using assms by (auto simp: byte_def group16_def drop_bit_eq_div)
qed

lemma v6_addr_snoc: "v6_addr (gs @ [g]) = v6_addr gs * 65536 + g"
  by (simp add: v6_addr_def)

lemma v6_addr_inj:
  "length xs = length ys \<Longrightarrow> list_all group16 xs \<Longrightarrow> list_all group16 ys \<Longrightarrow> v6_addr xs = v6_addr ys \<Longrightarrow> xs = ys"
proof (induction xs arbitrary: ys rule: rev_induct)
  case (snoc x xs)
  then obtain y ys' where ys: "ys = ys' @ [y]" by (metis length_0_conv rev_exhaust snoc_eq_iff_butlast)
  have e: "v6_addr xs * 65536 + x = v6_addr ys' * 65536 + y" using snoc.prems(4) by (simp add: ys v6_addr_snoc)
  have bd: "0 \<le> x" "x < 65536" "0 \<le> y" "y < 65536" using snoc.prems(2,3) by (auto simp: ys group16_def)
  have "v6_addr xs = v6_addr ys'"
    using e bd int_div_pos_eq [of "v6_addr xs * 65536 + x" 65536 "v6_addr xs" x]
      int_div_pos_eq [of "v6_addr xs * 65536 + x" 65536 "v6_addr ys'" y] by simp
  then show ?case using snoc.IH [of ys'] snoc.prems e by (simp add: ys)
qed simp

text \<open>The code's tests on groups are membership in the blocks.\<close>

lemma isPrivateIpv6Canonical_spec:
  assumes "length gs = 8" "list_all group16 gs"
  shows "isPrivateIpv6Canonical gs \<longleftrightarrow> v6_private (v6_addr gs)"
proof -
  obtain g0 g1 g2 g3 g4 g5 g6 g7 where gs: "gs = [g0, g1, g2, g3, g4, g5, g6, g7]"
    using assms(1) by (auto simp: numeral_eq_Suc length_Suc_conv)
  have g: "group16 g0" "group16 g1" "group16 g2" "group16 g3" "group16 g4" "group16 g5" "group16 g6" "group16 g7"
    using assms(2) by (simp_all add: gs)
  have bd: "0 \<le> g0" "g0 \<le> 65535" "0 \<le> g1" "g1 \<le> 65535" "0 \<le> g2" "g2 \<le> 65535" "0 \<le> g3" "g3 \<le> 65535"
    "0 \<le> g4" "g4 \<le> 65535" "0 \<le> g5" "g5 \<le> 65535" "0 \<le> g6" "g6 \<le> 65535" "0 \<le> g7" "g7 \<le> 65535"
    using g by (simp_all add: group16_def)
  let ?low = "g1 * 2 ^ 96 + g2 * 2 ^ 80 + g3 * 2 ^ 64 + g4 * 2 ^ 48 + g5 * 2 ^ 32 + g6 * 2 ^ 16 + g7"
  have addr: "v6_addr gs = g0 * 2 ^ 112 + ?low" by (simp add: v6_addr_def gs algebra_simps)
  have low: "0 \<le> ?low" "?low < 2 ^ 112" using bd by simp_all
  have hi: "v6_addr gs div 2 ^ 112 = g0" by (rule int_div_pos_eq [where r = ?low]) (use addr low in simp_all)
  have "v6_addr gs div 2 ^ 121 = g0 div 512" "v6_addr gs div 2 ^ 118 = g0 div 64"
    using zdiv_zmult2_eq [of "2 ^ 9" "v6_addr gs" "2 ^ 112"] zdiv_zmult2_eq [of "2 ^ 6" "v6_addr gs" "2 ^ 112"] hi
    by (simp_all flip: power_add)
  then have local: "in_cidr 128 (v6_addr gs) (0xfc00 * 2 ^ 112, 7) \<longleftrightarrow> g0 div 512 = 126"
    "in_cidr 128 (v6_addr gs) (0xfe80 * 2 ^ 112, 10) \<longleftrightarrow> g0 div 64 = 1018"
    by (simp_all add: in_cidr_def)
  have loop: "in_cidr 128 (v6_addr gs) (1, 128) \<longleftrightarrow>
      g0 = 0 \<and> g1 = 0 \<and> g2 = 0 \<and> g3 = 0 \<and> g4 = 0 \<and> g5 = 0 \<and> g6 = 0 \<and> g7 = 1"
  proof
    assume "in_cidr 128 (v6_addr gs) (1, 128)"
    then have "v6_addr gs = v6_addr [0, 0, 0, 0, 0, 0, 0, 1]" by (simp add: in_cidr_def v6_addr_def)
    then have "gs = [0, 0, 0, 0, 0, 0, 0, 1]"
      by (rule v6_addr_inj [rotated 3]) (use assms in \<open>simp_all add: group16_def\<close>)
    then show "g0 = 0 \<and> g1 = 0 \<and> g2 = 0 \<and> g3 = 0 \<and> g4 = 0 \<and> g5 = 0 \<and> g6 = 0 \<and> g7 = 1" by (simp add: gs)
  qed (simp add: in_cidr_def addr)
  have top6: "v6_addr gs div 2 ^ 32 = v6_addr [g0, g1, g2, g3, g4, g5]" "v6_addr gs mod 2 ^ 32 = g6 * 65536 + g7"
    by (rule int_div_pos_eq [where r = "g6 * 65536 + g7"], use bd in \<open>simp_all add: v6_addr_def gs algebra_simps\<close>)
      (rule int_mod_pos_eq [where q = "v6_addr [g0, g1, g2, g3, g4, g5]"],
       use bd in \<open>simp_all add: v6_addr_def gs algebra_simps\<close>)
  have mapped: "in_cidr 128 (v6_addr gs) (0xffff * 2 ^ 32, 96) \<longleftrightarrow>
      g0 = 0 \<and> g1 = 0 \<and> g2 = 0 \<and> g3 = 0 \<and> g4 = 0 \<and> g5 = 0xffff"
  proof
    assume "in_cidr 128 (v6_addr gs) (0xffff * 2 ^ 32, 96)"
    then have "v6_addr [g0, g1, g2, g3, g4, g5] = v6_addr [0, 0, 0, 0, 0, 0xffff]"
      using top6 by (simp add: in_cidr_def) (simp add: v6_addr_def)
    then have "[g0, g1, g2, g3, g4, g5] = [0, 0, 0, 0, 0, 0xffff]"
      by (rule v6_addr_inj [rotated 3]) (use g in \<open>simp_all add: group16_def\<close>)
    then show "g0 = 0 \<and> g1 = 0 \<and> g2 = 0 \<and> g3 = 0 \<and> g4 = 0 \<and> g5 = 0xffff" by simp
  qed (use top6 in \<open>simp add: in_cidr_def v6_addr_def\<close>)
  let ?bs = "[drop_bit 8 g6, g6 AND 0xff, drop_bit 8 g7, g7 AND 0xff]"
  let ?text = "js_join ''.'' (map (\<lambda>n. nat_text (nat n)) ?bs)"
  have v4: "v4_addr (drop_bit 8 g6) (g6 AND 0xff) (drop_bit 8 g7) (g7 AND 0xff) = g6 * 65536 + g7"
    using group16_bytes(3) [OF g(7)] group16_bytes(3) [OF g(8)] by (simp add: v4_addr_def)
  have "map js_number (js_split CHR ''.'' ?text) = map Some ?bs"
    using quad_split [of "nat (drop_bit 8 g6)" "nat (g6 AND 0xff)" "nat (drop_bit 8 g7)" "nat (g7 AND 0xff)"]
      group16_bytes(1,2) [OF g(7)] group16_bytes(1,2) [OF g(8)] by (simp add: byte_def)
  then have quad: "isPrivateIpv4 ?text \<longleftrightarrow> v4_private (g6 * 65536 + g7)"
    using isPrivateIpv4_spec [of ?text] group16_bytes(1,2) [OF g(7)] group16_bytes(1,2) [OF g(8)] v4 by metis
  show ?thesis
    unfolding v6_private_def
    using loop local mapped quad top6(2) g0_masks [OF g(1)]
    by (auto simp: isPrivateIpv6Canonical_def gs)
qed

lemma expand_groups: "expand side = Some gs \<Longrightarrow> list_all group16 gs"
proof -
  assume e: "expand side = Some gs"
  have "group16 (hex_number p)" if "hex_group p" for p
  proof -
    have "(16 :: int) ^ length p \<le> 16 ^ 4" using that by (intro power_increasing) (auto simp: hex_group_def)
    then have "hex_number p < 16 ^ 4" using hex_number_bound(2) [of p] by linarith
    then show ?thesis using hex_number_bound(1) [of p] by (simp add: group16_def)
  qed
  then show ?thesis using e by (auto simp: expand_def Let_def list_all_iff split: if_splits)
qed

lemma octets_group: "octet_range (Some a) \<Longrightarrow> octet_range (Some b) \<Longrightarrow> group16 (push_bit 8 a OR b)"
  using OR_upper [of "push_bit 8 a" 16 b] or_nonnegative_int_iff [of "push_bit 8 a" b]
  by (auto simp: octet_range_def group16_def push_bit_eq_mult)

lemma ipv6_tail_groups: "ipv6_tail ip = Some (head, tailGroups) \<Longrightarrow> list_all group16 tailGroups"
proof -
  assume t: "ipv6_tail ip = Some (head, tailGroups)"
  have ps: "list_all group16 [push_bit 8 (the (ps ! 0)) OR the (ps ! 1), push_bit 8 (the (ps ! 2)) OR the (ps ! 3)]"
    if "length ps = 4" "list_all octet_range ps" for ps
    using that octets_group by (auto simp: numeral_eq_Suc length_Suc_conv octet_range_def split: option.splits)
  show ?thesis
  proof (cases "dotted_tail ip")
    case None
    then show ?thesis using t by (simp add: ipv6_tail_def)
  next
    case (Some fq)
    define parts where "parts = map js_number (js_split CHR ''.'' (snd fq))"
    have "length parts = 4 \<and> list_all octet_range parts \<and> tailGroups =
        [push_bit 8 (the (parts ! 0)) OR the (parts ! 1), push_bit 8 (the (parts ! 2)) OR the (parts ! 3)]"
      using t unfolding ipv6_tail_def Some option.case prod.case_eq_if Let_def parts_def [symmetric]
      by (simp split: if_splits)
    then show ?thesis using ps by blast
  qed
qed

lemma ipv6_groups_group16:
  "ipv6_groups head tailGroups = Some gs \<Longrightarrow> list_all group16 tailGroups \<Longrightarrow> list_all group16 gs"
proof -
  assume g: "ipv6_groups head tailGroups = Some gs" "list_all group16 tailGroups"
  have "list_all group16 (replicate n 0)" for n by (simp add: list_all_iff group16_def)
  then show ?thesis
    using g by (auto simp: ipv6_groups_def Let_def dest!: expand_groups split: option.splits if_splits)
qed

lemma canonicalize_groups: "canonicalizeIpv6 ip = Some gs \<Longrightarrow> length gs = 8 \<and> list_all group16 gs"
  using ipv6_groups_group16 ipv6_tail_groups
  by (auto simp: canonicalizeIpv6_def split: if_splits option.splits)

lemma isIPv4_octets:
  assumes "isIPv4 s"
  shows "\<exists>a b c d. map js_number (js_split CHR ''.'' s) = map Some [a, b, c, d] \<and> byte a \<and> byte b \<and> byte c \<and> byte d"
proof -
  obtain w x y z where p: "js_split CHR ''.'' s = [w, x, y, z]" "v4_segment w" "v4_segment x" "v4_segment y" "v4_segment z"
    using assms by (auto simp: isIPv4_def Let_def numeral_eq_Suc length_Suc_conv)
  have "js_number p = Some (digits_value p) \<and> byte (digits_value p)" if "v4_segment p" for p
    using that digits_value_nonneg [of p] by (auto simp: v4_segment_def js_number_def byte_def)
  then show ?thesis using p by fastforce
qed

section \<open>Properties\<close>

text \<open>What an address may be, stated over numbers: an IPv4 literal outside the private blocks, or
  an IPv6 literal whose 128-bit value is outside them, mapped IPv4 included.\<close>

definition public_address :: "string \<Rightarrow> bool" where
  "public_address ip =
     (let s = js_toLowerCase (js_trim ip)
      in (\<exists>a b c d. map js_number (js_split CHR ''.'' s) = map Some [a, b, c, d]
            \<and> byte a \<and> byte b \<and> byte c \<and> byte d \<and> \<not> v4_private (v4_addr a b c d))
         \<or> (\<exists>gs. canonicalizeIpv6 s = Some gs \<and> length gs = 8 \<and> list_all group16 gs \<and> \<not> v6_private (v6_addr gs)))"

lemma not_private_public: "\<not> isPrivateAddress ip \<Longrightarrow> public_address ip"
proof -
  assume np: "\<not> isPrivateAddress ip"
  let ?s = "js_toLowerCase (js_trim ip)"
  show ?thesis
  proof (cases "isIPv4 ?s")
    case True
    then have "\<not> isPrivateIpv4 ?s" using np by (simp add: isPrivateAddress_def isIP_def Let_def)
    then show ?thesis using isIPv4_octets [OF True] isPrivateIpv4_spec unfolding public_address_def Let_def by blast
  next
    case False
    then obtain gs where gs: "canonicalizeIpv6 ?s = Some gs" "\<not> isPrivateIpv6Canonical gs"
      using np by (auto simp: isPrivateAddress_def isIP_def Let_def split: if_splits option.splits)
    then have "length gs = 8" "list_all group16 gs" "\<not> v6_private (v6_addr gs)"
      using canonicalize_groups [OF gs(1)] isPrivateIpv6Canonical_spec by auto
    then show ?thesis using gs(1) unfolding public_address_def Let_def by blast
  qed
qed

text \<open>A webhook host that passes the guard resolved to at least one address, and every one of
  its addresses lies outside the private IPv4 blocks and outside the loopback, unique-local,
  link-local and private IPv4-mapped blocks of IPv6, however the literal was written.\<close>

theorem checkWebhookHost_sound:
  assumes "checkWebhookHost hostname resolver = SsrfOk addresses"
  shows "addresses \<noteq> [] \<and> list_all public_address addresses"
proof -
  have "addresses \<noteq> [] \<and> (\<forall>a \<in> set addresses. \<not> isPrivateAddress a)"
    using assms by (auto simp: checkWebhookHost_def list_ex_iff split: if_splits option.splits)
  then show ?thesis by (auto simp: list_all_iff intro: not_private_public)
qed


theorem checkWebhookHost_sound_witness:
  "list_all public_address [''93.184.216.34'', ''2606:2800:220:1::1'']"
proof -
  have "checkWebhookHost ''example.com'' (\<lambda>_. Some [''93.184.216.34'', ''2606:2800:220:1::1''])
      = SsrfOk [''93.184.216.34'', ''2606:2800:220:1::1'']"
    by code_simp
  then show ?thesis using checkWebhookHost_sound by blast
qed

end
