(* ===== verification/Shared_Engine.thy ===== *)
theory Shared_Engine
  imports Db_Schema
begin

text \<open>
  \<^verbatim>\<open>packages/shared/src/engine/\<close> (circuit breaker, client, response schema, errors) and the
  stored-check snapshot of \<^verbatim>\<open>packages/shared/src/checks.ts\<close>. HTTP is an argument: what
  the transport does on each attempt. A response body is the value \<open>JSON.parse\<close> gives for it,
  \<open>None\<close> when it throws. Clock readings are arguments.
\<close>

section \<open>Errors\<close>

datatype contract_detail = Body_not_json | Schema_mismatch

datatype engine_error =
    EngineUnavailableError string
  | EngineTimeoutError int
  | EngineContractError contract_detail
  | EngineHttpError int

section \<open>Circuit breaker\<close>

datatype breaker_state = Closed | Open | Half_open

record circuit_breaker =
  failureThreshold :: nat
  openDurationMs :: int
  cb_state :: breaker_state
  consecutiveFailures :: nat
  openedAt :: time_ms
  probeInFlight :: bool

definition new_breaker :: "nat option \<Rightarrow> int option \<Rightarrow> circuit_breaker" where
  "new_breaker threshold duration =
     \<lparr>failureThreshold = (case threshold of Some n \<Rightarrow> n | None \<Rightarrow> 5),
      openDurationMs = (case duration of Some d \<Rightarrow> d | None \<Rightarrow> 30000),
      cb_state = Closed, consecutiveFailures = 0, openedAt = 0, probeInFlight = False\<rparr>"

definition acquire :: "time_ms \<Rightarrow> circuit_breaker \<Rightarrow> engine_error + circuit_breaker" where
  "acquire now cb =
     (if cb_state cb = Open \<and> now - openedAt cb < openDurationMs cb
      then Inl (EngineUnavailableError ''engine circuit is open; request not attempted'')
      else
        (let cb1 = (if cb_state cb = Open then cb\<lparr>cb_state := Half_open, probeInFlight := False\<rparr> else cb)
         in if cb_state cb1 = Half_open
            then (if probeInFlight cb1
                  then Inl (EngineUnavailableError ''engine circuit is half-open; probe already in flight'')
                  else Inr (cb1\<lparr>probeInFlight := True\<rparr>))
            else Inr cb1))"

definition recordSuccess :: "circuit_breaker \<Rightarrow> circuit_breaker" where
  "recordSuccess cb = cb\<lparr>cb_state := Closed, consecutiveFailures := 0, probeInFlight := False\<rparr>"

definition open_breaker :: "time_ms \<Rightarrow> circuit_breaker \<Rightarrow> circuit_breaker" where
  "open_breaker now cb = cb\<lparr>cb_state := Open, openedAt := now, consecutiveFailures := 0, probeInFlight := False\<rparr>"

definition recordFailure :: "time_ms \<Rightarrow> circuit_breaker \<Rightarrow> circuit_breaker" where
  "recordFailure now cb =
     (if cb_state cb = Half_open then open_breaker now cb
      else
        (let cb1 = cb\<lparr>consecutiveFailures := consecutiveFailures cb + 1\<rparr>
         in if failureThreshold cb1 \<le> consecutiveFailures cb1 then open_breaker now cb1 else cb1))"

definition recordNeutral :: "circuit_breaker \<Rightarrow> circuit_breaker" where
  "recordNeutral cb = (if cb_state cb = Half_open then recordSuccess cb else cb)"

section \<open>Response schema\<close>

text \<open>\<open>z.strictObject\<close>: an object with every listed key and no other. Keys of a parsed
  object are distinct.\<close>

definition strict_object :: "string list \<Rightarrow> string list \<Rightarrow> json \<Rightarrow> (string \<rightharpoonup> json) option" where
  "strict_object required optional j =
     (case j of
        JObj kvs \<Rightarrow>
          if set required \<subseteq> fst ` set kvs \<and> fst ` set kvs \<subseteq> set required \<union> set optional
          then Some (map_of kvs) else None
      | _ \<Rightarrow> None)"

fun as_bool :: "json \<Rightarrow> bool option" where
  "as_bool (JBool b) = Some b" | "as_bool _ = None"

fun as_string :: "json \<Rightarrow> string option" where
  "as_string (JStr s) = Some s" | "as_string _ = None"

fun as_number :: "json \<Rightarrow> rat option" where
  "as_number (JNum n) = Some n" | "as_number _ = None"

fun as_strings :: "json list \<Rightarrow> string list option" where
  "as_strings [] = Some []"
| "as_strings (j # js) =
     (case (as_string j, as_strings js) of (Some s, Some ss) \<Rightarrow> Some (s # ss) | _ \<Rightarrow> None)"

definition as_nullable :: "(json \<Rightarrow> 'a option) \<Rightarrow> json \<Rightarrow> 'a option option" where
  "as_nullable f j = (if j = JNull then Some None else map_option Some (f j))"

definition field :: "(string \<rightharpoonup> json) \<Rightarrow> string \<Rightarrow> (json \<Rightarrow> 'a option) \<Rightarrow> 'a option" where
  "field m key f = (case m key of None \<Rightarrow> None | Some j \<Rightarrow> f j)"

definition engineSyntaxSchema :: "json \<Rightarrow> syntax_part option" where
  "engineSyntaxSchema j =
     Option.bind (strict_object [''valid'', ''username'', ''domain''] [] j) (\<lambda>m.
     Option.bind (field m ''valid'' as_bool) (\<lambda>v.
     Option.bind (field m ''username'' as_string) (\<lambda>u.
     Option.bind (field m ''domain'' as_string) (\<lambda>d.
       Some \<lparr>syn_valid = v, syn_username = u, syn_domain = d\<rparr>))))"

definition engineMxSchema :: "json \<Rightarrow> mx_part option" where
  "engineMxSchema j =
     Option.bind (strict_object [''has_mx'', ''records'', ''error''] [] j) (\<lambda>m.
     Option.bind (field m ''has_mx'' (as_nullable as_bool)) (\<lambda>h.
     Option.bind (field m ''records'' (\<lambda>r. case r of JArr rs \<Rightarrow> as_strings rs | _ \<Rightarrow> None)) (\<lambda>rs.
     Option.bind (field m ''error'' as_string) (\<lambda>e.
       Some \<lparr>has_mx = h, mx_records = rs, mx_error = e\<rparr>))))"

definition engineSmtpSchema :: "json \<Rightarrow> smtp_part option" where
  "engineSmtpSchema j =
     Option.bind (strict_object [''attempted'', ''mailbox_accepted'', ''catch_all'', ''full_inbox'', ''disabled'', ''error''] [] j) (\<lambda>m.
     Option.bind (field m ''attempted'' as_bool) (\<lambda>a.
     Option.bind (field m ''mailbox_accepted'' as_bool) (\<lambda>ma.
     Option.bind (field m ''catch_all'' as_bool) (\<lambda>c.
     Option.bind (field m ''full_inbox'' as_bool) (\<lambda>f.
     Option.bind (field m ''disabled'' as_bool) (\<lambda>d.
     Option.bind (field m ''error'' as_string) (\<lambda>e.
       Some \<lparr>attempted = a, mailbox_accepted = ma, catch_all = c, full_inbox = f, smtp_disabled = d, smtp_error = e\<rparr>)))))))"

definition engineResponseSchema :: "json \<Rightarrow> engine_response option" where
  "engineResponseSchema j =
     Option.bind (strict_object [''email'', ''syntax'', ''mx'', ''disposable'', ''role_account'', ''free_provider'',
                                 ''smtp'', ''duration_ms''] [] j) (\<lambda>m.
     Option.bind (field m ''email'' as_string) (\<lambda>em.
     Option.bind (field m ''syntax'' engineSyntaxSchema) (\<lambda>sy.
     Option.bind (field m ''mx'' engineMxSchema) (\<lambda>mx.
     Option.bind (field m ''disposable'' as_bool) (\<lambda>di.
     Option.bind (field m ''role_account'' as_bool) (\<lambda>ro.
     Option.bind (field m ''free_provider'' as_bool) (\<lambda>fr.
     Option.bind (field m ''smtp'' (as_nullable engineSmtpSchema)) (\<lambda>sm.
     Option.bind (field m ''duration_ms'' as_number) (\<lambda>du.
       Some \<lparr>eng_email = em, eng_syntax = sy, eng_mx = mx, disposable = di, role_account = ro,
             free_provider = fr, eng_smtp = sm, duration_ms = du\<rparr>)))))))))"

section \<open>Client\<close>

definition NON_SMTP_TIMEOUT_MS :: int where "NON_SMTP_TIMEOUT_MS = 20000"
definition SMTP_TIMEOUT_MS :: int where "SMTP_TIMEOUT_MS = 30000"
definition MAX_ATTEMPTS :: nat where "MAX_ATTEMPTS = 3"
definition RETRY_DELAYS_MS :: "int list" where "RETRY_DELAYS_MS = [200, 800]"

datatype outcome = O_ok | O_circuit_open | O_timeout | O_network_error | O_http_4xx | O_http_5xx | O_contract_error

datatype transport_result =
    TransportTimeout int
  | TransportThrew
  | TransportResponse int "json option"

text \<open>\<open>fetchTransport\<close>: the rejection of \<open>fetch\<close> itself is mapped, that of reading
  the body is not.\<close>

datatype fetch_result =
    FetchAborted                        \<comment> \<open>a \<open>TimeoutError\<close> or \<open>AbortError\<close>\<close>
  | FetchRejected
  | FetchBodyRejected                   \<comment> \<open>headers arrived, \<open>response.text()\<close> rejected\<close>
  | FetchResponse int "json option"

fun fetchTransport :: "int \<Rightarrow> fetch_result \<Rightarrow> transport_result" where
  "fetchTransport timeoutMs FetchAborted = TransportTimeout timeoutMs"
| "fetchTransport timeoutMs FetchRejected = TransportThrew"
| "fetchTransport timeoutMs FetchBodyRejected = TransportThrew"
| "fetchTransport timeoutMs (FetchResponse status body) = TransportResponse status body"

datatype attempt =
    A_success engine_response
  | A_client_error engine_error
  | A_service_failure engine_error outcome

definition attemptOnce :: "transport_result \<Rightarrow> attempt" where
  "attemptOnce r =
     (case r of
        TransportTimeout t \<Rightarrow> A_service_failure (EngineTimeoutError t) O_timeout
      | TransportThrew \<Rightarrow> A_service_failure (EngineUnavailableError ''engine request failed'') O_network_error
      | TransportResponse status body \<Rightarrow>
          if 500 \<le> status then A_service_failure (EngineHttpError status) O_http_5xx
          else if 400 \<le> status then A_client_error (EngineHttpError status)
          else
            (case body of
               None \<Rightarrow> A_service_failure (EngineContractError Body_not_json) O_contract_error
             | Some parsed \<Rightarrow>
                 (case engineResponseSchema parsed of
                    None \<Rightarrow> A_service_failure (EngineContractError Schema_mismatch) O_contract_error
                  | Some data \<Rightarrow> A_success data)))"

record call_log =
  cl_outcome :: outcome
  cl_attempts :: nat
  cl_delays :: "int list"   \<comment> \<open>the sleeps between attempts\<close>

text \<open>The loop: \<open>transport k\<close> is what attempt \<open>k\<close> (from 1) does.\<close>

datatype loop_end =
    Loop_ok engine_response
  | Loop_client_error engine_error
  | Loop_failed "(engine_error \<times> outcome) option"

function verify_loop ::
  "(nat \<Rightarrow> transport_result) \<Rightarrow> nat \<Rightarrow> int list \<Rightarrow> (engine_error \<times> outcome) option \<Rightarrow> loop_end \<times> nat \<times> int list" where
  "verify_loop transport attempts delays lastFailure =
     (if attempts < MAX_ATTEMPTS then
        (let attempts' = attempts + 1
         in case attemptOnce (transport attempts') of
              A_success response \<Rightarrow> (Loop_ok response, attempts', delays)
            | A_client_error err \<Rightarrow> (Loop_client_error err, attempts', delays)
            | A_service_failure err out \<Rightarrow>
                (let retryable = (out = O_network_error \<or> out = O_http_5xx)
                 in if \<not> retryable \<or> MAX_ATTEMPTS \<le> attempts' then (Loop_failed (Some (err, out)), attempts', delays)
                    else verify_loop transport attempts'
                           (delays @ [js_at RETRY_DELAYS_MS (attempts' - 1) (RETRY_DELAYS_MS ! 1)]) (Some (err, out))))
      else (Loop_failed lastFailure, attempts, delays))"
  by pat_completeness auto
termination by (relation "measure (\<lambda>(_, attempts, _, _). MAX_ATTEMPTS - attempts)") auto

declare verify_loop.simps [simp del]

text \<open>\<open>acquired\<close> and \<open>finished\<close> are the clock when the breaker is asked and when it is
  told of a failure. The result is what \<open>verify\<close> returns or throws, with the breaker after
  it and the log record it wrote, if any.\<close>

definition verify ::
  "time_ms \<Rightarrow> time_ms \<Rightarrow> (nat \<Rightarrow> transport_result) \<Rightarrow> circuit_breaker
     \<Rightarrow> (engine_error + engine_response) \<times> circuit_breaker \<times> call_log option" where
  "verify acquired finished transport cb =
     (case acquire acquired cb of
        Inl err \<Rightarrow> (Inl err, cb, Some \<lparr>cl_outcome = O_circuit_open, cl_attempts = 0, cl_delays = []\<rparr>)
      | Inr cb1 \<Rightarrow>
          (case verify_loop transport 0 [] None of
             (Loop_ok response, n, ds) \<Rightarrow>
               (Inr response, recordSuccess cb1, Some \<lparr>cl_outcome = O_ok, cl_attempts = n, cl_delays = ds\<rparr>)
           | (Loop_client_error err, n, ds) \<Rightarrow>
               (Inl err, recordNeutral cb1, Some \<lparr>cl_outcome = O_http_4xx, cl_attempts = n, cl_delays = ds\<rparr>)
           | (Loop_failed failure, n, ds) \<Rightarrow>
               (let cb2 = recordFailure finished cb1
                in case failure of
                     None \<Rightarrow> (Inl (EngineUnavailableError ''engine call failed without a recorded cause''), cb2, None)
                   | Some (err, out) \<Rightarrow> (Inl err, cb2, Some \<lparr>cl_outcome = out, cl_attempts = n, cl_delays = ds\<rparr>))))"

definition request_timeout :: "bool \<Rightarrow> int" where
  "request_timeout smtp = (if smtp then SMTP_TIMEOUT_MS else NON_SMTP_TIMEOUT_MS)"

definition emailLogFields :: "(string \<Rightarrow> string) \<Rightarrow> string \<Rightarrow> string \<times> string" where
  "emailLogFields sha256Hex email =
     (let i = js_lastIndexOf email CHR ''@'';
          localPart = (if 0 \<le> i then js_slice email 0 i else email);
          domain = (if 0 \<le> i then js_slice_from email (i + 1) else [])
      in (domain, sha256Hex localPart))"

section \<open>Stored snapshots\<close>

datatype smtp_status = Smtp_skipped | Smtp_pending | Smtp_complete

fun smtp_status_text :: "smtp_status \<Rightarrow> string" where
  "smtp_status_text Smtp_skipped = ''skipped''"
| "smtp_status_text Smtp_pending = ''pending''"
| "smtp_status_text Smtp_complete = ''complete''"

fun op_reason_text :: "operational_reason \<Rightarrow> string" where
  "op_reason_text Op_SMTP_DISABLED = ''SMTP_DISABLED''"
| "op_reason_text Op_CIRCUIT_OPEN = ''CIRCUIT_OPEN''"

definition as_enum :: "('a \<Rightarrow> string) \<Rightarrow> 'a list \<Rightarrow> json \<Rightarrow> 'a option" where
  "as_enum txt vals j = Option.bind (as_string j) (\<lambda>s. find (\<lambda>v. txt v = s) vals)"

record stored_email_check =
  st_engine :: engine_response
  st_score :: rat
  st_disclaimer :: string
  st_typo :: "prop_value option"
  st_smtp_status :: smtp_status
  st_operational_reason :: "operational_reason option"

definition parseStoredEmailCheck :: "json \<Rightarrow> stored_email_check option" where
  "parseStoredEmailCheck j =
     Option.bind (strict_object [''engine'', ''score'', ''disclaimer'', ''typo'', ''smtp_status''] [''operational_reason''] j) (\<lambda>m.
     Option.bind (field m ''engine'' engineResponseSchema) (\<lambda>en.
     Option.bind (field m ''score'' as_number) (\<lambda>sc.
     Option.bind (field m ''disclaimer'' as_string) (\<lambda>di.
     Option.bind (field m ''typo'' (as_nullable as_string)) (\<lambda>ty.
     Option.bind (field m ''smtp_status'' (as_enum smtp_status_text [Smtp_skipped, Smtp_pending, Smtp_complete])) (\<lambda>ss.
     Option.bind (case m ''operational_reason'' of None \<Rightarrow> Some None
                  | Some r \<Rightarrow> map_option Some (as_enum op_reason_text [Op_SMTP_DISABLED, Op_CIRCUIT_OPEN] r)) (\<lambda>op.
       Some \<lparr>st_engine = en, st_score = sc, st_disclaimer = di, st_typo = map_option Text ty, st_smtp_status = ss,
             st_operational_reason = op\<rparr>)))))))"

text \<open>What \<open>JSON.stringify\<close> followed by \<open>jsonb\<close> storage keeps of a snapshot: a field that
  is \<open>undefined\<close> or a function is left out, and \<open>Object.prototype\<close> is an empty object.\<close>

definition syntax_json :: "syntax_part \<Rightarrow> json" where
  "syntax_json s = JObj [(''valid'', JBool (syn_valid s)), (''username'', JStr (syn_username s)),
     (''domain'', JStr (syn_domain s))]"

definition mx_json :: "mx_part \<Rightarrow> json" where
  "mx_json m = JObj [(''has_mx'', case has_mx m of None \<Rightarrow> JNull | Some b \<Rightarrow> JBool b),
     (''records'', JArr (map JStr (mx_records m))), (''error'', JStr (mx_error m))]"

definition smtp_json :: "smtp_part \<Rightarrow> json" where
  "smtp_json s = JObj [(''attempted'', JBool (attempted s)), (''mailbox_accepted'', JBool (mailbox_accepted s)),
     (''catch_all'', JBool (catch_all s)), (''full_inbox'', JBool (full_inbox s)),
     (''disabled'', JBool (smtp_disabled s)), (''error'', JStr (smtp_error s))]"

definition engine_json :: "engine_response \<Rightarrow> json" where
  "engine_json e = JObj [(''email'', JStr (eng_email e)), (''syntax'', syntax_json (eng_syntax e)),
     (''mx'', mx_json (eng_mx e)), (''disposable'', JBool (disposable e)), (''role_account'', JBool (role_account e)),
     (''free_provider'', JBool (free_provider e)),
     (''smtp'', case eng_smtp e of None \<Rightarrow> JNull | Some s \<Rightarrow> smtp_json s), (''duration_ms'', JNum (duration_ms e))]"

fun typo_json :: "prop_value option \<Rightarrow> (string \<times> json) list" where
  "typo_json None = [(''typo'', JNull)]"
| "typo_json (Some (Text t)) = [(''typo'', JStr t)]"
| "typo_json (Some (Inherited k)) = (if k = ''__proto__'' then [(''typo'', JObj [])] else [])"

definition stored_json :: "stored_email_check \<Rightarrow> json" where
  "stored_json s = JObj ([(''engine'', engine_json (st_engine s)), (''score'', JNum (st_score s)),
     (''disclaimer'', JStr (st_disclaimer s))]
     @ typo_json (st_typo s)
     @ [(''smtp_status'', JStr (smtp_status_text (st_smtp_status s)))]
     @ (case st_operational_reason s of None \<Rightarrow> [] | Some r \<Rightarrow> [(''operational_reason'', JStr (op_reason_text r))]))"

section \<open>Lemmas: the codec\<close>

lemma as_strings_map [simp]: "as_strings (map JStr ss) = Some ss"
  by (induction ss) auto

lemma engineSyntaxSchema_json [simp]: "engineSyntaxSchema (syntax_json s) = Some s"
  by (simp add: engineSyntaxSchema_def syntax_json_def strict_object_def field_def)

lemma engineMxSchema_json [simp]: "engineMxSchema (mx_json m) = Some m"
  by (cases m) (simp add: engineMxSchema_def mx_json_def strict_object_def field_def as_nullable_def split: option.splits)

lemma engineSmtpSchema_json [simp]: "engineSmtpSchema (smtp_json s) = Some s"
  by (simp add: engineSmtpSchema_def smtp_json_def strict_object_def field_def)

lemma smtp_json_not_null [simp]: "smtp_json s \<noteq> JNull"
  by (simp add: smtp_json_def)

lemma engineResponseSchema_json [simp]: "engineResponseSchema (engine_json e) = Some e"
  by (cases e) (simp add: engineResponseSchema_def engine_json_def strict_object_def field_def as_nullable_def split: option.splits)

lemma as_enum_smtp [simp]:
  "as_enum smtp_status_text [Smtp_skipped, Smtp_pending, Smtp_complete] (JStr (smtp_status_text v)) = Some v"
  by (cases v) (simp_all add: as_enum_def)

lemma as_enum_op [simp]:
  "as_enum op_reason_text [Op_SMTP_DISABLED, Op_CIRCUIT_OPEN] (JStr (op_reason_text v)) = Some v"
  by (cases v) (simp_all add: as_enum_def)

lemmas stored_codec = parseStoredEmailCheck_def stored_json_def strict_object_def field_def as_nullable_def

lemma parse_stored_json:
  assumes "\<And>k. st_typo s \<noteq> Some (Inherited k)"
  shows "parseStoredEmailCheck (stored_json s) = Some s"
proof (cases "st_typo s")
  case None
  then show ?thesis by (cases s) (simp add: stored_codec split: option.splits)
next
  case (Some v)
  then obtain t where "v = Text t" using assms by (cases v) auto
  then show ?thesis using Some by (cases s) (simp add: stored_codec split: option.splits)
qed

lemma parse_stored_json_inherited:
  assumes "st_typo s = Some (Inherited k)"
  shows "parseStoredEmailCheck (stored_json s) = None"
  using assms by (auto simp: stored_codec split: option.splits)

section \<open>Lemmas: the loop\<close>

lemma attempt_cases: "attemptOnce r = A_service_failure err out \<Longrightarrow> out \<in> {O_timeout, O_network_error, O_http_5xx, O_contract_error}"
  by (auto simp: attemptOnce_def split: transport_result.splits if_splits option.splits)

definition retryable :: "transport_result \<Rightarrow> bool" where
  "retryable r = (\<exists>err out. attemptOnce r = A_service_failure err out \<and> out \<in> {O_network_error, O_http_5xx})"

text \<open>What one call amounts to after \<open>n\<close> attempts of which the first \<open>n - 1\<close> were retried.\<close>

definition loop_result :: "attempt \<Rightarrow> loop_end" where
  "loop_result a = (case a of A_success r \<Rightarrow> Loop_ok r | A_client_error e \<Rightarrow> Loop_client_error e
     | A_service_failure e out \<Rightarrow> Loop_failed (Some (e, out)))"

lemma verify_loop_step:
  assumes "k < 3"
  shows "verify_loop tr k ds lf =
    (if retryable (tr (k + 1)) \<and> k + 1 < 3
     then verify_loop tr (k + 1) (ds @ [if k = 0 then 200 else 800])
            (case attemptOnce (tr (k + 1)) of A_service_failure e out \<Rightarrow> Some (e, out) | _ \<Rightarrow> None)
     else (loop_result (attemptOnce (tr (k + 1))), k + 1, ds))"
  using assms
  by (subst verify_loop.simps)
     (auto simp: MAX_ATTEMPTS_def RETRY_DELAYS_MS_def js_at_def retryable_def loop_result_def Let_def less_Suc_eq numeral_3_eq_3
       split: attempt.splits)

text \<open>The loop ends at the first attempt that is not a network error or a 5xx, and at the
  third one at the latest.\<close>

definition attempts_needed :: "(nat \<Rightarrow> transport_result) \<Rightarrow> nat" where
  "attempts_needed tr = (if \<not> retryable (tr 1) then 1 else if \<not> retryable (tr 2) then 2 else 3)"

lemma verify_loop_result:
  "verify_loop tr 0 [] None =
     (loop_result (attemptOnce (tr (attempts_needed tr))), attempts_needed tr, take (attempts_needed tr - 1) [200, 800])"
  by (simp add: verify_loop_step attempts_needed_def numeral_2_eq_2 numeral_3_eq_3)

lemma attempts_needed_range: "1 \<le> attempts_needed tr" "attempts_needed tr \<le> 3"
  by (auto simp: attempts_needed_def)

lemma attempts_before: "1 \<le> k \<Longrightarrow> k < attempts_needed tr \<Longrightarrow> retryable (tr k)"
  by (auto simp: attempts_needed_def less_Suc_eq numeral_3_eq_3 numeral_2_eq_2 split: if_splits)

text \<open>C7: A verify call that the breaker admits makes between one and three attempts: it stops at
  the first one that is neither a network error nor a 5xx, sleeps 200 ms and then 800 ms in
  between, returns or throws what the last attempt gave, and tells the breaker of it exactly once,
  an HTTP 4xx as neutral and every other failure as one failure.\<close>

theorem verify_outcome:
  assumes "acquire t0 cb = Inr cb1"
  shows "\<exists>n. 1 \<le> n \<and> n \<le> 3 \<and> (\<forall>k. 1 \<le> k \<and> k < n \<longrightarrow> retryable (transport k)) \<and> (n < 3 \<longrightarrow> \<not> retryable (transport n))
    \<and> verify t0 t1 transport cb =
        (let written = (\<lambda>out. Some \<lparr>cl_outcome = out, cl_attempts = n, cl_delays = take (n - 1) [200, 800]\<rparr>)
         in case attemptOnce (transport n) of
              A_success r \<Rightarrow> (Inr r, recordSuccess cb1, written O_ok)
            | A_client_error e \<Rightarrow> (Inl e, recordNeutral cb1, written O_http_4xx)
            | A_service_failure e out \<Rightarrow> (Inl e, recordFailure t1 cb1, written out))"
proof (intro exI [of _ "attempts_needed transport"] conjI attempts_needed_range allI impI)
  show "attempts_needed transport < 3 \<Longrightarrow> \<not> retryable (transport (attempts_needed transport))"
    by (auto simp: attempts_needed_def split: if_splits)
qed (use assms in \<open>auto simp: attempts_before verify_def verify_loop_result loop_result_def Let_def split: attempt.splits\<close>)

theorem verify_outcome_witness:
  "\<exists>n \<le> 3. verify 0 9000 (\<lambda>k. if k = 1 then TransportThrew else TransportResponse 404 None) (new_breaker None None) =
     (Inl (EngineHttpError 404), new_breaker None None, Some \<lparr>cl_outcome = O_http_4xx, cl_attempts = n, cl_delays = [200]\<rparr>)"
proof -
  let ?tr = "\<lambda>k::nat. if k = 1 then TransportThrew else TransportResponse 404 None"
  have "acquire 0 (new_breaker None None) = Inr (new_breaker None None)"
    by (simp add: acquire_def new_breaker_def)
  from verify_outcome [OF this, of ?tr 9000] obtain n where
    n: "1 \<le> n" "n \<le> 3" "\<forall>k. 1 \<le> k \<and> k < n \<longrightarrow> retryable (?tr k)" "n < 3 \<longrightarrow> \<not> retryable (?tr n)"
    and v: "verify 0 9000 ?tr (new_breaker None None) =
        (let written = (\<lambda>out. Some \<lparr>cl_outcome = out, cl_attempts = n, cl_delays = take (n - 1) [200, 800]\<rparr>)
         in case attemptOnce (?tr n) of
              A_success r \<Rightarrow> (Inr r, recordSuccess (new_breaker None None), written O_ok)
            | A_client_error e \<Rightarrow> (Inl e, recordNeutral (new_breaker None None), written O_http_4xx)
            | A_service_failure e out \<Rightarrow> (Inl e, recordFailure 9000 (new_breaker None None), written out))"
    by blast
  have r1: "retryable (?tr 1)" by (simp add: retryable_def attemptOnce_def)
  have r2: "\<not> retryable (?tr 2)" by (simp add: retryable_def attemptOnce_def)
  have "n \<noteq> 1" using n(4) r1 by auto
  moreover have "n \<noteq> 3" using n(3) r2 by (metis (no_types, lifting) Suc_1 lessI numeral_3_eq_3 one_le_numeral numeral_2_eq_2)
  ultimately have "n = 2" using n(1,2) by linarith
  then show ?thesis using v n(2) by (auto simp: attemptOnce_def recordNeutral_def new_breaker_def Let_def)
qed

section \<open>Failure gates\<close>

text \<open>What a client of a breaker relies on: in the steady state failures count up, a count is
  still alive for the next failure, and the one that reaches the limit closes the gate for
  \<open>cooldown\<close>.\<close>

locale failure_gate =
  fixes fail :: "time_ms \<Rightarrow> 's \<Rightarrow> 's"
    and refuses :: "time_ms \<Rightarrow> 's \<Rightarrow> bool"
    and steady :: "time_ms \<Rightarrow> 's \<Rightarrow> bool"
    and streak :: "time_ms \<Rightarrow> 's \<Rightarrow> nat"
    and alive :: "time_ms \<Rightarrow> time_ms \<Rightarrow> bool"
    and limit :: nat
    and cooldown :: int
  assumes steady_admits: "steady t s \<Longrightarrow> \<not> refuses t s"
    and fail_counts: "steady t s \<Longrightarrow> streak t s + 1 < limit \<Longrightarrow> alive t t' \<Longrightarrow>
      steady t' (fail t s) \<and> streak t' (fail t s) = streak t s + 1"
    and fail_opens: "steady t s \<Longrightarrow> limit \<le> streak t s + 1 \<Longrightarrow> t \<le> t' \<Longrightarrow> refuses t' (fail t s) \<longleftrightarrow> t' < t + cooldown"
begin

primrec fails :: "time_ms list \<Rightarrow> 's \<Rightarrow> 's" where
  "fails [] s = s"
| "fails (t # ts) s = fails ts (fail t s)"

lemma fails_below:
  assumes "steady (hd (ts @ [t'])) s" "streak (hd (ts @ [t'])) s + length ts < limit" "successively alive (ts @ [t'])"
  shows "steady t' (fails ts s) \<and> streak t' (fails ts s) = streak (hd (ts @ [t'])) s + length ts"
  using assms
proof (induction ts arbitrary: s)
  case (Cons t ts)
  let ?n = "hd (ts @ [t'])"
  have al: "alive t ?n" using Cons.prems(3) by (cases ts) auto
  have c: "steady ?n (fail t s) \<and> streak ?n (fail t s) = streak t s + 1"
    using Cons.prems(1,2) by (intro fail_counts [OF _ _ al]) auto
  have "successively alive (ts @ [t'])" using Cons.prems(3) by (cases ts) auto
  then show ?case using Cons.IH [of "fail t s"] c Cons.prems(2) by simp
qed simp

lemma fails_append: "fails (ts @ [t]) s = fail t (fails ts s)"
  by (induction ts arbitrary: s) auto

text \<open>Fewer than \<open>limit\<close> failures leave the gate open for traffic; the \<open>limit\<close>-th closes
  it for the cool-down.\<close>

lemma opens_at_limit:
  assumes "steady (hd (ts @ [t])) s" "streak (hd (ts @ [t])) s = 0" "successively alive (ts @ [t])"
  shows "length ts < limit \<Longrightarrow> \<not> refuses t (fails ts s)"
    and "length ts + 1 = limit \<Longrightarrow> t \<le> t' \<Longrightarrow> refuses t' (fails (ts @ [t]) s) \<longleftrightarrow> t' < t + cooldown"
proof -
  assume "length ts < limit"
  then have "steady t (fails ts s)" using fails_below [OF assms(1) _ assms(3)] assms(2) by simp
  then show "\<not> refuses t (fails ts s)" by (rule steady_admits)
next
  assume l: "length ts + 1 = limit" and t: "t \<le> t'"
  then have s: "steady t (fails ts s)" "streak t (fails ts s) = length ts"
    using fails_below [OF assms(1) _ assms(3)] assms(2) by simp_all
  show "refuses t' (fails (ts @ [t]) s) \<longleftrightarrow> t' < t + cooldown"
    unfolding fails_append using s l t by (intro fail_opens) auto
qed

end

definition refuses_call :: "time_ms \<Rightarrow> circuit_breaker \<Rightarrow> bool" where
  "refuses_call t cb = (\<exists>err. acquire t cb = Inl err)"

interpretation cb: failure_gate recordFailure refuses_call
  "\<lambda>t cb. cb_state cb = Closed \<and> failureThreshold cb = thr \<and> openDurationMs cb = dur"
  "\<lambda>t cb. consecutiveFailures cb" "\<lambda>t t'. True" thr dur for thr dur
  by unfold_locales (auto simp: refuses_call_def acquire_def recordFailure_def open_breaker_def Let_def)

section \<open>Probes\<close>

text \<open>The admitted ones of a sequence of calls asking at the given times, none of which has
  reported back yet.\<close>

fun admitted :: "time_ms list \<Rightarrow> circuit_breaker \<Rightarrow> time_ms list" where
  "admitted [] cb = []"
| "admitted (t # ts) cb =
     (case acquire t cb of Inl _ \<Rightarrow> admitted ts cb | Inr cb' \<Rightarrow> t # admitted ts cb')"

lemma probe_in_flight_admits_none:
  "cb_state cb = Half_open \<Longrightarrow> probeInFlight cb \<Longrightarrow> admitted ts cb = []"
  by (induction ts) (auto simp: acquire_def)

lemma open_admits_first_after_cooldown:
  "cb_state cb = Open \<Longrightarrow>
     admitted ts cb = (case filter (\<lambda>t. openedAt cb + openDurationMs cb \<le> t) ts of [] \<Rightarrow> [] | t # _ \<Rightarrow> [t])"
  by (induction ts) (auto simp: acquire_def probe_in_flight_admits_none Let_def)


lemma fails_fold: "cb.fails ts cb = fold recordFailure ts cb"
  by (induction ts arbitrary: cb) auto

text \<open>C8: The circuit breaker's cycle. With the circuit closed and no failure counted, every
  failure short of the threshold still lets calls through; the one that reaches the threshold
  at time \<open>t\<close> opens the circuit, and of all the calls asking after that, until one reports back,
  exactly the first at or past the end of the cool-down is admitted as the probe.\<close>

theorem breaker_cycle:
  assumes "cb_state cb = Closed" "consecutiveFailures cb = 0" "length ts + 1 = failureThreshold cb"
  shows "(\<forall>us q. prefix us ts \<longrightarrow> \<not> refuses_call q (fold recordFailure us cb))
    \<and> admitted qs (recordFailure t (fold recordFailure ts cb)) =
        (case filter (\<lambda>q. t + openDurationMs cb \<le> q) qs of [] \<Rightarrow> [] | q # _ \<Rightarrow> [q])"
proof
  have chain: "successively (\<lambda>_ _. True) us" for us :: "time_ms list"
    by (induction us rule: induct_list012) auto
  show "\<forall>us q. prefix us ts \<longrightarrow> \<not> refuses_call q (fold recordFailure us cb)"
  proof (intro allI impI)
    fix us q assume "prefix us ts"
    then have "length us < failureThreshold cb" using assms(3) prefix_length_le by fastforce
    then show "\<not> refuses_call q (fold recordFailure us cb)"
      using cb.opens_at_limit(1) [where ts = us and t = q and s = cb and thr = "failureThreshold cb" and dur = "openDurationMs cb"] assms(1,2) chain
      by (simp add: fails_fold)
  qed
  let ?s = "fold recordFailure ts cb"
  have s: "cb_state ?s = Closed" "failureThreshold ?s = failureThreshold cb" "openDurationMs ?s = openDurationMs cb"
    "consecutiveFailures ?s = length ts"
    using cb.fails_below [where ts = ts and t' = t and s = cb and thr = "failureThreshold cb" and dur = "openDurationMs cb"] assms chain by (simp_all add: fails_fold)
  have "cb_state (recordFailure t ?s) = Open" "openedAt (recordFailure t ?s) = t"
    "openDurationMs (recordFailure t ?s) = openDurationMs cb"
    using s assms(3) by (simp_all add: recordFailure_def open_breaker_def Let_def)
  then show "admitted qs (recordFailure t ?s) = (case filter (\<lambda>q. t + openDurationMs cb \<le> q) qs of [] \<Rightarrow> [] | q # _ \<Rightarrow> [q])"
    by (simp add: open_admits_first_after_cooldown)
qed

theorem breaker_cycle_witness:
  "admitted [100, 30039, 30040, 30041] (recordFailure 40 (fold recordFailure [1, 2, 3, 4] (new_breaker None None))) = [30040]"
  using breaker_cycle [of "new_breaker None None" "[1, 2, 3, 4]" "[100, 30039, 30040, 30041]" 40]
  by (simp add: new_breaker_def)

text \<open>A stored check snapshot reads back as it was written exactly when its suggestion is
  text or absent; a suggestion that is an inherited property of the correction table does not
  survive storage, and the stored row is unreadable.\<close>

theorem stored_snapshot_roundtrip:
  "parseStoredEmailCheck (stored_json s) =
     (case st_typo s of Some (Inherited k) \<Rightarrow> None | _ \<Rightarrow> Some s)"
  by (auto simp: parse_stored_json_inherited intro: parse_stored_json split: option.splits prop_value.splits)

end
