(* ===== verification/Api_Check.thy ===== *)
theory Api_Check
  imports Core_Email Core_Plans Db_Checks Db_Accounts Shared_Engine
begin

text \<open>
  \<^verbatim>\<open>apps/api/src/check-service.ts\<close>, \<^verbatim>\<open>balance-cache.ts\<close> and \<^verbatim>\<open>render.ts\<close>: the
  orchestration of one email or phone check over the database, the balance hint in Redis, the
  engine and the probe queue, and the rendering of its result.

  The service is not one transaction. What other clients commit between two database steps is
  a parameter (\<open>cw_others\<close>), so every theorem holds under arbitrary interference. Clock
  readings, engine and queue answers and Redis failures are fields of \<open>check_world\<close>.
\<close>

section \<open>Environment\<close>

record check_world =
  cw_smtpEnabled :: bool                                  \<comment> \<open>the deployment switch\<close>
  cw_sha256Hex :: "string \<Rightarrow> string"
  cw_engine :: "string \<Rightarrow> engine_error + engine_response" \<comment> \<open>\<open>engine.verify\<close> without a probe\<close>
  cw_enqueue_ok :: bool
  cw_redis_get_ok :: bool
  cw_redis_set_ok :: bool
  cw_now :: time_ms                                       \<comment> \<open>Redis and the cache lookup\<close>
  cw_debit_now :: time_ms                                 \<comment> \<open>\<open>new Date()\<close> of the debit\<close>
  cw_tx :: tx_env
  cw_others :: "nat \<Rightarrow> database \<Rightarrow> database"

record service =
  svc_db :: database
  svc_balances :: "uuid \<rightharpoonup> int \<times> time_ms"  \<comment> \<open>value and expiry of the Redis key\<close>
  svc_queue :: "uuid list"                \<comment> \<open>probe jobs published\<close>

definition others_step :: "check_world \<Rightarrow> nat \<Rightarrow> service \<Rightarrow> service" where
  "others_step w k s = s\<lparr>svc_db := cw_others w k (svc_db s)\<rparr>"

section \<open>Balance hint\<close>

definition BALANCE_TTL_MS :: int where "BALANCE_TTL_MS = 10000"

definition cache_get :: "check_world \<Rightarrow> uuid \<Rightarrow> service \<Rightarrow> int option" where
  "cache_get w orgId s =
     (if \<not> cw_redis_get_ok w then None
      else (case svc_balances s orgId of
              None \<Rightarrow> None
            | Some (v, expiry) \<Rightarrow> if cw_now w < expiry then Some v else None))"

definition cache_set :: "check_world \<Rightarrow> uuid \<Rightarrow> int \<Rightarrow> service \<Rightarrow> service" where
  "cache_set w orgId balance s =
     (if cw_redis_set_ok w then s\<lparr>svc_balances := (svc_balances s)(orgId \<mapsto> (balance, cw_now w + BALANCE_TTL_MS))\<rparr> else s)"

definition currentBalance :: "check_world \<Rightarrow> uuid \<Rightarrow> service \<Rightarrow> (db_error + int) \<times> service" where
  "currentBalance w orgId s =
     (case cache_get w orgId s of
        Some cached \<Rightarrow> (Inr cached, s)
      | None \<Rightarrow>
          (case getCreditBalance (svc_db s) orgId of
             Inl e \<Rightarrow> (Inl e, s)
           | Inr balance \<Rightarrow> (Inr balance, cache_set w orgId balance s)))"

section \<open>Email check\<close>

record check_result =
  cr_check :: email_check
  cr_snapshot :: stored_email_check
  cr_creditsUsed :: int
  cr_creditsRemaining :: int
  cr_cached :: bool
  cr_smtp :: smtp_status

datatype email_check_outcome =
    Insufficient
  | Engine_failed engine_error
  | Snapshot_unreadable
  | Check_ok check_result

definition save_snapshot :: "uuid \<Rightarrow> stored_email_check \<Rightarrow> service \<Rightarrow> service" where
  "save_snapshot checkId snapshot s = s\<lparr>svc_db := updateEmailCheckSnapshot (svc_db s) checkId (stored_json snapshot)\<rparr>"

text \<open>Mark the row pending, publish the job, and put the snapshot back when publishing fails.\<close>

definition attach_probe :: "check_world \<Rightarrow> nat \<Rightarrow> uuid \<Rightarrow> stored_email_check \<Rightarrow> smtp_status \<Rightarrow> service \<Rightarrow> smtp_status \<times> service" where
  "attach_probe w k checkId snapshot unchanged s =
     (let s1 = save_snapshot checkId (snapshot\<lparr>st_smtp_status := Smtp_pending\<rparr>) s
      in if cw_enqueue_ok w then (Smtp_pending, s1\<lparr>svc_queue := svc_queue s1 @ [checkId]\<rparr>)
         else (unchanged, save_snapshot checkId snapshot (others_step w k s1)))"

text \<open>The answer from the seven-day cache.\<close>

definition cached_answer :: "check_world \<Rightarrow> uuid \<Rightarrow> bool \<Rightarrow> int \<Rightarrow> email_check \<Rightarrow> service \<Rightarrow> email_check_outcome \<times> service" where
  "cached_answer w orgId smtp balance cachedRow s =
     (case parseStoredEmailCheck (ec_checksJson cachedRow) of
        None \<Rightarrow> (Snapshot_unreadable, s)
      | Some snapshot \<Rightarrow>
          (let (smtpStatus, s') =
             (if smtp \<and> cw_smtpEnabled w \<and> st_smtp_status snapshot = Smtp_skipped
              then (let s1 = others_step w 1 s
                    in if map_option os_smtpEnabled (getOrgSettings (svc_db s1) orgId) = Some True
                       then attach_probe w 2 (ec_id cachedRow) snapshot (st_smtp_status snapshot) s1
                       else (st_smtp_status snapshot, s1))
              else (st_smtp_status snapshot, s))
           in (Check_ok \<lparr>cr_check = cachedRow, cr_snapshot = snapshot\<lparr>st_smtp_status := smtpStatus\<rparr>,
                 cr_creditsUsed = 0, cr_creditsRemaining = balance, cr_cached = True, cr_smtp = smtpStatus\<rparr>, s')))"

definition offline_snapshot :: "engine_response \<Rightarrow> stored_email_check" where
  "offline_snapshot r =
     (let typo = detectTypo (syn_domain (eng_syntax r));
          aggregated = aggregate \<lparr>engine = r, typo = typo, operationalReason = None\<rparr>
      in \<lparr>st_engine = r, st_score = of_int (score aggregated), st_disclaimer = disclaimer aggregated,
          st_typo = typo, st_smtp_status = Smtp_skipped, st_operational_reason = None\<rparr>)"

definition debit_input :: "check_world \<Rightarrow> uuid \<Rightarrow> string \<Rightarrow> engine_response \<Rightarrow> new_email_check_input" where
  "debit_input w orgId normalizedEmail r =
     (let typo = detectTypo (syn_domain (eng_syntax r));
          aggregated = aggregate \<lparr>engine = r, typo = typo, operationalReason = None\<rparr>
      in \<lparr>ni_orgId = orgId, ni_emailNormalized = normalizedEmail, ni_emailHash = cw_sha256Hex w normalizedEmail,
          ni_verdict = agg_verdict aggregated, ni_reasonCodes = reasonCodes aggregated,
          ni_checksJson = stored_json (offline_snapshot r)\<rparr>)"

text \<open>After the engine answered: the debit transaction and what follows each of its outcomes.\<close>

definition fresh_answer ::
  "check_world \<Rightarrow> uuid \<Rightarrow> bool \<Rightarrow> string \<Rightarrow> engine_response \<Rightarrow> service \<Rightarrow> (db_error + email_check_outcome) \<times> service" where
  "fresh_answer w orgId smtp normalizedEmail r s =
     (let snapshot = offline_snapshot r
      in case createEmailCheckWithDebit (cw_tx w) (svc_db s) (debit_input w orgId normalizedEmail r) (cw_debit_now w) of
           Inl e \<Rightarrow> (Inl e, s)
         | Inr (res, db') \<Rightarrow>
             (let s1 = s\<lparr>svc_db := db'\<rparr>
              in case res of
                   EmailOrgUnavailable \<Rightarrow> (Inr Insufficient, s1)
                 | EmailInsufficient balance \<Rightarrow> (Inr Insufficient, cache_set w orgId balance s1)
                 | EmailCacheHit check balance \<Rightarrow>
                     (case parseStoredEmailCheck (ec_checksJson check) of
                        None \<Rightarrow> (Inr Snapshot_unreadable, s1)
                      | Some hitSnapshot \<Rightarrow>
                          (Inr (Check_ok \<lparr>cr_check = check, cr_snapshot = hitSnapshot, cr_creditsUsed = 0,
                             cr_creditsRemaining = balance, cr_cached = True, cr_smtp = st_smtp_status hitSnapshot\<rparr>), s1))
                 | EmailCreated check balance org \<Rightarrow>
                     (let s2 = cache_set w orgId balance s1;
                          (smtpStatus, s3) =
                            (if smtp \<and> lo_smtpEnabled org \<and> cw_smtpEnabled w
                             then attach_probe w 5 (ec_id check) snapshot Smtp_skipped (others_step w 4 s2)
                             else (Smtp_skipped, s2))
                      in (Inr (Check_ok \<lparr>cr_check = check, cr_snapshot = snapshot\<lparr>st_smtp_status := smtpStatus\<rparr>,
                             cr_creditsUsed = 1, cr_creditsRemaining = balance, cr_cached = False, cr_smtp = smtpStatus\<rparr>), s3))))"

definition performEmailCheck ::
  "check_world \<Rightarrow> uuid \<Rightarrow> string \<Rightarrow> bool \<Rightarrow> service \<Rightarrow> (db_error + email_check_outcome) \<times> service" where
  "performEmailCheck w orgId email smtp s =
     (let normalizedEmail = (case normalized (normalizeEmail email) of Some n \<Rightarrow> n | None \<Rightarrow> []);
          emailHash = cw_sha256Hex w normalizedEmail
      in case currentBalance w orgId s of
           (Inl e, s1) \<Rightarrow> (Inl e, s1)
         | (Inr balance, s1) \<Rightarrow>
             if balance < 1 then (Inr Insufficient, s1)
             else
               (let s2 = others_step w 0 s1
                in case findRecentEmailCheck (svc_db s2) orgId emailHash (cw_now w) of
                     Some cachedRow \<Rightarrow>
                       (let (out, s3) = cached_answer w orgId smtp balance cachedRow s2 in (Inr out, s3))
                   | None \<Rightarrow>
                       (case cw_engine w normalizedEmail of
                          Inl err \<Rightarrow> (Inr (Engine_failed err), s2)
                        | Inr r \<Rightarrow> fresh_answer w orgId smtp normalizedEmail r (others_step w 3 s2))))"

section \<open>Phone check\<close>

datatype phone_check_outcome = Phone_insufficient | Phone_ok phone_check int

definition performPhoneCheck ::
  "check_world \<Rightarrow> phone_lib \<Rightarrow> uuid \<Rightarrow> string \<Rightarrow> string \<Rightarrow> service \<Rightarrow> (db_error + phone_check_outcome) \<times> service" where
  "performPhoneCheck w lib orgId phone country s =
     (let result = validatePhone lib phone country
      in case createPhoneCheckWithDebit (cw_tx w) (svc_db s)
                \<lparr>np_orgId = orgId, np_e164 = e164 result, np_inputHash = cw_sha256Hex w phone, np_valid = ph_valid result,
                 np_country = ph_country result, np_lineTypeGuess = lineTypeGuess result,
                 np_reasonCodes = ph_reasonCodes result\<rparr> (cw_debit_now w) of
           Inl e \<Rightarrow> (Inl e, s)
         | Inr (debit, db') \<Rightarrow>
             (let s1 = s\<lparr>svc_db := db'\<rparr>
              in case debit of
                   PhoneOrgUnavailable \<Rightarrow> (Inr Phone_insufficient, s1)
                 | PhoneInsufficient balance \<Rightarrow> (Inr Phone_insufficient, cache_set w orgId balance s1)
                 | PhoneCreated check balance \<Rightarrow> (Inr (Phone_ok check balance), cache_set w orgId balance s1)))"

section \<open>Lemmas\<close>

lemma others_step_fields [simp]:
  "svc_queue (others_step w k s) = svc_queue s" "svc_balances (others_step w k s) = svc_balances s"
  "svc_db (others_step w k s) = cw_others w k (svc_db s)"
  by (simp_all add: others_step_def)

lemma cache_set_fields [simp]:
  "svc_db (cache_set w o' b s) = svc_db s" "svc_queue (cache_set w o' b s) = svc_queue s"
  by (simp_all add: cache_set_def)

lemma currentBalance_fields:
  assumes "currentBalance w o' s = (res, s1)"
  shows "svc_db s1 = svc_db s \<and> svc_queue s1 = svc_queue s"
  using assms by (auto simp: currentBalance_def split: option.splits sum.splits)

lemma save_snapshot_fields [simp]:
  "creditLedger (svc_db (save_snapshot i sn s)) = creditLedger (svc_db s)" "svc_queue (save_snapshot i sn s) = svc_queue s"
  by (simp_all add: save_snapshot_def updateEmailCheckSnapshot_def)

lemma createEmailCheck_other_outcomes:
  assumes "createEmailCheckWithDebit env db input now = Inr (res, db')"
    and "\<And>check bal org. res \<noteq> EmailCreated check bal org"
  shows "db' = db"
  using assms
  by (auto simp: createEmailCheckWithDebit_def and_then_Inr Let_def split: option.splits if_splits)

lemma createEmailCheck_hit:
  assumes "createEmailCheckWithDebit env db input now = Inr (EmailCacheHit check bal, db')"
  shows "check \<in> set (emailChecks db)"
  using assms
  by (auto simp: createEmailCheckWithDebit_def and_then_Inr Let_def findRecentEmailCheck_def order_desc_def
      dest!: first_row_Some_mem split: option.splits if_splits)

lemma createEmailCheck_created_tables:
  assumes "createEmailCheckWithDebit env db input now = Inr (EmailCreated check bal org, db')"
  shows "creditLedger db' = creditLedger db @ [single_check_entry env (ni_orgId input)]"
    and "emailChecks db' = emailChecks db @ [check]"
    and "ec_checksJson check = ni_checksJson input" and "ec_id check = tx_uuid env"
  using insert_ledger_Inr(1) [OF createEmailCheck_created(6) [OF assms]] createEmailCheck_created(5) [OF assms]
  by (simp_all add: new_email_check_row_def)

section \<open>What a check costs\<close>

abbreviation ledger_kept :: "check_world \<Rightarrow> bool" where
  "ledger_kept w \<equiv> (\<forall>k d. creditLedger (cw_others w k d) = creditLedger d)"

lemma attach_probe_ledger:
  "ledger_kept w \<Longrightarrow> attach_probe w k i sn st s = (r, s') \<Longrightarrow> creditLedger (svc_db s') = creditLedger (svc_db s)"
  by (auto simp: attach_probe_def Let_def split: if_splits)

lemma cached_answer_ledger:
  assumes "ledger_kept w" "cached_answer w o' smtp b row s = (out, s')"
  shows "creditLedger (svc_db s') = creditLedger (svc_db s)"
    and "\<And>r. out = Check_ok r \<Longrightarrow> cr_creditsUsed r = 0 \<and> cr_cached r \<and> cr_check r = row"
  using assms attach_probe_ledger [OF assms(1)]
  by (auto simp: cached_answer_def Let_def split: option.splits if_splits prod.splits)

fun charged :: "db_error + email_check_outcome \<Rightarrow> int" where
  "charged (Inr (Check_ok r)) = cr_creditsUsed r"
| "charged _ = 0"

lemma fresh_answer_ledger:
  assumes "ledger_kept w" "fresh_answer w o' smtp em r s = (out, s')"
  shows "creditLedger (svc_db s') =
      creditLedger (svc_db s) @ (if charged out = 1 then [single_check_entry (cw_tx w) o'] else [])
    \<and> charged out \<in> {0, 1}"
proof (cases "createEmailCheckWithDebit (cw_tx w) (svc_db s) (debit_input w o' em r) (cw_debit_now w)")
  case (Inl e)
  then show ?thesis using assms(2) by (auto simp: fresh_answer_def Let_def)
next
  case (Inr p)
  obtain res db' where p: "p = (res, db')" by (cases p)
  have org: "ni_orgId (debit_input w o' em r) = o'" by (simp add: debit_input_def Let_def)
  show ?thesis
  proof (cases res)
    case (EmailCreated check bal org')
    have db': "creditLedger db' = creditLedger (svc_db s) @ [single_check_entry (cw_tx w) o']"
      using createEmailCheck_created_tables(1) Inr p EmailCreated org by metis
    show ?thesis
      using assms Inr p EmailCreated db' attach_probe_ledger [OF assms(1)]
      by (auto simp: fresh_answer_def Let_def split: if_splits prod.splits)
  qed (use assms(2) Inr p createEmailCheck_other_outcomes [OF Inr [unfolded p]] in
      \<open>auto simp: fresh_answer_def Let_def split: option.splits\<close>)
qed


text \<open>The paths through the service, each with the state it starts from.\<close>

lemma performEmailCheck_cases:
  assumes "performEmailCheck w o' email smtp s = (out, s')"
  obtains (early) e where "out = Inl e \<or> out = Inr Insufficient" "svc_db s' = svc_db s" "svc_queue s' = svc_queue s"
  | (cached) s2 ca bal row where "svc_db s2 = cw_others w 0 (svc_db s)" "svc_queue s2 = svc_queue s"
      "row \<in> set (emailChecks (svc_db s2))" "cached_answer w o' smtp bal row s2 = (ca, s')" "out = Inr ca"
  | (engine) err where "out = Inr (Engine_failed err)" "svc_db s' = cw_others w 0 (svc_db s)" "svc_queue s' = svc_queue s"
  | (fresh) s3 em r where "svc_db s3 = cw_others w 3 (cw_others w 0 (svc_db s))" "svc_queue s3 = svc_queue s"
      "cw_engine w em = Inr r" "fresh_answer w o' smtp em r s3 = (out, s')"
proof -
  obtain res s1 where cb: "currentBalance w o' s = (res, s1)" by fastforce
  have s1: "svc_db s1 = svc_db s" "svc_queue s1 = svc_queue s" using currentBalance_fields [OF cb] by simp_all
  let ?em = "case normalized (normalizeEmail email) of Some n \<Rightarrow> n | None \<Rightarrow> []"
  let ?s2 = "others_step w 0 s1"
  let ?row = "findRecentEmailCheck (svc_db ?s2) o' (cw_sha256Hex w ?em) (cw_now w)"
  have row: "row \<in> set (emailChecks (svc_db ?s2))" if "?row = Some row" for row
    using that by (auto simp: findRecentEmailCheck_def Let_def order_desc_def dest!: first_row_Some_mem)
  show ?thesis
  proof (cases "\<exists>bal. res = Inr bal \<and> \<not> bal < 1")
    case False
    then show ?thesis using assms cb s1 early
      by (cases res) (auto simp: performEmailCheck_def Let_def)
  next
    case True
    then obtain bal where bal: "res = Inr bal" "\<not> bal < 1" by blast
    show ?thesis
    proof (cases ?row)
      case (Some r)
      obtain ca s3 where ca: "cached_answer w o' smtp bal r ?s2 = (ca, s3)" by fastforce
      have "out = Inr ca" "s' = s3"
        using assms cb bal Some ca by (auto simp: performEmailCheck_def Let_def)
      then show ?thesis using cached [of ?s2 r bal ca] ca row [OF Some] s1 by simp
    next
      case None
      show ?thesis
      proof (cases "cw_engine w ?em")
        case (Inl err)
        then show ?thesis using assms cb bal None s1 engine [of err] by (auto simp: performEmailCheck_def Let_def)
      next
        case (Inr r)
        have "fresh_answer w o' smtp ?em r (others_step w 3 ?s2) = (out, s')"
          using assms cb bal None Inr by (auto simp: performEmailCheck_def Let_def)
        then show ?thesis using fresh [of "others_step w 3 ?s2" ?em r] Inr s1 by simp
      qed
    qed
  qed
qed


section \<open>What a check leaves in the table\<close>

definition snapshots_readable :: "database \<Rightarrow> bool" where
  "snapshots_readable db = (\<forall>c \<in> set (emailChecks db). parseStoredEmailCheck (ec_checksJson c) \<noteq> None)"

definition textual :: "stored_email_check \<Rightarrow> bool" where
  "textual sn = (\<forall>k. st_typo sn \<noteq> Some (Inherited k))"

lemma parse_textual: "parseStoredEmailCheck j = Some sn \<Longrightarrow> textual sn"
  by (auto simp: parseStoredEmailCheck_def textual_def Option.bind_eq_Some_conv)

lemma textual_status [simp]: "textual (sn\<lparr>st_smtp_status := v\<rparr>) = textual sn"
  by (simp add: textual_def)

lemma save_snapshot_readable:
  assumes "snapshots_readable (svc_db s)" "textual sn"
  shows "snapshots_readable (svc_db (save_snapshot i sn s))"
  using assms parse_stored_json [of sn]
  by (auto simp: snapshots_readable_def save_snapshot_def updateEmailCheckSnapshot_def textual_def)

abbreviation readable_kept :: "check_world \<Rightarrow> bool" where
  "readable_kept w \<equiv> (\<forall>k d. snapshots_readable d \<longrightarrow> snapshots_readable (cw_others w k d))"

lemma attach_probe_readable:
  assumes "readable_kept w" "textual sn" "snapshots_readable (svc_db s)" "attach_probe w k i sn st s = (r, s')"
  shows "snapshots_readable (svc_db s')"
proof -
  let ?s1 = "save_snapshot i (sn\<lparr>st_smtp_status := Smtp_pending\<rparr>) s"
  have 1: "snapshots_readable (svc_db ?s1)" using assms(2,3) by (intro save_snapshot_readable) simp_all
  have 2: "snapshots_readable (svc_db (others_step w k ?s1))" using assms(1) 1 by simp
  show ?thesis
    using assms(4) 1 save_snapshot_readable [OF 2 assms(2)] by (auto simp: attach_probe_def Let_def split: if_splits)
qed

lemma cached_answer_readable:
  assumes "readable_kept w" "snapshots_readable (svc_db s)" "row \<in> set (emailChecks (svc_db s))"
    and "cached_answer w o' smtp b row s = (out, s')"
  shows "snapshots_readable (svc_db s') \<and> out \<noteq> Snapshot_unreadable"
proof -
  obtain sn where sn: "parseStoredEmailCheck (ec_checksJson row) = Some sn"
    using assms(2,3) by (auto simp: snapshots_readable_def)
  have 1: "snapshots_readable (svc_db (others_step w 1 s))" using assms(1,2) by simp
  show ?thesis
    using assms(4) sn assms(2) 1 attach_probe_readable [OF assms(1) parse_textual [OF sn] 1]
    by (auto simp: cached_answer_def Let_def split: if_splits prod.splits)
qed

lemma offline_snapshot_textual:
  "normalizeDomain (syn_domain (eng_syntax r)) \<notin> {''constructor'', ''__proto__''} \<Longrightarrow> textual (offline_snapshot r)"
  using detectTypo_Inherited [of "syn_domain (eng_syntax r)"]
  by (auto simp: textual_def offline_snapshot_def Let_def)

lemma fresh_answer_readable:
  assumes "readable_kept w" "snapshots_readable (svc_db s)" "textual (offline_snapshot r)"
    and "fresh_answer w o' smtp em r s = (out, s')"
  shows "snapshots_readable (svc_db s') \<and> out \<noteq> Inr Snapshot_unreadable"
proof (cases "createEmailCheckWithDebit (cw_tx w) (svc_db s) (debit_input w o' em r) (cw_debit_now w)")
  case (Inl e)
  then show ?thesis using assms(2,4) by (auto simp: fresh_answer_def Let_def)
next
  case (Inr p)
  obtain res db' where p: "p = (res, db')" by (cases p)
  show ?thesis
  proof (cases res)
    case (EmailCreated check bal org)
    note created = createEmailCheck_created_tables [OF Inr [unfolded p EmailCreated]]
    have "parseStoredEmailCheck (ec_checksJson check) \<noteq> None"
      using created(3) assms(3) parse_stored_json [of "offline_snapshot r"]
      by (simp add: debit_input_def Let_def textual_def)
    then have db': "snapshots_readable db'" using assms(2) created(2) by (simp add: snapshots_readable_def)
    let ?s2 = "cache_set w o' bal (s\<lparr>svc_db := db'\<rparr>)"
    have o: "snapshots_readable (svc_db (others_step w 4 ?s2))" using assms(1) db' by simp
    show ?thesis
      using assms(4) Inr p EmailCreated db' attach_probe_readable [OF assms(1,3) o]
      by (auto simp: fresh_answer_def Let_def split: if_splits prod.splits)
  next
    case (EmailCacheHit check bal)
    have "parseStoredEmailCheck (ec_checksJson check) \<noteq> None"
      using createEmailCheck_hit [OF Inr [unfolded p EmailCacheHit]] assms(2) by (simp add: snapshots_readable_def)
    then show ?thesis
      using assms(2,4) Inr p EmailCacheHit createEmailCheck_other_outcomes [OF Inr [unfolded p]]
      by (auto simp: fresh_answer_def Let_def)
  qed (use assms(2,4) Inr p createEmailCheck_other_outcomes [OF Inr [unfolded p]] in \<open>auto simp: fresh_answer_def Let_def\<close>)
qed

text \<open>C24: The service keeps every stored snapshot readable, and so never answers with an
  unreadable one, as long as the engine never reports one of the two domains that the correction
  table resolves to an inherited property, and other clients keep it too.\<close>

theorem performEmailCheck_readable:
  assumes "\<forall>k d. snapshots_readable d \<longrightarrow> snapshots_readable (cw_others w k d)"
    and "\<forall>em r. cw_engine w em = Inr r \<longrightarrow> normalizeDomain (syn_domain (eng_syntax r)) \<notin> {''constructor'', ''__proto__''}"
    and "snapshots_readable (svc_db s)" "performEmailCheck w orgId email smtp s = (out, s')"
  shows "snapshots_readable (svc_db s') \<and> out \<noteq> Inr Snapshot_unreadable"
  using assms(4)
proof (cases rule: performEmailCheck_cases)
  case (cached s2 ca bal row)
  then show ?thesis using cached_answer_readable [OF assms(1) _ cached(3,4)] assms(1,3) by auto
next
  case (fresh s3 em r)
  have "textual (offline_snapshot r)" using assms(2) fresh(3) by (intro offline_snapshot_textual) blast
  then show ?thesis using fresh_answer_readable [OF assms(1) _ _ fresh(4)] assms(1,3) fresh(1) by simp
qed (use assms(1,3) in auto)

section \<open>A concrete deployment\<close>

definition demo_engine :: "string \<Rightarrow> string \<Rightarrow> engine_error + engine_response" where
  "demo_engine domain em = Inr \<lparr>eng_email = em, eng_syntax = \<lparr>syn_valid = True, syn_username = ''a'', syn_domain = domain\<rparr>,
     eng_mx = \<lparr>has_mx = Some True, mx_records = [''mx.a.uz.''], mx_error = []\<rparr>, disposable = False, role_account = False,
     free_provider = False, eng_smtp = None, duration_ms = 12\<rparr>"

definition demo_world :: "string \<Rightarrow> check_world" where
  "demo_world domain = \<lparr>cw_smtpEnabled = True, cw_sha256Hex = (\<lambda>x. x), cw_engine = demo_engine domain, cw_enqueue_ok = True,
     cw_redis_get_ok = True, cw_redis_set_ok = True, cw_now = 1000, cw_debit_now = 1001,
     cw_tx = \<lparr>tx_now = 1000000, tx_uuid = ''c-1'', tx_ledger_id = ''l-1''\<rparr>, cw_others = (\<lambda>_ d. d)\<rparr>"

definition demo_service :: service where
  "demo_service = \<lparr>svc_db = demo_db 5, svc_balances = Map.empty, svc_queue = []\<rparr>"


text \<open>The demo check: its result, and the state it leaves.\<close>

definition demo_run :: "string \<Rightarrow> (db_error + email_check_outcome) \<times> service" where
  "demo_run domain = performEmailCheck (demo_world domain) ''org-1'' (''a@'' @ domain) True demo_service"

lemma demo_normalize:
  "normalizeEmail ''a@constructor'' = \<lparr>normalized = Some ''a@constructor'', changes = []\<rparr>"
  "normalizeEmail ''a@a.uz'' = \<lparr>normalized = Some ''a@a.uz'', changes = []\<rparr>"
  by code_simp+

lemma demo_typo: "detectTypo ''constructor'' = Some (Inherited ''constructor'')" "detectTypo ''a.uz'' = None"
  by code_simp+

lemmas demo_simps = demo_run_def performEmailCheck_def currentBalance_def cache_get_def cache_set_def getCreditBalance_def
  demo_world_def demo_service_def demo_engine_def demo_db_def demo_grant_def demo_org_def empty_db_def
  to_int4_def int4_def ledger_sum_def org_ledger_def others_step_def findRecentEmailCheck_def order_desc_def first_row_def
  fresh_answer_def createEmailCheckWithDebit_def lockOrganization_def active_org_def lockedBalance_def
  debit_input_def new_email_check_row_def insert_email_check_def org_exists_def insert_ledger_def reference_taken_def
  single_check_entry_def attach_probe_def save_snapshot_def updateEmailCheckSnapshot_def EMAIL_CACHE_WINDOW_MS_def
  us_of_def BALANCE_TTL_MS_def cached_answer_def



lemma demo_run_split:
  "performEmailCheck (demo_world d) ''org-1'' (''a@'' @ d) True demo_service = (fst (demo_run d), snd (demo_run d))"
  by (simp add: demo_run_def)


theorem performEmailCheck_readable_witness:
  "snapshots_readable (svc_db (snd (demo_run ''a.uz''))) \<and> fst (demo_run ''a.uz'') \<noteq> Inr Snapshot_unreadable"
proof (rule performEmailCheck_readable [OF _ _ _ demo_run_split [of "''a.uz''"]])
  have "normalizeDomain ''a.uz'' \<notin> {''constructor'', ''__proto__''}" by code_simp
  then show "\<forall>em r. cw_engine (demo_world ''a.uz'') em = Inr r \<longrightarrow>
      normalizeDomain (syn_domain (eng_syntax r)) \<notin> {''constructor'', ''__proto__''}"
    by (auto simp: demo_world_def demo_engine_def)
qed (simp_all add: demo_world_def demo_service_def demo_db_def empty_db_def snapshots_readable_def)

end
