(* ===== verification/Worker_Limits.thy ===== *)
theory Worker_Limits
  imports Shared_Engine
begin

text \<open>
  The limits kept in Redis: the API's sliding window per key
  (\<^verbatim>\<open>apps/api/src/plugins/rate-limit.ts\<close>), the worker's throttle per mail host
  (\<^verbatim>\<open>apps/worker/src/smtp/throttle.ts\<close>) and its circuit per domain
  (\<^verbatim>\<open>apps/worker/src/smtp/domain-circuit.ts\<close>). A Lua script runs atomically, so each is one
  function from the keys it touches to its reply and the keys after it. Redis and its clients
  share one clock here.
\<close>

section \<open>Sorted sets\<close>

text \<open>A sorted set of start times under a key with a time to live. Members are kept in order of
  insertion; \<open>zrange_first\<close> orders by score and member as Redis does.\<close>

type_synonym zset = "(string \<times> time_ms) list"

record window_key =
  wk_set :: zset
  wk_expiry :: "time_ms option"

definition no_window :: window_key where "no_window = \<lparr>wk_set = [], wk_expiry = None\<rparr>"

definition wk_live :: "time_ms \<Rightarrow> window_key \<Rightarrow> window_key" where
  "wk_live now k = (case wk_expiry k of Some e \<Rightarrow> if e \<le> now then no_window else k | None \<Rightarrow> k)"

definition zremrangebyscore :: "int \<Rightarrow> int \<Rightarrow> zset \<Rightarrow> zset" where
  "zremrangebyscore lo hi z = filter (\<lambda>(m, sc). \<not> (lo \<le> sc \<and> sc \<le> hi)) z"

definition zadd :: "int \<Rightarrow> string \<Rightarrow> zset \<Rightarrow> zset" where
  "zadd sc member z = filter (\<lambda>(m, _). m \<noteq> member) z @ [(member, sc)]"

definition zrange_first :: "zset \<Rightarrow> (string \<times> time_ms) option" where
  "zrange_first z = first_row (order_asc (\<lambda>(m, sc). (sc, m)) z)"

section \<open>Rate limit per API key\<close>

definition retry_after :: "time_ms \<Rightarrow> int \<Rightarrow> zset \<Rightarrow> int" where
  "retry_after now windowMs z =
     (case zrange_first z of
        None \<Rightarrow> 1
      | Some (_, oldest) \<Rightarrow> (let retry = (oldest + windowMs) - now in if retry < 1 then 1 else retry))"

text \<open>\<open>SLIDING_WINDOW_SCRIPT\<close>.\<close>

definition sliding_window :: "time_ms \<Rightarrow> int \<Rightarrow> nat \<Rightarrow> string \<Rightarrow> window_key \<Rightarrow> (bool \<times> int) \<times> window_key" where
  "sliding_window now windowMs limit member k0 =
     (let k = wk_live now k0;
          z = zremrangebyscore 0 (now - windowMs) (wk_set k)
      in if limit \<le> length z then ((False, retry_after now windowMs z), k\<lparr>wk_set := z\<rparr>)
         else ((True, 0), \<lparr>wk_set = zadd now member z, wk_expiry = Some (now + windowMs)\<rparr>))"

datatype rate_reply = Proceed | Rate_limited int | Limiter_down

text \<open>The \<open>preHandler\<close> hook; \<open>up\<close> says whether Redis could be consulted. \<open>Math.ceil\<close> is the
  rounded-up division.\<close>

definition rate_limit_hook ::
  "bool \<Rightarrow> bool \<Rightarrow> bool \<Rightarrow> time_ms \<Rightarrow> int \<Rightarrow> nat \<Rightarrow> string \<Rightarrow> window_key \<Rightarrow> rate_reply \<times> window_key" where
  "rate_limit_hook v1_url authenticated up now windowMs limit member k =
     (if \<not> v1_url \<or> \<not> authenticated then (Proceed, k)
      else if \<not> up then (Limiter_down, k)
      else (case sliding_window now windowMs limit member k of
              ((True, _), k') \<Rightarrow> (Proceed, k')
            | ((False, retry), k') \<Rightarrow> (Rate_limited (max 1 (- ((- retry) div 1000))), k')))"

section \<open>Throttle per mail host\<close>

record throttle_key =
  tk_lease :: "(string \<times> time_ms) option"  \<comment> \<open>token and expiry\<close>
  tk_window :: window_key

definition no_throttle :: throttle_key where "no_throttle = \<lparr>tk_lease = None, tk_window = no_window\<rparr>"

record throttle_options =
  windowLimit :: nat
  windowMs :: int
  leaseTtlMs :: int
  leaseRetryMs :: int

definition throttle_defaults :: throttle_options where
  "throttle_defaults = \<lparr>windowLimit = 5, windowMs = 60000, leaseTtlMs = 30000, leaseRetryMs = 1000\<rparr>"

definition opt_default :: "'a option \<Rightarrow> 'a \<Rightarrow> 'a" where
  "opt_default x d = (case x of Some v \<Rightarrow> v | None \<Rightarrow> d)"

definition new_throttle ::
  "int option \<Rightarrow> nat option \<Rightarrow> int option \<Rightarrow> int option \<Rightarrow> int option \<Rightarrow> string + throttle_options" where
  "new_throttle maxConcurrent limit window leaseTtl leaseRetry =
     (if maxConcurrent \<noteq> None \<and> maxConcurrent \<noteq> Some 1
      then Inl ''MxThrottle supports exactly one concurrent probe per host''
      else Inr \<lparr>windowLimit = opt_default limit 5, windowMs = opt_default window 60000,
        leaseTtlMs = opt_default leaseTtl 30000, leaseRetryMs = opt_default leaseRetry 1000\<rparr>)"

lemma new_throttle_defaults: "new_throttle None None None None None = Inr throttle_defaults"
  by (simp add: new_throttle_def opt_default_def throttle_defaults_def)

definition lease_live :: "time_ms \<Rightarrow> throttle_key \<Rightarrow> (string \<times> time_ms) option" where
  "lease_live now k = (case tk_lease k of Some (tok, e) \<Rightarrow> if e \<le> now then None else Some (tok, e) | None \<Rightarrow> None)"

datatype acquire_reply = Acquired | Lease_held int | Window_full int

text \<open>\<open>ACQUIRE_SCRIPT\<close>.\<close>

definition acquire_script :: "throttle_options \<Rightarrow> time_ms \<Rightarrow> string \<Rightarrow> throttle_key \<Rightarrow> acquire_reply \<times> throttle_key" where
  "acquire_script opt now token k =
     (case lease_live now k of
        Some (_, e) \<Rightarrow> (Lease_held (let ttl = e - now in if ttl < 0 then leaseTtlMs opt else ttl), k)
      | None \<Rightarrow>
          (let w = wk_live now (tk_window k);
               z = zremrangebyscore 0 (now - windowMs opt) (wk_set w)
           in if windowLimit opt \<le> length z
              then (Window_full (retry_after now (windowMs opt) z), k\<lparr>tk_window := w\<lparr>wk_set := z\<rparr>\<rparr>)
              else (Acquired, \<lparr>tk_lease = Some (token, now + leaseTtlMs opt),
                     tk_window = \<lparr>wk_set = zadd now token z, wk_expiry = Some (now + windowMs opt)\<rparr>\<rparr>)))"

text \<open>\<open>RELEASE_SCRIPT\<close>.\<close>

definition release_script :: "time_ms \<Rightarrow> string \<Rightarrow> throttle_key \<Rightarrow> throttle_key" where
  "release_script now token k =
     (case lease_live now k of
        Some (tok, _) \<Rightarrow> if tok = token then k\<lparr>tk_lease := None\<rparr> else k
      | None \<Rightarrow> k)"

datatype throttle_decision = Allowed string | Denied int

definition throttle_acquire :: "throttle_options \<Rightarrow> time_ms \<Rightarrow> string \<Rightarrow> throttle_key \<Rightarrow> throttle_decision \<times> throttle_key" where
  "throttle_acquire opt now token k =
     (case acquire_script opt now token k of
        (Acquired, k') \<Rightarrow> (Allowed token, k')
      | (Lease_held ttl, k') \<Rightarrow> (Denied (min (max (min (leaseRetryMs opt) ttl) 500) (windowMs opt)), k')
      | (Window_full retry, k') \<Rightarrow> (Denied (min (max retry 500) (windowMs opt)), k'))"

section \<open>Circuit per domain\<close>

record domain_circuit =
  dc_fails :: "string \<rightharpoonup> nat \<times> time_ms"  \<comment> \<open>count and expiry\<close>
  dc_open :: "string \<rightharpoonup> time_ms"          \<comment> \<open>expiry\<close>

definition no_circuit :: domain_circuit where "no_circuit = \<lparr>dc_fails = Map.empty, dc_open = Map.empty\<rparr>"

record circuit_options =
  threshold :: nat
  openMs :: int
  failureTtlMs :: int

definition circuit_defaults :: circuit_options where
  "circuit_defaults = \<lparr>threshold = 3, openMs = 60 * 60 * 1000, failureTtlMs = 60 * 60 * 1000\<rparr>"

definition new_circuit :: "nat option \<Rightarrow> int option \<Rightarrow> int option \<Rightarrow> circuit_options" where
  "new_circuit limit duration ttl =
     (let openFor = opt_default duration (60 * 60 * 1000)
      in \<lparr>threshold = opt_default limit 3, openMs = openFor, failureTtlMs = opt_default ttl openFor\<rparr>)"

lemma new_circuit_defaults: "new_circuit None None None = circuit_defaults"
  by (simp add: new_circuit_def opt_default_def circuit_defaults_def)

definition isOpen :: "time_ms \<Rightarrow> string \<Rightarrow> domain_circuit \<Rightarrow> bool" where
  "isOpen now domain c = (case dc_open c domain of Some e \<Rightarrow> now < e | None \<Rightarrow> False)"

definition live_fails :: "time_ms \<Rightarrow> string \<Rightarrow> domain_circuit \<Rightarrow> nat" where
  "live_fails now domain c = (case dc_fails c domain of Some (n, e) \<Rightarrow> if now < e then n else 0 | None \<Rightarrow> 0)"

text \<open>\<open>RECORD_FAILURE_SCRIPT\<close>; the flag says whether this failure opened the circuit.\<close>

definition record_failure_script :: "circuit_options \<Rightarrow> time_ms \<Rightarrow> string \<Rightarrow> domain_circuit \<Rightarrow> bool \<times> domain_circuit" where
  "record_failure_script opt now domain c =
     (let count = live_fails now domain c + 1
      in if threshold opt \<le> count
         then (True, c\<lparr>dc_fails := (dc_fails c)(domain := None), dc_open := (dc_open c)(domain \<mapsto> now + openMs opt)\<rparr>)
         else (False, c\<lparr>dc_fails := (dc_fails c)(domain \<mapsto> (count, now + failureTtlMs opt))\<rparr>))"

definition circuit_recordFailure :: "circuit_options \<Rightarrow> time_ms \<Rightarrow> string \<Rightarrow> domain_circuit \<Rightarrow> domain_circuit" where
  "circuit_recordFailure opt now domain c = snd (record_failure_script opt now domain c)"

definition circuit_recordSuccess :: "string \<Rightarrow> domain_circuit \<Rightarrow> domain_circuit" where
  "circuit_recordSuccess domain c = c\<lparr>dc_fails := (dc_fails c)(domain := None)\<rparr>"

text \<open>A domain's circuit is a failure gate whose count lives for \<open>failureTtlMs\<close>.\<close>

interpretation dc: failure_gate "\<lambda>t. circuit_recordFailure opt t domain" "\<lambda>t. isOpen t domain"
  "\<lambda>t c. \<not> isOpen t domain c" "\<lambda>t. live_fails t domain"
  "\<lambda>t t'. t \<le> t' \<and> t' < t + failureTtlMs opt" "threshold opt" "openMs opt" for opt domain
  by unfold_locales
     (auto simp: circuit_recordFailure_def record_failure_script_def isOpen_def live_fails_def Let_def split: option.splits)

section \<open>Sliding windows\<close>

text \<open>What a sliding-window limiter promises, whatever else it refuses for: an admission finds
  fewer than \<open>limit\<close> starts in its window and adds its own; a refusal adds none. \<open>valid t\<close> says
  that a state has seen no start later than \<open>t\<close> and keeps every start long enough.\<close>

locale window_limiter =
  fixes admit :: "time_ms \<Rightarrow> string \<Rightarrow> 's \<Rightarrow> bool \<times> 's"
    and starts :: "time_ms \<Rightarrow> 's \<Rightarrow> zset"
    and valid :: "time_ms \<Rightarrow> 's \<Rightarrow> bool"
    and limit :: nat
    and width :: int
  assumes starts_later: "valid t s \<Longrightarrow> t \<le> t' \<Longrightarrow> starts t' s = filter (\<lambda>(m, u). t' - width < u) (starts t s)"
    and valid_later: "valid t s \<Longrightarrow> t \<le> t' \<Longrightarrow> valid t' s"
    and admit_valid: "valid t s \<Longrightarrow> admit t m s = (b, s') \<Longrightarrow> valid t s'"
    and admit_room: "admit t m s = (True, s') \<Longrightarrow> length (starts t s) < limit"
    and admit_starts: "admit t m s = (b, s') \<Longrightarrow> m \<notin> fst ` set (starts t s) \<Longrightarrow>
      starts t s' = starts t s @ (if b then [(m, t)] else [])"
begin

text \<open>The requests admitted out of a sequence, and the state after it.\<close>

fun run :: "zset \<Rightarrow> 's \<Rightarrow> zset \<times> 's" where
  "run [] s = ([], s)"
| "run ((m, t) # rs) s =
     (let (b, s') = admit t m s; (as, s'') = run rs s' in ((if b then [(m, t)] else []) @ as, s''))"

lemma run_snoc:
  "run (rs @ [(m, t)]) s =
     (let (as, s') = run rs s; (b, s'') = admit t m s' in (as @ (if b then [(m, t)] else []), s''))"
  by (induction rs arbitrary: s) (auto simp: Let_def split: prod.splits)

definition in_window :: "time_ms \<Rightarrow> zset \<Rightarrow> zset" where
  "in_window t as = filter (\<lambda>(m, u). t - width < u \<and> u \<le> t) as"

lemma run_subset: "set (fst (run rs s)) \<subseteq> set rs"
proof (induction rs arbitrary: s)
  case (Cons r rs)
  obtain m t where r: "r = (m, t)" by (cases r)
  obtain b s' where "admit t m s = (b, s')" by fastforce
  moreover obtain as s'' where "run rs s' = (as, s'')" by fastforce
  ultimately show ?case using Cons.IH [of s'] r by auto
qed simp

lemma run_bounded:
  assumes "\<And>t. starts t s = []" "\<And>t. valid t s" "sorted (map snd rs)" "distinct (map fst rs)"
    and "run rs s = (as, s')"
  shows "(\<forall>t. (\<forall>(m, u) \<in> set rs. u \<le> t) \<longrightarrow> valid t s' \<and> starts t s' = filter (\<lambda>(m, u). t - width < u) as)
    \<and> (\<forall>t. length (in_window t as) \<le> limit)"
  using assms
proof (induction rs arbitrary: as s' rule: rev_induct)
  case (snoc r rs)
  obtain m t where r: "r = (m, t)" by (cases r)
  obtain as0 s0 where r0: "run rs s = (as0, s0)" by fastforce
  obtain b s1 where adm: "admit t m s0 = (b, s1)" by fastforce
  have res: "as = as0 @ (if b then [(m, t)] else [])" "s' = s1"
    using snoc.prems(5) r r0 adm by (simp_all add: run_snoc)
  have pre: "sorted (map snd rs)" "distinct (map fst rs)"
    using snoc.prems(3,4) by (simp_all add: sorted_append)
  have sub: "set as0 \<subseteq> set rs" using run_subset [of rs s] r0 by simp
  have le: "\<forall>(m, u) \<in> set rs. u \<le> t" using snoc.prems(3) r by (auto simp: sorted_append)
  have le_as: "\<forall>(m, u) \<in> set as0. u \<le> t" using le sub by blast
  have val: "valid t s0" and IH1: "starts t s0 = filter (\<lambda>(m, u). t - width < u) as0"
    and IH2: "\<And>t. length (in_window t as0) \<le> limit"
    using snoc.IH [OF snoc.prems(1,2) pre r0] le by blast+
  have win: "in_window t as0 = starts t s0"
    unfolding IH1 in_window_def using le_as by (intro filter_cong) auto
  have fresh: "m \<notin> fst ` set (starts t s0)"
    unfolding IH1 using sub snoc.prems(4) r by force
  have st: "starts t s1 = starts t s0 @ (if b then [(m, t)] else [])"
    by (rule admit_starts [OF adm fresh])
  show ?case
  proof (intro conjI allI impI)
    fix t' assume "\<forall>(m, u) \<in> set (rs @ [r]). u \<le> t'"
    then have tt: "t \<le> t'" using r by simp
    show "valid t' s'" using valid_later [OF admit_valid [OF val adm] tt] res(2) by simp
    have "starts t' s1 = filter (\<lambda>(m, u). t' - width < u) (starts t s1)"
      by (rule starts_later [OF admit_valid [OF val adm] tt])
    also have "\<dots> = filter (\<lambda>(m, u). t' - width < u) as"
      unfolding st IH1 res(1) filter_append filter_filter using tt by (intro arg_cong2 [where f = append] filter_cong) auto
    finally show "starts t' s' = filter (\<lambda>(m, u). t' - width < u) as" using res(2) by simp
  next
    fix t'
    show "length (in_window t' as) \<le> limit"
    proof (cases "b \<and> t' - width < t \<and> t \<le> t'")
      case False
      then have "in_window t' as = in_window t' as0" using res(1) by (auto simp: in_window_def)
      then show ?thesis using IH2 by simp
    next
      case True
      then have room: "length (starts t s0) < limit" using admit_room adm by auto
      have "in_window t' as0 = filter (\<lambda>(m, u). t' - width < u) (in_window t as0)"
        unfolding in_window_def filter_filter using True le_as by (intro filter_cong) auto
      then have "length (in_window t' as0) \<le> length (in_window t as0)" by simp
      moreover have "in_window t' as = in_window t' as0 @ [(m, t)]"
        using True res(1) by (simp add: in_window_def)
      ultimately show ?thesis using room win by simp
    qed
  qed
qed (simp add: in_window_def)

corollary run_window:
  assumes "\<And>t. starts t s = []" "\<And>t. valid t s" "sorted (map snd rs)" "distinct (map fst rs)"
  shows "length (filter (\<lambda>(m, u). t - width < u \<and> u \<le> t) (fst (run rs s))) \<le> limit"
proof -
  obtain as s' where "run rs s = (as, s')" by fastforce
  with run_bounded [OF assms] show ?thesis by (simp add: in_window_def)
qed

end

text \<open>Both scripts keep the same kind of key.\<close>

definition wk_starts :: "int \<Rightarrow> time_ms \<Rightarrow> window_key \<Rightarrow> zset" where
  "wk_starts width t k = filter (\<lambda>(m, u). t - width < u) (wk_set (wk_live t k))"

definition wk_valid :: "int \<Rightarrow> time_ms \<Rightarrow> window_key \<Rightarrow> bool" where
  "wk_valid width t k = (\<forall>(m, u) \<in> set (wk_set k). u \<le> t \<and> (\<exists>e. wk_expiry k = Some e \<and> u + width \<le> e))"

lemma wk_starts_later:
  "wk_valid width t k \<Longrightarrow> t \<le> t' \<Longrightarrow> wk_starts width t' k = filter (\<lambda>(m, u). t' - width < u) (wk_starts width t k)"
proof -
  assume v: "wk_valid width t k" and t: "t \<le> t'"
  show ?thesis
  proof (cases "\<exists>e. wk_expiry k = Some e \<and> e \<le> t'")
    case True
    then have "\<forall>(m, u) \<in> set (wk_set k). \<not> t' - width < u" using v by (fastforce simp: wk_valid_def)
    then have "filter (\<lambda>x. P x \<and> (case x of (m, u) \<Rightarrow> t' - width < u)) (wk_set k) = []" for P
      by (auto simp: filter_empty_conv)
    then show ?thesis using True by (auto simp: wk_starts_def wk_live_def no_window_def split: option.splits)
  next
    case False
    then show ?thesis using t by (auto simp: wk_starts_def wk_live_def split: option.splits intro!: filter_cong)
  qed
qed

lemma wk_valid_prune: "wk_valid width t k \<Longrightarrow> wk_valid width t ((wk_live t k)\<lparr>wk_set := zremrangebyscore lo hi (wk_set (wk_live t k))\<rparr>)"
  by (auto simp: wk_valid_def wk_live_def zremrangebyscore_def no_window_def split: option.splits)

lemma wk_valid_add:
  "wk_valid width t k \<Longrightarrow>
     wk_valid width t \<lparr>wk_set = zadd t m (zremrangebyscore lo hi (wk_set (wk_live t k))), wk_expiry = Some (t + width)\<rparr>"
  by (auto simp: wk_valid_def wk_live_def zremrangebyscore_def zadd_def no_window_def split: option.splits)

lemma wk_starts_prune:
  "wk_starts width t ((wk_live t k)\<lparr>wk_set := zremrangebyscore lo (t - width) (wk_set (wk_live t k))\<rparr>) = wk_starts width t k"
  by (auto simp: wk_starts_def wk_live_def zremrangebyscore_def no_window_def split: option.splits intro!: filter_cong)

lemma wk_starts_room: "length (wk_starts width t k) \<le> length (zremrangebyscore lo (t - width) (wk_set (wk_live t k)))"
proof -
  have "wk_starts width t k = filter (\<lambda>(m, u). t - width < u) (zremrangebyscore lo (t - width) (wk_set (wk_live t k)))"
    by (auto simp: wk_starts_def zremrangebyscore_def intro!: filter_cong)
  then show ?thesis by simp
qed

lemma wk_starts_add:
  assumes "0 < width" "m \<notin> fst ` set (wk_starts width t k)"
  shows "wk_starts width t \<lparr>wk_set = zadd t m (zremrangebyscore lo (t - width) (wk_set (wk_live t k))), wk_expiry = Some (t + width)\<rparr>
    = wk_starts width t k @ [(m, t)]"
proof -
  have "(x, u) \<in> set (wk_set (wk_live t k)) \<Longrightarrow> t - width < u \<Longrightarrow> x \<noteq> m" for x u
    using assms(2) by (force simp: wk_starts_def)
  then show ?thesis
    using assms(1) by (auto simp: wk_starts_def wk_live_def [of t "\<lparr>wk_set = _, wk_expiry = _\<rparr>"] zremrangebyscore_def zadd_def intro!: filter_cong)
qed

definition rate_admit :: "int \<Rightarrow> nat \<Rightarrow> time_ms \<Rightarrow> string \<Rightarrow> window_key \<Rightarrow> bool \<times> window_key" where
  "rate_admit width limit t m k = (let ((b, _), k') = sliding_window t width limit m k in (b, k'))"

definition throttle_admit :: "throttle_options \<Rightarrow> time_ms \<Rightarrow> string \<Rightarrow> throttle_key \<Rightarrow> bool \<times> throttle_key" where
  "throttle_admit opt t m k = (let (d, k') = throttle_acquire opt t m k in (d = Allowed m, k'))"

lemma rate_admit_cases:
  assumes "rate_admit width limit t m k = (b, k')"
  obtains "\<not> b" "k' = (wk_live t k)\<lparr>wk_set := zremrangebyscore 0 (t - width) (wk_set (wk_live t k))\<rparr>"
  | "b" "length (zremrangebyscore 0 (t - width) (wk_set (wk_live t k))) < limit"
    "k' = \<lparr>wk_set = zadd t m (zremrangebyscore 0 (t - width) (wk_set (wk_live t k))), wk_expiry = Some (t + width)\<rparr>"
  using assms by (auto simp: rate_admit_def sliding_window_def Let_def split: if_splits)

text \<open>A window width is a positive constant; the interpretations write it as \<open>int (Suc w)\<close>.\<close>

interpretation rl: window_limiter "rate_admit (int (Suc w)) limit" "wk_starts (int (Suc w))" "wk_valid (int (Suc w))"
  limit "int (Suc w)" for w limit
proof unfold_locales
  let ?w = "int (Suc w)"
  fix t t' :: time_ms and m s s' b
  show "wk_valid ?w t s \<Longrightarrow> t \<le> t' \<Longrightarrow> wk_starts ?w t' s = filter (\<lambda>(m, u). t' - ?w < u) (wk_starts ?w t s)"
    by (rule wk_starts_later)
  show "wk_valid ?w t s \<Longrightarrow> t \<le> t' \<Longrightarrow> wk_valid ?w t' s" by (fastforce simp: wk_valid_def)
  show "wk_valid ?w t s \<Longrightarrow> rate_admit ?w limit t m s = (b, s') \<Longrightarrow> wk_valid ?w t s'"
    by (erule rate_admit_cases) (simp_all add: wk_valid_prune wk_valid_add)
  show "rate_admit ?w limit t m s = (True, s') \<Longrightarrow> length (wk_starts ?w t s) < limit"
    using wk_starts_room [of ?w t s 0] by (elim rate_admit_cases) simp_all
  show "rate_admit ?w limit t m s = (b, s') \<Longrightarrow> m \<notin> fst ` set (wk_starts ?w t s) \<Longrightarrow>
      wk_starts ?w t s' = wk_starts ?w t s @ (if b then [(m, t)] else [])"
    by (erule rate_admit_cases) (simp_all add: wk_starts_prune wk_starts_add)
qed

lemma throttle_admit_cases:
  assumes "throttle_admit opt t m k = (b, k')"
  obtains "\<not> b" "k' = k" "lease_live t k \<noteq> None"
  | "\<not> b" "lease_live t k = None" "tk_lease k' = tk_lease k" "tk_window k' =
      (wk_live t (tk_window k))\<lparr>wk_set := zremrangebyscore 0 (t - windowMs opt) (wk_set (wk_live t (tk_window k)))\<rparr>"
  | "b" "lease_live t k = None" "length (zremrangebyscore 0 (t - windowMs opt) (wk_set (wk_live t (tk_window k)))) < windowLimit opt"
    "k' = \<lparr>tk_lease = Some (m, t + leaseTtlMs opt), tk_window = \<lparr>wk_set = zadd t m (zremrangebyscore 0 (t - windowMs opt)
      (wk_set (wk_live t (tk_window k)))), wk_expiry = Some (t + windowMs opt)\<rparr>\<rparr>"
  using assms
  by (auto simp: throttle_admit_def throttle_acquire_def acquire_script_def Let_def split: if_splits option.splits)

text \<open>Releases may come at any moment: \<open>rel m\<close> lists those between the previous request and
  request \<open>m\<close>, with their times and tokens.\<close>

definition releases :: "(time_ms \<times> string) list \<Rightarrow> throttle_key \<Rightarrow> throttle_key" where
  "releases rs k = foldl (\<lambda>k (t, token). release_script t token k) k rs"

definition throttle_step ::
  "throttle_options \<Rightarrow> (string \<Rightarrow> (time_ms \<times> string) list) \<Rightarrow> time_ms \<Rightarrow> string \<Rightarrow> throttle_key \<Rightarrow> bool \<times> throttle_key" where
  "throttle_step opt rel t m k = throttle_admit opt t m (releases (rel m) k)"

lemma release_window [simp]: "tk_window (release_script t tok k) = tk_window k"
  by (simp add: release_script_def split: option.splits)

lemma releases_window [simp]: "tk_window (releases rs k) = tk_window k"
  by (induction rs arbitrary: k) (auto simp: releases_def split: prod.splits)

interpretation th: window_limiter "throttle_step (opt\<lparr>windowMs := int (Suc w)\<rparr>) rel" "\<lambda>t k. wk_starts (int (Suc w)) t (tk_window k)"
  "\<lambda>t k. wk_valid (int (Suc w)) t (tk_window k)" "windowLimit opt" "int (Suc w)" for w opt rel
proof unfold_locales
  let ?w = "int (Suc w)" and ?opt = "opt\<lparr>windowMs := int (Suc w)\<rparr>"
  fix t t' :: time_ms and m b and s s' :: throttle_key
  show "wk_valid ?w t (tk_window s) \<Longrightarrow> t \<le> t' \<Longrightarrow>
      wk_starts ?w t' (tk_window s) = filter (\<lambda>(m, u). t' - ?w < u) (wk_starts ?w t (tk_window s))"
    by (rule wk_starts_later)
  show "wk_valid ?w t (tk_window s) \<Longrightarrow> t \<le> t' \<Longrightarrow> wk_valid ?w t' (tk_window s)" by (fastforce simp: wk_valid_def)
  show "wk_valid ?w t (tk_window s) \<Longrightarrow> throttle_step ?opt rel t m s = (b, s') \<Longrightarrow> wk_valid ?w t (tk_window s')"
    unfolding throttle_step_def by (erule throttle_admit_cases) (simp_all add: wk_valid_prune wk_valid_add)
  show "throttle_step ?opt rel t m s = (True, s') \<Longrightarrow> length (wk_starts ?w t (tk_window s)) < windowLimit opt"
    unfolding throttle_step_def using wk_starts_room [of ?w t "tk_window s" 0] by (elim throttle_admit_cases) simp_all
  show "throttle_step ?opt rel t m s = (b, s') \<Longrightarrow> m \<notin> fst ` set (wk_starts ?w t (tk_window s)) \<Longrightarrow>
      wk_starts ?w t (tk_window s') = wk_starts ?w t (tk_window s) @ (if b then [(m, t)] else [])"
    unfolding throttle_step_def by (erule throttle_admit_cases) (simp_all add: wk_starts_prune wk_starts_add)
qed

section \<open>Runs\<close>

text \<open>The requests admitted out of a sequence of (nonce, time) requests.\<close>

fun rate_run :: "int \<Rightarrow> nat \<Rightarrow> zset \<Rightarrow> window_key \<Rightarrow> zset" where
  "rate_run width limit [] k = []"
| "rate_run width limit ((m, t) # rs) k =
     (let (b, k') = rate_admit width limit t m k in (if b then [(m, t)] else []) @ rate_run width limit rs k')"

fun throttle_run :: "throttle_options \<Rightarrow> (string \<Rightarrow> (time_ms \<times> string) list) \<Rightarrow> zset \<Rightarrow> throttle_key \<Rightarrow> zset" where
  "throttle_run opt rel [] k = []"
| "throttle_run opt rel ((m, t) # rs) k =
     (let (b, k') = throttle_step opt rel t m k in (if b then [(m, t)] else []) @ throttle_run opt rel rs k')"

lemma rate_run_eq: "rate_run (int (Suc w)) limit rs k = fst (rl.run w limit rs k)"
  by (induction rs arbitrary: k) (auto simp del: of_nat_Suc split: prod.splits)

lemma throttle_run_eq: "throttle_run (opt\<lparr>windowMs := int (Suc w)\<rparr>) rel rs k = fst (th.run w opt rel rs k)"
  by (induction rs arbitrary: k) (auto simp del: of_nat_Suc split: prod.splits)

lemma no_window_starts [simp]: "wk_starts width t no_window = []" "wk_valid width t no_window"
  by (simp_all add: wk_starts_def wk_live_def no_window_def wk_valid_def)

text \<open>C21: The rate limiter keeps its promise: from an empty key, of any sequence of requests of
  one API key in the order of their times, each under its own nonce, no window of \<open>width\<close>
  milliseconds, wherever it is laid, contains more than \<open>limit\<close> admitted ones.\<close>

theorem rate_limit_window:
  assumes "0 < width" "sorted (map snd rs)" "distinct (map fst rs)"
  shows "length (filter (\<lambda>(m, u). t - width < u \<and> u \<le> t) (rate_run width limit rs no_window)) \<le> limit"
proof -
  have w: "width = int (Suc (nat (width - 1)))" using assms(1) by simp
  show ?thesis
    using rl.run_window [OF _ _ assms(2,3), of "nat (width - 1)" no_window t limit]
    by (subst (1 2) w) (simp add: rate_run_eq del: of_nat_Suc)
qed

theorem rate_limit_window_witness:
  "length (filter (\<lambda>(m, u). 1009 - (10::int) < u \<and> u \<le> 1009)
     (rate_run 10 2 [(''a'', 1000), (''b'', 1001), (''c'', 1005), (''d'', 1010)] no_window)) \<le> 2"
  by (rule rate_limit_window) auto


section \<open>The lease\<close>

lemma release_other: "tk_lease k = Some (m0, e) \<Longrightarrow> token \<noteq> m0 \<Longrightarrow> tk_lease (release_script t token k) = Some (m0, e)"
  by (simp add: release_script_def lease_live_def)

lemma releases_other:
  "tk_lease k = Some (m0, e) \<Longrightarrow> m0 \<notin> snd ` set rs \<Longrightarrow> tk_lease (releases rs k) = Some (m0, e)"
  by (induction rs arbitrary: k) (auto simp: releases_def release_other)

text \<open>While a lease has neither expired nor been released, nothing is admitted.\<close>

lemma lease_blocks:
  assumes "tk_lease k = Some (m0, e)" "\<And>m. m0 \<notin> snd ` set (rel m)" "throttle_run opt rel rs k = (m2, t2) # ys"
  shows "e \<le> t2"
  using assms(1,3)
proof (induction rs arbitrary: k)
  case (Cons r rs)
  obtain m t where r: "r = (m, t)" by (cases r)
  obtain b k' where st: "throttle_step opt rel t m k = (b, k')" by fastforce
  have l: "tk_lease (releases (rel m) k) = Some (m0, e)" using Cons.prems(1) assms(2) by (rule releases_other)
  from st have ad: "throttle_admit opt t m (releases (rel m) k) = (b, k')" by (simp add: throttle_step_def)
  show ?case
  proof (cases b)
    case True
    then have "lease_live t (releases (rel m) k) = None" using ad by (auto elim: throttle_admit_cases)
    then have "e \<le> t" using l by (simp add: lease_live_def split: if_splits)
    then show ?thesis using Cons.prems(2) st r True by simp
  next
    case False
    then have "tk_lease k' = Some (m0, e)" using ad l by (auto elim: throttle_admit_cases)
    then show ?thesis using Cons.IH Cons.prems(2) st r False by simp
  qed
qed simp

lemma lease_separates:
  assumes "throttle_run opt rel rs k = xs @ (m1, t1) # (m2, t2) # ys" "\<And>m. m1 \<notin> snd ` set (rel m)"
  shows "t1 + leaseTtlMs opt \<le> t2"
  using assms(1)
proof (induction rs arbitrary: k xs)
  case (Cons r rs)
  obtain m t where r: "r = (m, t)" by (cases r)
  obtain b k' where st: "throttle_step opt rel t m k = (b, k')" by fastforce
  show ?case
  proof (cases "b \<and> xs = []")
    case True
    then have m: "m = m1" "t = t1" and rest: "throttle_run opt rel rs k' = (m2, t2) # ys"
      using Cons.prems st r by auto
    have "throttle_admit opt t1 m1 (releases (rel m1) k) = (True, k')"
      using st True m by (simp add: throttle_step_def)
    then have "tk_lease k' = Some (m1, t1 + leaseTtlMs opt)" by (auto elim: throttle_admit_cases)
    from lease_blocks [OF this assms(2) rest] show ?thesis .
  next
    case False
    then show ?thesis using Cons.IH [of k' "if b then tl xs else xs"] Cons.prems st r by (cases xs; cases b) auto
  qed
qed simp

text \<open>C22: The throttle's two rules. From empty keys, whatever releases come in between: no window
  of \<open>windowMs\<close> contains more than \<open>windowLimit\<close> admitted probes of a host, and two probes
  admitted one after the other are at least \<open>leaseTtlMs\<close> apart unless the first one's lease was
  released in between. A denied probe is told to wait at least half a second and at most the
  window.\<close>

theorem throttle_limits:
  assumes "500 \<le> windowMs opt" "sorted (map snd rs)" "distinct (map fst rs)"
  shows "length (filter (\<lambda>(m, u). t - windowMs opt < u \<and> u \<le> t) (throttle_run opt rel rs no_throttle)) \<le> windowLimit opt
    \<and> (\<forall>xs m1 t1 m2 t2 ys. throttle_run opt rel rs no_throttle = xs @ (m1, t1) # (m2, t2) # ys
         \<and> (\<forall>m. m1 \<notin> snd ` set (rel m)) \<longrightarrow> t1 + leaseTtlMs opt \<le> t2)
    \<and> (\<forall>now token k delay k'. throttle_acquire opt now token k = (Denied delay, k') \<longrightarrow> 500 \<le> delay \<and> delay \<le> windowMs opt)"
proof (intro conjI allI impI)
  define w where "w = nat (windowMs opt - 1)"
  have ww: "windowMs opt = int (Suc w)" using assms(1) by (simp add: w_def)
  have o: "opt\<lparr>windowMs := int (Suc w)\<rparr> = opt" unfolding ww [symmetric] by simp
  show "length (filter (\<lambda>(m, u). t - windowMs opt < u \<and> u \<le> t) (throttle_run opt rel rs no_throttle)) \<le> windowLimit opt"
    using th.run_window [OF _ _ assms(2,3), where s = no_throttle and t = t and w = w and opt = opt and rel = rel]
      throttle_run_eq [where w = w and opt = opt and rel = rel and rs = rs and k = no_throttle]
    unfolding o ww [symmetric] by (simp add: no_throttle_def)
qed (use assms(1) lease_separates in \<open>auto simp: throttle_acquire_def split: prod.splits acquire_reply.splits\<close>)


theorem throttle_limits_witness:
  "length (filter (\<lambda>(m, u). 60001 - (60000::int) < u \<and> u \<le> 60001)
     (throttle_run throttle_defaults (\<lambda>_. []) [(''a'', 1), (''b'', 29999), (''c'', 30001), (''d'', 60001)] no_throttle)) \<le> 5"
  using throttle_limits [of throttle_defaults "[(''a'', 1), (''b'', 29999), (''c'', 30001), (''d'', 60001)]" 60001 "\<lambda>_. []"]
  by (simp add: throttle_defaults_def)


section \<open>The retry hint\<close>

lemma zrange_first_min:
  assumes "zrange_first z = Some (m, u)"
  shows "(m, u) \<in> set z" "\<forall>(m', u') \<in> set z. u \<le> u'"
proof -
  let ?key = "\<lambda>(m, sc). (sc, m)" and ?s = "order_asc (\<lambda>(m, sc). (sc, m)) z"
  obtain rest where s: "?s = (m, u) # rest"
    using assms by (auto simp: zrange_first_def first_row_def split: list.splits)
  have set: "set ?s = set z" by (simp add: order_asc_def)
  then show "(m, u) \<in> set z" using s by (metis list.set_intros(1))
  have srt: "sorted (map ?key ?s)" by (simp add: order_asc_def)
  show "\<forall>(m', u') \<in> set z. u \<le> u'"
  proof clarify
    fix m' u' assume "(m', u') \<in> set z"
    then have "(m', u') = (m, u) \<or> (m', u') \<in> set rest" using set s by auto
    then show "u \<le> u'" using srt s by (fastforce simp: less_eq_prod_def)
  qed
qed

lemma zrange_first_ex: "z \<noteq> [] \<Longrightarrow> \<exists>m u. zrange_first z = Some (m, u)"
proof -
  assume "z \<noteq> []"
  then have "set (order_asc (\<lambda>(m, sc). (sc, m)) z) \<noteq> {}" by (simp add: order_asc_def)
  then show ?thesis
    unfolding zrange_first_def first_row_def by (cases "order_asc (\<lambda>(m, sc). (sc, m)) z") auto
qed

lemma filter_drops: "length (filter P xs) < length xs \<longleftrightarrow> (\<exists>x \<in> set xs. \<not> P x)"
  by (metis filter_id_conv length_filter_less less_irrefl)

text \<open>The retry hint of a refused request is exact: if nothing else is admitted meanwhile, a
  request \<open>retry\<close> milliseconds later, or any time after, is admitted, and any earlier one is
  refused. The premises say that the key was written by this script.\<close>

theorem rate_retry_exact:
  assumes "0 < limit" "wk_valid width now k" "\<forall>(m, u) \<in> set (wk_set k). 0 \<le> u" "length (wk_starts width now k) \<le> limit"
    and "sliding_window now width limit member k = ((False, retry), k')" "now \<le> t"
  shows "1 \<le> retry \<and> (fst (fst (sliding_window t width limit member' k')) \<longleftrightarrow> now + retry \<le> t)"
proof -
  define z where "z = zremrangebyscore 0 (now - width) (wk_set (wk_live now k))"
  have nonneg: "\<forall>(m, u) \<in> set (wk_set (wk_live now k)). 0 \<le> u"
    using assms(3) by (auto simp: wk_live_def no_window_def split: option.splits)
  have z: "z = wk_starts width now k"
    unfolding z_def zremrangebyscore_def wk_starts_def using nonneg by (intro filter_cong) auto
  have ref: "limit \<le> length z" "retry = retry_after now width z" "k' = (wk_live now k)\<lparr>wk_set := z\<rparr>"
    using assms(5) by (auto simp: sliding_window_def Let_def z_def split: if_splits)
  then have len: "length z = limit" using assms(4) z by simp
  obtain m u where first: "zrange_first z = Some (m, u)" using zrange_first_ex [of z] len assms(1) by auto
  note fm = zrange_first_min [OF first]
  have in_win: "now - width < u" using fm(1) unfolding z wk_starts_def by auto
  then have retry: "retry = u + width - now" using ref(2) first by (simp add: retry_after_def Let_def)
  have val': "wk_valid width now k'" unfolding ref(3) z_def by (rule wk_valid_prune [OF assms(2)])
  have st: "wk_starts width now k' = z" unfolding ref(3) z_def using wk_starts_prune [where lo = 0 and t = now and width = width and k = k] z z_def by simp
  have nonneg': "\<forall>(m, u) \<in> set (wk_set (wk_live t k')). 0 \<le> u"
    using nonneg unfolding ref(3) z_def by (auto simp: wk_live_def zremrangebyscore_def no_window_def split: option.splits)
  have zt: "zremrangebyscore 0 (t - width) (wk_set (wk_live t k')) = filter (\<lambda>(m, u). t - width < u) z"
  proof -
    have "zremrangebyscore 0 (t - width) (wk_set (wk_live t k')) = wk_starts width t k'"
      unfolding zremrangebyscore_def wk_starts_def using nonneg' by (intro filter_cong) auto
    then show ?thesis using wk_starts_later [OF val' assms(6)] st by simp
  qed
  have "fst (fst (sliding_window t width limit member' k')) \<longleftrightarrow> length (filter (\<lambda>(m, u). t - width < u) z) < length z"
    by (simp add: sliding_window_def Let_def zt len)
  also have "\<dots> \<longleftrightarrow> u + width \<le> t"
    unfolding filter_drops
  proof
    assume "u + width \<le> t"
    then show "\<exists>x \<in> set z. \<not> (case x of (m, u) \<Rightarrow> t - width < u)" using fm(1) by (intro bexI [of _ "(m, u)"]) auto
  qed (use fm(2) in force)
  finally show ?thesis using retry in_win by auto
qed

theorem rate_retry_exact_witness:
  "let k = snd (sliding_window 1003 10 2 ''b'' (snd (sliding_window 1000 10 2 ''a'' no_window)));
       ((ok, retry), k') = sliding_window 1004 10 2 ''c'' k
   in \<not> ok \<and> retry = 6 \<and> fst (fst (sliding_window 1010 10 2 ''d'' k')) \<and> \<not> fst (fst (sliding_window 1009 10 2 ''d'' k'))"
proof -
  let ?k = "\<lparr>wk_set = [(''a'', 1000), (''b'', 1003)], wk_expiry = Some 1013\<rparr> :: window_key"
  have k: "snd (sliding_window 1003 10 2 ''b'' (snd (sliding_window 1000 10 2 ''a'' no_window))) = ?k" by code_simp
  have r: "sliding_window 1004 10 2 ''c'' ?k = ((False, 6), ?k)" by code_simp
  have v: "wk_valid 10 1004 ?k" "\<forall>(m, u) \<in> set (wk_set ?k). 0 \<le> u" "length (wk_starts 10 1004 ?k) \<le> 2"
    by (simp_all add: wk_valid_def wk_starts_def wk_live_def)
  show ?thesis
    using rate_retry_exact [OF _ v r, of 1010] rate_retry_exact [OF _ v r, of 1009]
    by (simp add: k r)
qed

end
