(* ===== verification/Worker_Smtp.thy ===== *)
theory Worker_Smtp
  imports Api_Check Worker_Limits
begin

text \<open>
  \<^verbatim>\<open>apps/worker/src/smtp/processor.ts\<close>: one SMTP probe job over the database, the domain
  circuit and the throttle of the mail host. The clock, the engine's answer and the lease token
  are arguments.
\<close>

record probe_world =
  pw_smtpEnabled :: bool
  pw_now :: time_ms
  pw_engine :: "string \<Rightarrow> engine_error + engine_response" \<comment> \<open>\<open>engine.verify\<close> with probe and catch-all\<close>
  pw_token :: string
  pw_throttle :: throttle_options
  pw_circuit :: circuit_options
  pw_released :: time_ms

record probe_state =
  ps_db :: database
  ps_circuit :: domain_circuit
  ps_throttle :: "string \<Rightarrow> throttle_key"

datatype job_outcome =
    Job_ok | Job_smtp_disabled | Job_circuit_open | Job_engine_failure | Job_engine_rejected | Job_no_mx_host

datatype unrecoverable = Row_unavailable | Invalid_snapshot

datatype job_end =
    Job_done job_outcome
  | Job_delayed time_ms          \<comment> \<open>moved to delayed, not a failure\<close>
  | Job_unrecoverable unrecoverable

definition parseStoredChecks :: "json \<Rightarrow> engine_response option" where
  "parseStoredChecks v =
     (case v of
        JObj kvs \<Rightarrow> (case map_of kvs ''engine'' of None \<Rightarrow> None | Some e \<Rightarrow> engineResponseSchema e)
      | _ \<Rightarrow> None)"

definition primaryMxHost :: "engine_response \<Rightarrow> string option" where
  "primaryMxHost e =
     (case js_get_index (mx_records (eng_mx e)) 0 of
        None \<Rightarrow> None
      | Some first \<Rightarrow>
          if js_trim first = [] then None
          else (let lower = js_toLowerCase (js_trim first);
                    host = (if js_endsWith lower ''.'' then js_slice lower 0 (-1) else lower)
                in if host = [] then None else Some host))"

text \<open>A terminal outcome: the engine data \<open>stored\<close> is written with the verdict of the engine data
  \<open>judged\<close>.\<close>

definition probe_update ::
  "engine_response \<Rightarrow> engine_response \<Rightarrow> operational_reason option \<Rightarrow> email_check_result_update" where
  "probe_update stored judged operational =
     (let typo = detectTypo (syn_domain (eng_syntax stored));
          aggregated = aggregate \<lparr>engine = judged, typo = typo, operationalReason = operational\<rparr>
      in \<lparr>eu_verdict = agg_verdict aggregated, eu_reasonCodes = reasonCodes aggregated,
          eu_checksJson = stored_json \<lparr>st_engine = stored, st_score = of_int (score aggregated),
            st_disclaimer = disclaimer aggregated, st_typo = typo, st_smtp_status = Smtp_complete,
            st_operational_reason = operational\<rparr>,
          eu_cached = False\<rparr>)"

definition writeResult :: "uuid \<Rightarrow> engine_response \<Rightarrow> operational_reason option \<Rightarrow> probe_state \<Rightarrow> probe_state" where
  "writeResult checkId e operational s =
     s\<lparr>ps_db := snd (updateEmailCheckResult (ps_db s) checkId (probe_update e e operational))\<rparr>"

definition unavailable_smtp :: smtp_part where
  "unavailable_smtp = \<lparr>attempted = True, mailbox_accepted = False, catch_all = False, full_inbox = False,
     smtp_disabled = False, smtp_error = ''engine unavailable''\<rparr>"

definition writeUnavailable :: "uuid \<Rightarrow> engine_response \<Rightarrow> probe_state \<Rightarrow> probe_state" where
  "writeUnavailable checkId e s =
     s\<lparr>ps_db := snd (updateEmailCheckResult (ps_db s) checkId
         (probe_update e (e\<lparr>eng_smtp := Some unavailable_smtp\<rparr>) None))\<rparr>"

text \<open>The probe under the lease, and the release in its \<open>finally\<close>.\<close>

definition run_probe :: "probe_world \<Rightarrow> uuid \<Rightarrow> string \<Rightarrow> engine_response \<Rightarrow> probe_state \<Rightarrow> job_outcome \<times> probe_state" where
  "run_probe w checkId email e s =
     (let domain = syn_domain (eng_syntax e)
      in case pw_engine w email of
           Inl (EngineHttpError status) \<Rightarrow>
             if status < 500 then (Job_engine_rejected, writeUnavailable checkId e s)
             else (Job_engine_failure, writeUnavailable checkId e
                     (s\<lparr>ps_circuit := circuit_recordFailure (pw_circuit w) (pw_now w) domain (ps_circuit s)\<rparr>))
         | Inl _ \<Rightarrow> (Job_engine_failure, writeUnavailable checkId e
                     (s\<lparr>ps_circuit := circuit_recordFailure (pw_circuit w) (pw_now w) domain (ps_circuit s)\<rparr>))
         | Inr fresh \<Rightarrow> (Job_ok, writeResult checkId fresh None
                     (s\<lparr>ps_circuit := circuit_recordSuccess domain (ps_circuit s)\<rparr>)))"

definition set_throttle :: "string \<Rightarrow> throttle_key \<Rightarrow> probe_state \<Rightarrow> probe_state" where
  "set_throttle host k s = s\<lparr>ps_throttle := (ps_throttle s)(host := k)\<rparr>"

definition processSmtpProbe :: "probe_world \<Rightarrow> uuid \<Rightarrow> probe_state \<Rightarrow> job_end \<times> probe_state" where
  "processSmtpProbe w checkId s =
     (case getEmailCheckForProcessing (ps_db s) checkId of
        None \<Rightarrow> (Job_unrecoverable Row_unavailable, s)
      | Some (check, orgDeletedAt) \<Rightarrow>
          if orgDeletedAt \<noteq> None \<or> ec_expiresAt check \<le> us_of (pw_now w) then (Job_unrecoverable Row_unavailable, s)
          else
            (case parseStoredChecks (ec_checksJson check) of
               None \<Rightarrow> (Job_unrecoverable Invalid_snapshot, s)
             | Some e \<Rightarrow>
                 if \<not> pw_smtpEnabled w
                 then (Job_done Job_smtp_disabled, writeResult (ec_id check) e (Some Op_SMTP_DISABLED) s)
                 else if isOpen (pw_now w) (syn_domain (eng_syntax e)) (ps_circuit s)
                 then (Job_done Job_circuit_open, writeResult (ec_id check) e (Some Op_CIRCUIT_OPEN) s)
                 else
                   (case primaryMxHost e of
                      None \<Rightarrow> (Job_done Job_no_mx_host, writeResult (ec_id check) e None s)
                    | Some host \<Rightarrow>
                        (case throttle_acquire (pw_throttle w) (pw_now w) (pw_token w) (ps_throttle s host) of
                           (Denied delay, k) \<Rightarrow> (Job_delayed (pw_now w + delay), set_throttle host k s)
                         | (Allowed token, k) \<Rightarrow>
                             (let (outcome, s1) = run_probe w (ec_id check) (ec_emailNormalized check) e (set_throttle host k s)
                              in (Job_done outcome,
                                  set_throttle host (release_script (pw_released w) token (ps_throttle s1 host)) s1))))))"

section \<open>Lemmas\<close>

lemma writes_fields [simp]:
  "ps_throttle (writeResult i e r s) = ps_throttle s" "ps_throttle (writeUnavailable i e s) = ps_throttle s"
  "ps_circuit (writeResult i e r s) = ps_circuit s" "ps_circuit (writeUnavailable i e s) = ps_circuit s"
  "ps_db (set_throttle h k s) = ps_db s" "ps_throttle (set_throttle h k s) = (ps_throttle s)(h := k)"
  "ps_circuit (set_throttle h k s) = ps_circuit s"
  by (simp_all add: writeResult_def writeUnavailable_def set_throttle_def)

definition settled :: "database \<Rightarrow> uuid \<Rightarrow> bool" where
  "settled db i = (\<forall>c \<in> set (emailChecks db). ec_id c = i \<longrightarrow>
     (\<exists>sn. parseStoredEmailCheck (ec_checksJson c) = Some sn \<and> st_smtp_status sn = Smtp_complete))"

definition storable :: "engine_response \<Rightarrow> bool" where
  "storable e = (normalizeDomain (syn_domain (eng_syntax e)) \<notin> {''constructor'', ''__proto__''})"

lemma probe_update_readable:
  assumes "storable e"
  shows "\<exists>sn. parseStoredEmailCheck (eu_checksJson (probe_update e j r)) = Some sn \<and> st_smtp_status sn = Smtp_complete"
proof -
  have "detectTypo (syn_domain (eng_syntax e)) \<noteq> Some (Inherited k)" for k
    using detectTypo_Inherited [of "syn_domain (eng_syntax e)" k] assms by (auto simp: storable_def)
  then have "parseStoredEmailCheck (stored_json (sn\<lparr>st_typo := detectTypo (syn_domain (eng_syntax e))\<rparr>))
      = Some (sn\<lparr>st_typo := detectTypo (syn_domain (eng_syntax e))\<rparr>)" for sn :: stored_email_check
    by (intro parse_stored_json) simp
  from this [of "\<lparr>st_engine = _, st_score = _, st_disclaimer = _, st_typo = _, st_smtp_status = Smtp_complete,
      st_operational_reason = _\<rparr>"]
  show ?thesis unfolding probe_update_def Let_def by simp
qed

lemma updateEmailCheckResult_rows:
  "emailChecks (snd (updateEmailCheckResult db i u)) = map (\<lambda>c. if ec_id c = i then c\<lparr>ec_verdict := eu_verdict u,
     ec_reasonCodes := eu_reasonCodes u, ec_checksJson := eu_checksJson u, ec_cached := eu_cached u\<rparr> else c) (emailChecks db)"
  by (simp add: updateEmailCheckResult_def)

lemma update_settles:
  assumes "\<exists>sn. parseStoredEmailCheck (eu_checksJson u) = Some sn \<and> st_smtp_status sn = Smtp_complete"
  shows "settled (snd (updateEmailCheckResult db i u)) i"
  unfolding settled_def
proof (intro ballI impI)
  fix c assume "c \<in> set (emailChecks (snd (updateEmailCheckResult db i u)))" "ec_id c = i"
  then obtain d where "c = (if ec_id d = i then d\<lparr>ec_verdict := eu_verdict u, ec_reasonCodes := eu_reasonCodes u,
      ec_checksJson := eu_checksJson u, ec_cached := eu_cached u\<rparr> else d)"
    unfolding updateEmailCheckResult_rows set_map by blast
  with \<open>ec_id c = i\<close> have "ec_checksJson c = eu_checksJson u" by (cases "ec_id d = i") simp_all
  then show "\<exists>sn. parseStoredEmailCheck (ec_checksJson c) = Some sn \<and> st_smtp_status sn = Smtp_complete"
    using assms by simp
qed

lemma writes_settle:
  "storable e \<Longrightarrow> settled (ps_db (writeResult i e r s)) i" "storable e \<Longrightarrow> settled (ps_db (writeUnavailable i e s)) i"
  by (simp_all add: writeResult_def writeUnavailable_def update_settles probe_update_readable)

lemma run_probe_settles:
  assumes "run_probe w i email e s = (out, s')" "storable e" "\<And>f. pw_engine w email = Inr f \<Longrightarrow> storable f"
  shows "settled (ps_db s') i" "ps_throttle s' = ps_throttle s"
  using assms
  by (auto simp: run_probe_def Let_def writes_settle split: sum.splits engine_error.splits if_splits)

lemma getEmailCheckForProcessing_id:
  "getEmailCheckForProcessing db i = Some (c, d) \<Longrightarrow> ec_id c = i \<and> c \<in> set (emailChecks db)"
  by (auto simp: getEmailCheckForProcessing_def List.map_filter_def dest!: first_row_Some_mem split: if_splits)

lemma lease_not_mine: "tk_lease (release_script t tok k) = Some (tok, e) \<Longrightarrow> e \<le> t"
  by (auto simp: release_script_def lease_live_def split: option.splits if_splits prod.splits)


section \<open>A concrete job\<close>

definition demo_engine_response :: engine_response where
  "demo_engine_response = \<lparr>eng_email = ''a@a.uz'', eng_syntax = \<lparr>syn_valid = True, syn_username = ''a'', syn_domain = ''a.uz''\<rparr>,
     eng_mx = \<lparr>has_mx = Some True, mx_records = [''MX.a.uz.''], mx_error = []\<rparr>, disposable = False, role_account = False,
     free_provider = False, eng_smtp = None, duration_ms = 12\<rparr>"

definition demo_check_row :: email_check where
  "demo_check_row = \<lparr>ec_id = ''c-1'', ec_orgId = ''org-1'', ec_emailNormalized = ''a@a.uz'', ec_emailHash = ''h'',
     ec_verdict = Unknown, ec_reasonCodes = [SMTP_NOT_CHECKED],
     ec_checksJson = stored_json ((offline_snapshot demo_engine_response)\<lparr>st_smtp_status := Smtp_pending\<rparr>), ec_cached = False,
     ec_creditsUsed = 1, ec_createdAt = 0, ec_expiresAt = 9000000\<rparr>"

definition demo_probe_world :: probe_world where
  "demo_probe_world = \<lparr>pw_smtpEnabled = True, pw_now = 100, pw_engine = (\<lambda>_. Inl (EngineTimeoutError 30000)), pw_token = ''t'',
     pw_throttle = throttle_defaults, pw_circuit = circuit_defaults, pw_released = 30100\<rparr>"

definition demo_probe_state :: probe_state where
  "demo_probe_state = \<lparr>ps_db = (demo_db 5)\<lparr>emailChecks := [demo_check_row]\<rparr>, ps_circuit = no_circuit, ps_throttle = (\<lambda>_. no_throttle)\<rparr>"

lemma parseStoredChecks_stored: "parseStoredChecks (stored_json sn) = Some (st_engine sn)"
  by (simp add: parseStoredChecks_def stored_json_def)

lemma demo_storable: "storable demo_engine_response"
  unfolding storable_def demo_engine_response_def by code_simp

lemma demo_snapshot_engine: "st_engine (offline_snapshot r) = r"
  by (simp add: offline_snapshot_def Let_def)

lemma demo_mx_host: "primaryMxHost demo_engine_response = Some ''mx.a.uz''"
  unfolding demo_engine_response_def by code_simp

lemma demo_job_end: "fst (processSmtpProbe demo_probe_world ''c-1'' demo_probe_state) = Job_done Job_engine_failure"
  by (simp add: processSmtpProbe_def demo_probe_world_def demo_probe_state_def demo_check_row_def demo_db_def demo_org_def
      getEmailCheckForProcessing_def find_org_def List.map_filter_def first_row_def us_of_def parseStoredChecks_stored
      demo_snapshot_engine isOpen_def no_circuit_def demo_mx_host throttle_acquire_def acquire_script_def lease_live_def
      no_throttle_def no_window_def wk_live_def zremrangebyscore_def throttle_defaults_def run_probe_def Let_def)


end
