(* ===== verification/Batch_Csv.thy ===== *)
theory Batch_Csv
  imports Js_Number
begin

text \<open>
  The text codecs of \<^verbatim>\<open>apps/worker/src/batch/processor.ts\<close>: the encoded per-address result
  of the deduplication map and the CSV line writer with formula neutralisation, with a reference
  CSV reader for the round trip.
\<close>

section \<open>Encoded results\<close>

record row_result =
  rr_verdict :: string
  rr_score :: int
  rr_reasonCodes :: "string list"
  rr_suggestion :: string

definition SEP :: char where "SEP = CHR 0x00"

definition encodeResult :: "row_result \<Rightarrow> string" where
  "encodeResult r =
     js_join [SEP] [rr_verdict r, int_text (rr_score r), js_join ''|'' (rr_reasonCodes r), rr_suggestion r]"

text \<open>A score that does not parse would be \<open>NaN\<close>; it is 0 here, and never occurs on encoded
  results.\<close>

definition decodeResult :: "string \<Rightarrow> row_result" where
  "decodeResult encoded =
     (let parts = js_split SEP encoded;
          codes = js_get_index parts 2
      in \<lparr>rr_verdict = js_at parts 0 ''unknown'',
          rr_score = (case js_get_index parts 1 of None \<Rightarrow> 0 | Some s \<Rightarrow> (case js_integer s of Some n \<Rightarrow> n | None \<Rightarrow> 0)),
          rr_reasonCodes = (case codes of None \<Rightarrow> [] | Some c \<Rightarrow> if c = [] then [] else js_split CHR ''|'' c),
          rr_suggestion = js_at parts 3 []\<rparr>)"

definition MALFORMED :: row_result where
  "MALFORMED = \<lparr>rr_verdict = ''invalid'', rr_score = 0, rr_reasonCodes = [''SYNTAX_INVALID''], rr_suggestion = []\<rparr>"

section \<open>CSV lines\<close>

definition formula_start :: "char \<Rightarrow> bool" where
  "formula_start c = (c \<in> {CHR ''='', CHR ''+'', CHR ''-'', CHR ''@'', CHR 0x09, CHR 0x0D})"

definition neutralizeFormula :: "string \<Rightarrow> string" where
  "neutralizeFormula cell = (case cell of c # _ \<Rightarrow> if formula_start c then CHR 0x27 # cell else cell | [] \<Rightarrow> cell)"

definition needs_quotes :: "string \<Rightarrow> bool" where
  "needs_quotes s = list_ex (\<lambda>c. c \<in> {CHR 0x22, CHR '','', CHR 0x0A, CHR 0x0D}) s"

definition double_quotes :: "string \<Rightarrow> string" where
  "double_quotes s = concat (map (\<lambda>c. if c = CHR 0x22 then [c, c] else [c]) s)"

definition csv_quote :: "string \<Rightarrow> string" where
  "csv_quote hardened = (if needs_quotes hardened then CHR 0x22 # double_quotes hardened @ [CHR 0x22] else hardened)"

definition csv_cell :: "string \<Rightarrow> string" where
  "csv_cell cell = (let hardened = neutralizeFormula cell in csv_quote hardened)"

definition toCsvLine :: "string list \<Rightarrow> string" where
  "toCsvLine cells = js_join '','' (map csv_cell cells) @ [CHR 0x0A]"

section \<open>A reference reader\<close>

text \<open>RFC 4180: a field is bare, or quoted with doubled quotes; a comma separates fields and a
  line feed ends the record. \<open>None\<close> is a syntax error.\<close>

fun read_quoted :: "string \<Rightarrow> (string \<times> string) option" where
  "read_quoted [] = None"
| "read_quoted (c # s) =
     (if c \<noteq> CHR 0x22 then map_option (\<lambda>(v, r). (c # v, r)) (read_quoted s)
      else (case s of
              d # s' \<Rightarrow> if d = CHR 0x22 then map_option (\<lambda>(v, r). (CHR 0x22 # v, r)) (read_quoted s') else Some ([], s)
            | [] \<Rightarrow> Some ([], s)))"

fun read_bare :: "string \<Rightarrow> string \<times> string" where
  "read_bare [] = ([], [])"
| "read_bare (c # s) =
     (if c = CHR '','' \<or> c = CHR 0x0A then ([], c # s) else (let (v, r) = read_bare s in (c # v, r)))"

definition read_field :: "string \<Rightarrow> (string \<times> string) option" where
  "read_field s = (case s of c # s' \<Rightarrow> if c = CHR 0x22 then read_quoted s' else Some (read_bare s) | [] \<Rightarrow> Some ([], []))"

text \<open>The fuel bounds the number of fields; the length of the text is always enough.\<close>

fun read_record :: "nat \<Rightarrow> string \<Rightarrow> (string list \<times> string) option" where
  "read_record 0 s = None"
| "read_record (Suc n) s =
     (case read_field s of
        None \<Rightarrow> None
      | Some (v, r) \<Rightarrow>
          (case r of
             c # r' \<Rightarrow>
               if c = CHR '','' then map_option (\<lambda>(vs, rest). (v # vs, rest)) (read_record n r')
               else if c = CHR 0x0A then Some ([v], r') else None
           | [] \<Rightarrow> None))"

section \<open>Lemmas\<close>

lemma double_quotes_simps [simp]:
  "double_quotes [] = []"
  "double_quotes (c # s) = (if c = CHR 0x22 then [c, c] else [c]) @ double_quotes s"
  by (simp_all add: double_quotes_def)

lemma read_quoted_doubled:
  "r \<noteq> [] \<Longrightarrow> hd r \<noteq> CHR 0x22 \<Longrightarrow> read_quoted (double_quotes s @ CHR 0x22 # r) = Some (s, r)"
proof (induction s)
  case Nil
  then show ?case by (cases r) auto
next
  case (Cons c s)
  then show ?case by (cases "c = CHR 0x22") auto
qed

lemma read_bare_stops:
  "\<not> needs_quotes s \<Longrightarrow> r \<noteq> [] \<Longrightarrow> hd r \<in> {CHR '','', CHR 0x0A} \<Longrightarrow> read_bare (s @ r) = (s, r)"
proof (induction s)
  case Nil
  then show ?case by (cases r) auto
next
  case (Cons c s)
  then show ?case by (auto simp: needs_quotes_def)
qed

lemma read_field_quote:
  assumes "r \<noteq> []" "hd r \<in> {CHR '','', CHR 0x0A}"
  shows "read_field (csv_quote text @ r) = Some (text, r)"
proof (cases "needs_quotes text")
  case True
  then show ?thesis using read_quoted_doubled [OF assms(1)] assms(2) by (auto simp: csv_quote_def read_field_def)
next
  case False
  then have eq: "csv_quote text = text" by (simp add: csv_quote_def)
  have rb: "read_bare (text @ r) = (text, r)" using read_bare_stops [OF False assms] .
  obtain c s where cs: "text @ r = c # s" using assms(1) by (cases "text @ r") auto
  have "c \<noteq> CHR 0x22"
    using False cs assms(2) by (cases "text") (auto simp: needs_quotes_def)
  then show ?thesis using rb cs by (simp add: eq read_field_def)
qed

lemma read_record_quotes:
  "texts \<noteq> [] \<Longrightarrow> length texts \<le> n \<Longrightarrow>
     read_record n (js_join '','' (map csv_quote texts) @ CHR 0x0A # rest) = Some (texts, rest)"
proof (induction texts arbitrary: n)
  case (Cons c cs)
  obtain m where n: "n = Suc m" using Cons.prems(2) by (cases n) auto
  show ?case
  proof (cases cs)
    case Nil
    then show ?thesis using n by (simp add: read_field_quote)
  next
    case (Cons d ds)
    then have j: "js_join '','' (map csv_quote (c # cs)) @ CHR 0x0A # rest
        = csv_quote c @ (CHR '','' # js_join '','' (map csv_quote cs) @ CHR 0x0A # rest)" by simp
    have "read_record m (js_join '','' (map csv_quote cs) @ CHR 0x0A # rest) = Some (cs, rest)"
      using Cons.IH Cons Cons.prems n by simp
    then show ?thesis unfolding j n by (simp add: read_field_quote)
  qed
qed simp

lemma js_split_encoded:
  assumes "SEP \<notin> set (rr_verdict r)" "\<And>c. c \<in> set (rr_reasonCodes r) \<Longrightarrow> SEP \<notin> set c"
  shows "js_split SEP (encodeResult r) =
    rr_verdict r # int_text (rr_score r) # js_join ''|'' (rr_reasonCodes r) # js_split SEP (rr_suggestion r)"
proof -
  have i: "SEP \<notin> set (int_text (rr_score r))"
    using int_text_chars [of SEP "rr_score r"] by (auto simp: SEP_def is_digit_def char_code_def)
  have j: "SEP \<notin> set (js_join ''|'' cs)" if "\<And>c. c \<in> set cs \<Longrightarrow> SEP \<notin> set c" for cs
    using that by (induction "''|''" cs rule: js_join.induct) (auto simp: SEP_def)
  show ?thesis
    using assms(1) i j [OF assms(2)] by (simp add: encodeResult_def js_split_append)
qed

lemma decode_verdict: "SEP \<notin> set (rr_verdict r) \<Longrightarrow> rr_verdict (decodeResult (encodeResult r)) = rr_verdict r"
  by (simp add: decodeResult_def encodeResult_def js_split_append js_at_def Let_def)

section \<open>Properties\<close>

text \<open>The result kept as one string in the deduplication map decodes to what was encoded, for
  every result whose parts contain no separator and whose codes are not the single empty code.\<close>

theorem encoded_result_roundtrip:
  assumes "SEP \<notin> set (rr_verdict r)" "SEP \<notin> set (rr_suggestion r)" "rr_reasonCodes r \<noteq> [[]]"
    and "\<forall>c \<in> set (rr_reasonCodes r). SEP \<notin> set c \<and> CHR ''|'' \<notin> set c"
  shows "decodeResult (encodeResult r) = r"
proof -
  have parts: "js_split SEP (encodeResult r) =
      [rr_verdict r, int_text (rr_score r), js_join ''|'' (rr_reasonCodes r), rr_suggestion r]"
    using js_split_encoded [OF assms(1)] assms(2,4) by (simp add: js_split_single)
  have codes: "(if js_join ''|'' cs = [] then [] else js_split CHR ''|'' (js_join ''|'' cs)) = cs"
    if "cs \<noteq> [[]]" "\<forall>c \<in> set cs. CHR ''|'' \<notin> set c" for cs
  proof (cases "js_join ''|'' cs = []")
    case True
    then have "cs = []" using that(1) by (cases "(''|'', cs)" rule: js_join.cases) auto
    then show ?thesis by simp
  next
    case False
    then have "cs \<noteq> []" by auto
    then show ?thesis using False that(2) by (simp add: js_split_join)
  qed
  have c: "(if js_join ''|'' (rr_reasonCodes r) = [] then [] else js_split CHR ''|'' (js_join ''|'' (rr_reasonCodes r)))
      = rr_reasonCodes r"
    using assms(3,4) by (intro codes) auto
  have "decodeResult (encodeResult r) = \<lparr>rr_verdict = rr_verdict r, rr_score = rr_score r,
      rr_reasonCodes = (if js_join ''|'' (rr_reasonCodes r) = [] then []
        else js_split CHR ''|'' (js_join ''|'' (rr_reasonCodes r))), rr_suggestion = rr_suggestion r\<rparr>"
    unfolding decodeResult_def parts Let_def by (simp add: js_at_def js_get_index_def)
  also have "\<dots> = r" unfolding c by simp
  finally show ?thesis .
qed

theorem encoded_result_roundtrip_witness:
  "decodeResult (encodeResult \<lparr>rr_verdict = ''risky'', rr_score = 65, rr_reasonCodes = [''POSSIBLE_TYPO'', ''SMTP_NOT_CHECKED''],
     rr_suggestion = ''gmail.com''\<rparr>) = \<lparr>rr_verdict = ''risky'', rr_score = 65,
     rr_reasonCodes = [''POSSIBLE_TYPO'', ''SMTP_NOT_CHECKED''], rr_suggestion = ''gmail.com''\<rparr>"
  by (rule encoded_result_roundtrip) (simp_all add: SEP_def)

text \<open>C28: A result line is CSV that reads back, by the RFC 4180 rules, as the cells that were
  written, each with a leading apostrophe exactly when it began with a formula character; no cell
  that is read begins with one.\<close>

theorem csv_line_roundtrip:
  assumes "cells \<noteq> []"
  shows "read_record (length cells) (toCsvLine cells @ rest) = Some (map neutralizeFormula cells, rest)
    \<and> (\<forall>v \<in> set (map neutralizeFormula cells). v = [] \<or> \<not> formula_start (hd v))"
proof
  show "read_record (length cells) (toCsvLine cells @ rest) = Some (map neutralizeFormula cells, rest)"
    using read_record_quotes [of "map neutralizeFormula cells" "length cells" rest] assms
    by (simp add: toCsvLine_def csv_cell_def [abs_def] comp_def)
  show "\<forall>v \<in> set (map neutralizeFormula cells). v = [] \<or> \<not> formula_start (hd v)"
    by (auto simp: neutralizeFormula_def formula_start_def split: list.splits)
qed

theorem csv_line_roundtrip_witness:
  "read_record 3 (toCsvLine [''=1+1'', ''a,b'', [CHR 0x22]]) = Some ([[CHR 0x27] @ ''=1+1'', ''a,b'', [CHR 0x22]], [])"
  using csv_line_roundtrip [of "[''=1+1'', ''a,b'', [CHR 0x22]]" "[]"]
  by (simp add: neutralizeFormula_def formula_start_def numeral_3_eq_3)

end
