(* ===== verification/Shared_Storage.thy ===== *)
theory Shared_Storage
  imports Js_Number Db_Schema
begin

text \<open>
  \<^verbatim>\<open>packages/shared/src/s3.ts\<close>: the layout of the object keys, and the deletion and
  listing of objects over an S3 client. The S3 service is an argument: a record of the two
  requests the code sends. What its documentation promises is the predicate
  \<open>s3_documented\<close>, a named hypothesis of the theorems that need it.
\<close>

section \<open>Configuration\<close>

record s3_config =
  s3_endpoint :: string
  s3_accessKey :: string
  s3_secretKey :: string
  s3_bucket :: string

definition read_env :: "(string \<rightharpoonup> string) \<Rightarrow> string \<Rightarrow> db_error + string" where
  "read_env env name =
     (case env name of
        None \<Rightarrow> Inl (Thrown (name @ '' is required for object storage''))
      | Some v \<Rightarrow> if js_trim v = [] then Inl (Thrown (name @ '' is required for object storage'')) else Inr (js_trim v))"

definition readS3Config :: "(string \<rightharpoonup> string) \<Rightarrow> db_error + s3_config" where
  "readS3Config env =
     and_then (read_env env ''S3_ENDPOINT'') (\<lambda>endpoint.
     and_then (read_env env ''S3_ACCESS_KEY'') (\<lambda>accessKey.
     and_then (read_env env ''S3_SECRET_KEY'') (\<lambda>secretKey.
     and_then (read_env env ''S3_BUCKET'') (\<lambda>bucket.
       Inr \<lparr>s3_endpoint = endpoint, s3_accessKey = accessKey, s3_secretKey = secretKey, s3_bucket = bucket\<rparr>))))"

section \<open>Object keys\<close>

definition batchInputKey :: "uuid \<Rightarrow> uuid \<Rightarrow> string" where
  "batchInputKey orgId batchId = ''org/'' @ orgId @ ''/batches/'' @ batchId @ ''/input.csv''"

definition orgObjectPrefix :: "uuid \<Rightarrow> string" where
  "orgObjectPrefix orgId = ''org/'' @ orgId @ ''/''"

definition exportObjectKey :: "uuid \<Rightarrow> time_ms \<Rightarrow> uuid \<Rightarrow> string" where
  "exportObjectKey orgId createdAtMs i = ''org/'' @ orgId @ ''/exports/'' @ int_text createdAtMs @ ''-'' @ i @ ''.zip''"

definition statementObjectKey :: "uuid \<Rightarrow> string \<Rightarrow> string" where
  "statementObjectKey orgId month = ''org/'' @ orgId @ ''/statements/'' @ month @ ''.html''"

definition batchResultKey :: "uuid \<Rightarrow> uuid \<Rightarrow> string" where
  "batchResultKey orgId batchId = ''org/'' @ orgId @ ''/batches/'' @ batchId @ ''/result.csv''"

text \<open>The character class \<^verbatim>\<open>[0-9a-f-]\<close> of the two patterns; it contains no slash, so the
  slashes of a matching key are those of the pattern.\<close>

definition hex_dash :: "char \<Rightarrow> bool" where
  "hex_dash c = (is_digit c \<or> c \<in> set ''abcdef-'')"

definition uuid_like :: "string \<Rightarrow> bool" where
  "uuid_like s = (s \<noteq> [] \<and> list_all hex_dash s)"

definition statementKeyMonth :: "string \<Rightarrow> string option" where
  "statementKeyMonth key =
     (case js_split CHR ''/'' key of
        [a, b, c, d] \<Rightarrow>
          (let m = take 7 d
           in if a = ''org'' \<and> uuid_like b \<and> c = ''statements'' \<and> drop 7 d = ''.html''
                 \<and> list_all is_digit (take 4 m) \<and> m ! 4 = CHR ''-'' \<and> list_all is_digit (drop 5 m)
              then Some m else None)
      | _ \<Rightarrow> None)"

definition MAX_SAFE_INTEGER :: int where "MAX_SAFE_INTEGER = 2 ^ 53 - 1"

definition exportKeyCreatedAtMs :: "string \<Rightarrow> int option" where
  "exportKeyCreatedAtMs key =
     (case js_split CHR ''/'' key of
        [a, b, c, d] \<Rightarrow>
          (let ds = takeWhile is_digit d;
               rest = dropWhile is_digit d
           in if a = ''org'' \<and> uuid_like b \<and> c = ''exports'' \<and> ds \<noteq> []
                 \<and> js_startsWith rest ''-'' \<and> js_endsWith rest ''.zip''
                 \<and> uuid_like (take (length rest - 5) (drop 1 rest))
              then (if digits_value ds \<le> MAX_SAFE_INTEGER then Some (digits_value ds) else None)
              else None)
      | _ \<Rightarrow> None)"

section \<open>The S3 requests\<close>

record s3_page =
  pg_contents :: "string option list option"
  pg_isTruncated :: bool
  pg_nextContinuationToken :: "string option"

text \<open>\<open>s3_delete\<close> is \<open>DeleteObjectsCommand\<close>: the request raises, or answers with the optional
  list of per-key errors. \<open>s3_list\<close> is \<open>ListObjectsV2Command\<close> with a prefix and an optional
  continuation token.\<close>

record 's s3 =
  s3_delete :: "string list \<Rightarrow> 's \<Rightarrow> (db_error + string list option) \<times> 's"
  s3_list :: "string \<Rightarrow> string option \<Rightarrow> 's \<Rightarrow> db_error + s3_page"

definition STORAGE_DELETE_FAILED :: string where
  "STORAGE_DELETE_FAILED = ''object storage deletion incomplete''"

definition ensureDeleteSucceeded :: "string list option \<Rightarrow> db_error + unit" where
  "ensureDeleteSucceeded errors =
     (case errors of
        None \<Rightarrow> Inr ()
      | Some es \<Rightarrow> if 0 < length es then Inl (Thrown STORAGE_DELETE_FAILED) else Inr ())"

definition DELETE_BATCH_LIMIT :: nat where "DELETE_BATCH_LIMIT = 1000"

function delete_loop :: "'s s3 \<Rightarrow> string list \<Rightarrow> nat \<Rightarrow> 's \<Rightarrow> (db_error + unit) \<times> 's" where
  "delete_loop client keys start st =
     (if start < length keys
      then (let chunk = take DELETE_BATCH_LIMIT (drop start keys);
                (result, st') = s3_delete client chunk st
            in case and_then result ensureDeleteSucceeded of
                 Inl e \<Rightarrow> (Inl e, st')
               | Inr _ \<Rightarrow> delete_loop client keys (start + DELETE_BATCH_LIMIT) st')
      else (Inr (), st))"
  by pat_completeness auto
termination
  by (relation "measure (\<lambda>(_, keys, start, _). length keys - start)") (auto simp: DELETE_BATCH_LIMIT_def)

declare delete_loop.simps [simp del]

definition deleteObjects :: "'s s3 \<Rightarrow> string list \<Rightarrow> 's \<Rightarrow> (db_error + unit) \<times> 's" where
  "deleteObjects client keys st = delete_loop client keys 0 st"

definition page_keys :: "s3_page \<Rightarrow> string list" where
  "page_keys page = List.map_filter id (case pg_contents page of Some cs \<Rightarrow> cs | None \<Rightarrow> [])"

definition next_token :: "s3_page \<Rightarrow> string option" where
  "next_token page = (if pg_isTruncated page then pg_nextContinuationToken page else None)"

text \<open>The listing follows continuation tokens as long as the service hands them out; \<open>None\<close> is a
  loop that does not end.\<close>

partial_function (option) list_loop ::
  "'s s3 \<Rightarrow> string \<Rightarrow> 's \<Rightarrow> string option \<Rightarrow> string list \<Rightarrow> (db_error + string list) option" where
  "list_loop client pfx st token keys =
     (case s3_list client pfx token st of
        Inl e \<Rightarrow> Some (Inl e)
      | Inr page \<Rightarrow>
          (case next_token page of
             None \<Rightarrow> Some (Inr (keys @ page_keys page))
           | Some t \<Rightarrow> list_loop client pfx st (Some t) (keys @ page_keys page)))"

declare list_loop.simps [code]

definition listKeys :: "'s s3 \<Rightarrow> string \<Rightarrow> 's \<Rightarrow> (db_error + string list) option" where
  "listKeys client pfx st = list_loop client pfx st None []"

section \<open>What the service documents\<close>

text \<open>The answer a listing adds up to, page by page.\<close>

inductive listing :: "'s s3 \<Rightarrow> string \<Rightarrow> 's \<Rightarrow> string option \<Rightarrow> db_error + string list \<Rightarrow> bool"
  for client :: "'s s3" and pfx :: string and st :: 's where
  listing_error: "s3_list client pfx token st = Inl e \<Longrightarrow> listing client pfx st token (Inl e)"
| listing_last: "s3_list client pfx token st = Inr page \<Longrightarrow> next_token page = None
    \<Longrightarrow> listing client pfx st token (Inr (page_keys page))"
| listing_more: "s3_list client pfx token st = Inr page \<Longrightarrow> next_token page = Some t
    \<Longrightarrow> listing client pfx st (Some t) r
    \<Longrightarrow> listing client pfx st token (map_sum id (\<lambda>ks. page_keys page @ ks) r)"

text \<open>A deletion request of at most 1000 keys removes no other object, and a response without
  errors means that none of the keys is left. The pages of a listing come to an end, and
  together hold the keys with the prefix.\<close>

definition s3_documented :: "'s s3 \<Rightarrow> ('s \<Rightarrow> string set) \<Rightarrow> bool" where
  "s3_documented client objects =
     ((\<forall>ks st r st'. length ks \<le> 1000 \<longrightarrow> s3_delete client ks st = (r, st') \<longrightarrow>
         objects st - set ks \<subseteq> objects st' \<and> objects st' \<subseteq> objects st
         \<and> (r = Inr None \<or> r = Inr (Some []) \<longrightarrow> objects st' \<inter> set ks = {}))
      \<and> (\<forall>pfx st. \<exists>r. listing client pfx st None r
         \<and> (\<forall>ks. r = Inr ks \<longrightarrow> set ks = {k \<in> objects st. js_startsWith k pfx})))"

section \<open>Deletion and listing\<close>

text \<open>An error of the configuration names the variable and carries no value of the environment.\<close>

lemma readS3Config_error:
  assumes "readS3Config env = Inl e"
  shows "\<exists>name \<in> {''S3_ENDPOINT'', ''S3_ACCESS_KEY'', ''S3_SECRET_KEY'', ''S3_BUCKET''}.
    e = Thrown (name @ '' is required for object storage'') \<and> pred_option (\<lambda>v. js_trim v = []) (env name)"
proof -
  have named: "read_env env n = Inl e \<Longrightarrow> e = Thrown (n @ '' is required for object storage'') \<and> pred_option (\<lambda>v. js_trim v = []) (env n)" for n
    by (auto simp: read_env_def split: option.splits if_splits)
  from assms show ?thesis
    unfolding readS3Config_def and_then_Inl by (elim disjE exE conjE) ((drule named, simp) | simp)+
qed

lemma ensureDeleteSucceeded_Inr: "ensureDeleteSucceeded es = Inr u \<longleftrightarrow> es = None \<or> es = Some []"
  by (auto simp: ensureDeleteSucceeded_def split: option.splits if_splits)

lemma set_drop_chunk: "set (drop n xs) = set (take m (drop n xs)) \<union> set (drop (n + m) xs)"
  by (metis append_take_drop_id drop_drop add.commute set_append)

lemma delete_loop_spec:
  assumes "s3_documented client objects" "delete_loop client keys start st = (r, st')"
  shows "objects st - set (drop start keys) \<subseteq> objects st' \<and> objects st' \<subseteq> objects st
    \<and> (r = Inr () \<longrightarrow> objects st' \<inter> set (drop start keys) = {})"
  using assms
proof (induction client keys start st rule: delete_loop.induct)
  case (1 client keys start st)
  show ?case
  proof (cases "start < length keys")
    case False
    with 1(3) show ?thesis by (auto simp: delete_loop.simps)
  next
    case True
    define chunk where "chunk = take DELETE_BATCH_LIMIT (drop start keys)"
    obtain res mid where d: "s3_delete client chunk st = (res, mid)" by fastforce
    have len: "length chunk \<le> 1000" by (simp add: chunk_def DELETE_BATCH_LIMIT_def)
    have split: "set (drop start keys) = set chunk \<union> set (drop (start + DELETE_BATCH_LIMIT) keys)"
      unfolding chunk_def by (rule set_drop_chunk)
    have doc: "objects st - set chunk \<subseteq> objects mid \<and> objects mid \<subseteq> objects st
        \<and> (res = Inr None \<or> res = Inr (Some []) \<longrightarrow> objects mid \<inter> set chunk = {})"
      using 1(2) len d unfolding s3_documented_def by blast
    show ?thesis
    proof (cases "and_then res ensureDeleteSucceeded")
      case (Inl e)
      with 1(3) True d have "r = Inl e" "st' = mid"
        by (auto simp: delete_loop.simps [of client keys start] chunk_def)
      with doc split show ?thesis by auto
    next
      case (Inr u)
      then have ok: "objects mid \<inter> set chunk = {}"
        using doc by (auto simp: and_then_Inr ensureDeleteSucceeded_Inr)
      have "delete_loop client keys (start + DELETE_BATCH_LIMIT) mid = (r, st')"
        using 1(3) True d Inr by (simp add: delete_loop.simps [of client keys start] chunk_def)
      with 1(1) [OF True chunk_def d [symmetric] refl Inr 1(2)] have
        "objects mid - set (drop (start + DELETE_BATCH_LIMIT) keys) \<subseteq> objects st' \<and> objects st' \<subseteq> objects mid
         \<and> (r = Inr () \<longrightarrow> objects st' \<inter> set (drop (start + DELETE_BATCH_LIMIT) keys) = {})"
        by blast
      with doc ok split show ?thesis by blast
    qed
  qed
qed

lemma deleteObjects_spec:
  assumes "s3_documented client objects" "deleteObjects client keys st = (r, st')"
  shows "objects st - set keys \<subseteq> objects st'" "objects st' \<subseteq> objects st"
    "r = Inr () \<Longrightarrow> objects st' \<inter> set keys = {}"
  using delete_loop_spec [OF assms(1), of keys 0 st r st'] assms(2) by (auto simp: deleteObjects_def)

text \<open>Callers skip the request when there is nothing to delete.\<close>

lemma guarded_delete_spec:
  assumes "s3_documented client objects" "(if 0 < length keys then deleteObjects client keys st else (Inr (), st)) = (r, st')"
  shows "objects st - set keys \<subseteq> objects st' \<and> objects st' \<subseteq> objects st \<and> (r = Inr () \<longrightarrow> objects st' \<inter> set keys = {})"
proof (cases "keys = []")
  case True
  with assms(2) show ?thesis by simp
next
  case False
  with assms(2) have "deleteObjects client keys st = (r, st')" by simp
  from deleteObjects_spec [OF assms(1) this] show ?thesis by blast
qed

lemma list_loop_listing:
  assumes "listing client pfx st token r"
  shows "list_loop client pfx st token keys = Some (map_sum id (\<lambda>ks. keys @ ks) r)"
  using assms
proof (induction arbitrary: keys rule: listing.induct)
  case (listing_error token e)
  then show ?case by (simp add: list_loop.simps [of client pfx st token])
next
  case (listing_last token page)
  then show ?case by (simp add: list_loop.simps [of client pfx st token])
next
  case (listing_more token page t r)
  have "list_loop client pfx st token keys = list_loop client pfx st (Some t) (keys @ page_keys page)"
    using listing_more.hyps(1,2) by (subst list_loop.simps) simp
  then show ?case by (simp add: listing_more.IH sum.map_comp comp_def)
qed

text \<open>A listing ends, and lists exactly the keys with the prefix when no request raises.\<close>

lemma listKeys_spec:
  assumes "s3_documented client objects"
  obtains (raised) e where "listKeys client pfx st = Some (Inl e)"
  | (listed) ks where "listKeys client pfx st = Some (Inr ks)" "set ks = {k \<in> objects st. js_startsWith k pfx}"
proof -
  note lists = conjunct2 [OF assms [unfolded s3_documented_def], THEN spec, THEN spec, of pfx st]
  obtain r where r: "listing client pfx st None r"
    "\<forall>ks. r = Inr ks \<longrightarrow> set ks = {k \<in> objects st. js_startsWith k pfx}"
    using lists by (elim exE conjE)
  show ?thesis
  proof (cases r)
    case (Inl e)
    with list_loop_listing [OF r(1), of "[]"] show ?thesis by (intro raised) (simp add: listKeys_def)
  next
    case (Inr ks)
    with list_loop_listing [OF r(1), of "[]"] r(2) show ?thesis by (intro listed) (simp_all add: listKeys_def)
  qed
qed

section \<open>Keys\<close>

lemma uuid_like_no_slash: "uuid_like s \<Longrightarrow> CHR ''/'' \<notin> set s"
  by (auto simp: uuid_like_def list_all_iff hex_dash_def is_digit_def char_code_def)

lemma key_parts:
  assumes "CHR ''/'' \<notin> set o'" "CHR ''/'' \<notin> set i"
  shows "js_split CHR ''/'' (batchInputKey o' i) = [''org'', o', ''batches'', i, ''input.csv'']"
    "js_split CHR ''/'' (batchResultKey o' i) = [''org'', o', ''batches'', i, ''result.csv'']"
  using assms
  by (auto simp: batchInputKey_def batchResultKey_def js_split_append js_split_append [of _ "[]", simplified])

lemma batch_keys_no_export:
  assumes "uuid_like o'" "uuid_like i"
  shows "exportKeyCreatedAtMs (batchInputKey o' i) = None" "exportKeyCreatedAtMs (batchResultKey o' i) = None"
  by (simp_all add: exportKeyCreatedAtMs_def key_parts uuid_like_no_slash assms)

lemma batch_keys_inj:
  assumes "uuid_like o'" "uuid_like i" "uuid_like p" "uuid_like j"
  shows "batchInputKey o' i = batchInputKey p j \<longleftrightarrow> o' = p \<and> i = j"
    "batchResultKey o' i = batchResultKey p j \<longleftrightarrow> o' = p \<and> i = j"
    "batchInputKey o' i \<noteq> batchResultKey p j"
proof -
  note l = key_parts [OF assms(1,2) [THEN uuid_like_no_slash]]
  note r = key_parts [OF assms(3,4) [THEN uuid_like_no_slash]]
  show "batchInputKey o' i = batchInputKey p j \<longleftrightarrow> o' = p \<and> i = j"
  proof
    assume "batchInputKey o' i = batchInputKey p j"
    then have "js_split CHR ''/'' (batchInputKey o' i) = js_split CHR ''/'' (batchInputKey p j)" by (rule arg_cong)
    then show "o' = p \<and> i = j" by (simp add: l r)
  qed simp
  show "batchResultKey o' i = batchResultKey p j \<longleftrightarrow> o' = p \<and> i = j"
  proof
    assume "batchResultKey o' i = batchResultKey p j"
    then have "js_split CHR ''/'' (batchResultKey o' i) = js_split CHR ''/'' (batchResultKey p j)" by (rule arg_cong)
    then show "o' = p \<and> i = j" by (simp add: l r)
  qed simp
  have "js_split CHR ''/'' (batchInputKey o' i) \<noteq> js_split CHR ''/'' (batchResultKey p j)" by (simp add: l r)
  then show "batchInputKey o' i \<noteq> batchResultKey p j" by (rule contrapos_nn) simp
qed

lemma startsWith_append: "js_startsWith k p \<longleftrightarrow> (\<exists>s. k = p @ s)"
  by (auto simp: js_startsWith_def) (metis append_take_drop_id)

lemma slash_segment_inj:
  assumes "CHR ''/'' \<notin> set a" "CHR ''/'' \<notin> set b" "a @ CHR ''/'' # s = b @ CHR ''/'' # t"
  shows "a = b"
  using arg_cong [OF assms(3), of "js_split CHR ''/''"] by (simp add: js_split_append assms(1,2))

text \<open>The objects of a batch lie under the prefix of its organisation and under no other.\<close>

lemma batch_key_prefix:
  assumes "uuid_like o'" "uuid_like p"
  shows "js_startsWith (batchInputKey o' i) (orgObjectPrefix p) \<longleftrightarrow> p = o'"
    "js_startsWith (batchResultKey o' i) (orgObjectPrefix p) \<longleftrightarrow> p = o'"
  using slash_segment_inj [OF assms [THEN uuid_like_no_slash]]
  by (auto simp: startsWith_append batchInputKey_def batchResultKey_def orgObjectPrefix_def)

lemma takeWhile_digits_text:
  assumes "0 \<le> n"
  shows "takeWhile is_digit (int_text n @ CHR ''-'' # s) = int_text n"
    "dropWhile is_digit (int_text n @ CHR ''-'' # s) = CHR ''-'' # s"
  using assms nat_text_digits [of "nat n"]
  by (simp_all add: int_text_def is_digit_def char_code_def)

lemma export_key_roundtrip:
  assumes "uuid_like o'" "uuid_like i" "0 \<le> ms"
  shows "exportKeyCreatedAtMs (exportObjectKey o' ms i) = (if ms \<le> MAX_SAFE_INTEGER then Some ms else None)"
proof -
  have no_slash: "CHR ''/'' \<notin> set (int_text ms)"
    using int_text_chars [of "CHR ''/''" ms] by (auto simp: is_digit_def char_code_def)
  have last: "js_split CHR ''/'' (int_text ms @ CHR ''-'' # i @ ''.zip'') = [int_text ms @ CHR ''-'' # i @ ''.zip'']"
    using no_slash uuid_like_no_slash [OF assms(2)] by (intro js_split_single) auto
  have split: "js_split CHR ''/'' (exportObjectKey o' ms i) =
      [''org'', o', ''exports'', int_text ms @ CHR ''-'' # i @ ''.zip'']"
    by (simp add: exportObjectKey_def js_split_append js_split_append [of _ "[]", simplified]
        uuid_like_no_slash [OF assms(1)] last)
  have "digits_value (int_text ms) = ms" using assms(3) by (simp add: int_text_def)
  with assms(1,2) show ?thesis
    by (simp add: exportKeyCreatedAtMs_def split takeWhile_digits_text [OF assms(3)] js_startsWith_def js_endsWith_def)
qed

section \<open>A service in memory\<close>

text \<open>A bucket as a list of keys, listed in pages of two, whose continuation token is as long as the
  number of keys already listed. It behaves as documented.\<close>

definition memory_list :: "string \<Rightarrow> string option \<Rightarrow> string list \<Rightarrow> db_error + s3_page" where
  "memory_list pfx token bucket =
     (let given = (case token of Some t \<Rightarrow> length t | None \<Rightarrow> 0);
          rest = drop given (filter (\<lambda>k. js_startsWith k pfx) bucket)
      in Inr \<lparr>pg_contents = Some (map Some (take 2 rest)), pg_isTruncated = (2 < length rest),
              pg_nextContinuationToken = Some (replicate (given + 2) CHR ''.'')\<rparr>)"

definition memory_s3 :: "string list s3" where
  "memory_s3 = \<lparr>s3_delete = (\<lambda>ks bucket. (Inr None, filter (\<lambda>k. k \<notin> set ks) bucket)), s3_list = memory_list\<rparr>"

lemma map_filter_map_Some [simp]: "List.map_filter id (map Some xs) = xs"
  by (induction xs) (simp_all add: map_filter_simps)

lemma memory_page:
  "\<exists>page. s3_list memory_s3 pfx token bucket = Inr page
     \<and> page_keys page = take 2 (drop (case token of Some t \<Rightarrow> length t | None \<Rightarrow> 0) (filter (\<lambda>k. js_startsWith k pfx) bucket))
     \<and> next_token page = (if 2 < length (filter (\<lambda>k. js_startsWith k pfx) bucket) - (case token of Some t \<Rightarrow> length t | None \<Rightarrow> 0)
         then Some (replicate ((case token of Some t \<Rightarrow> length t | None \<Rightarrow> 0) + 2) CHR ''.'') else None)"
  by (simp add: memory_s3_def memory_list_def Let_def page_keys_def next_token_def)

lemma memory_listing:
  "listing memory_s3 pfx bucket token
     (Inr (drop (case token of Some t \<Rightarrow> length t | None \<Rightarrow> 0) (filter (\<lambda>k. js_startsWith k pfx) bucket)))"
proof (induction "length (filter (\<lambda>k. js_startsWith k pfx) bucket) - (case token of Some t \<Rightarrow> length t | None \<Rightarrow> 0)"
    arbitrary: token rule: less_induct)
  case less
  let ?all = "filter (\<lambda>k. js_startsWith k pfx) bucket"
  let ?given = "case token of Some t \<Rightarrow> length t | None \<Rightarrow> 0"
  obtain page where p: "s3_list memory_s3 pfx token bucket = Inr page"
    "page_keys page = take 2 (drop ?given ?all)"
    "next_token page = (if 2 < length ?all - ?given then Some (replicate (?given + 2) CHR ''.'') else None)"
    using memory_page by blast
  show ?case
  proof (cases "2 < length ?all - ?given")
    case True
    let ?t = "Some (replicate (?given + 2) CHR ''.'')"
    have "listing memory_s3 pfx bucket ?t (Inr (drop (?given + 2) ?all))"
      using less.hyps [of ?t] True by simp
    from listing_more [OF p(1) _ this] True p(3)
    have "listing memory_s3 pfx bucket token (Inr (take 2 (drop ?given ?all) @ drop (?given + 2) ?all))"
      by (simp add: p(2))
    moreover have "take 2 (drop ?given ?all) @ drop (?given + 2) ?all = drop ?given ?all"
      by (metis append_take_drop_id drop_drop add.commute)
    ultimately show ?thesis by simp
  next
    case False
    then have "page_keys page = drop ?given ?all" by (simp add: p(2))
    with listing_last [OF p(1)] False p(3) show ?thesis by simp
  qed
qed

lemma memory_documented: "s3_documented memory_s3 set"
proof -
  have "\<exists>r. listing memory_s3 pfx bucket None r \<and> (\<forall>ks. r = Inr ks \<longrightarrow> set ks = {k \<in> set bucket. js_startsWith k pfx})"
    for pfx bucket
    by (intro exI conjI, rule memory_listing) simp
  then show ?thesis by (auto simp: s3_documented_def memory_s3_def)
qed

end
