(* ===== verification/Worker_Batch.thy ===== *)
theory Worker_Batch
  imports Batch_Csv Core_Email Db_Batches Shared_Engine Shared_Storage
begin

text \<open>
  \<^verbatim>\<open>apps/worker/src/batch/processor.ts\<close>: the batch CSV processor. The CSV parser is an
  argument: the records it yields, and whether it then throws. The engine, the object storage and
  the clock are arguments too; generated ids come from \<open>bw_uuid\<close>, one per inserted row. Scores in
  the table were written by \<open>aggregate\<close> and are whole numbers.
\<close>

section \<open>Names\<close>

fun verdict_text :: "verdict \<Rightarrow> string" where
  "verdict_text Valid = ''valid''" | "verdict_text Invalid = ''invalid''"
| "verdict_text Risky = ''risky''" | "verdict_text Unknown = ''unknown''"

fun reason_text :: "reason_code \<Rightarrow> string" where
  "reason_text SYNTAX_INVALID = ''SYNTAX_INVALID''"
| "reason_text DOMAIN_NO_MX = ''DOMAIN_NO_MX''"
| "reason_text MX_LOOKUP_UNAVAILABLE = ''MX_LOOKUP_UNAVAILABLE''"
| "reason_text CATCH_ALL_DOMAIN = ''CATCH_ALL_DOMAIN''"
| "reason_text SMTP_UNAVAILABLE = ''SMTP_UNAVAILABLE''"
| "reason_text MAILBOX_REJECTED = ''MAILBOX_REJECTED''"
| "reason_text MAILBOX_FULL = ''MAILBOX_FULL''"
| "reason_text MAILBOX_DISABLED = ''MAILBOX_DISABLED''"
| "reason_text DISPOSABLE_DOMAIN = ''DISPOSABLE_DOMAIN''"
| "reason_text ROLE_ACCOUNT = ''ROLE_ACCOUNT''"
| "reason_text POSSIBLE_TYPO = ''POSSIBLE_TYPO''"
| "reason_text SMTP_NOT_CHECKED = ''SMTP_NOT_CHECKED''"
| "reason_text SMTP_DISABLED = ''SMTP_DISABLED''"
| "reason_text CIRCUIT_OPEN = ''CIRCUIT_OPEN''"
| "reason_text PHONE_OK = ''PHONE_OK''"
| "reason_text PHONE_INVALID_FORMAT = ''PHONE_INVALID_FORMAT''"
| "reason_text PHONE_TOO_SHORT = ''PHONE_TOO_SHORT''"
| "reason_text PHONE_TOO_LONG = ''PHONE_TOO_LONG''"
| "reason_text PHONE_UNKNOWN_COUNTRY = ''PHONE_UNKNOWN_COUNTRY''"

section \<open>State\<close>

record batch_layout =
  emailColumn :: nat
  hasHeader :: bool

record batch_stats =
  malformed_rows :: nat
  bs_charged :: nat
  bs_cached :: nat
  duplicates :: nat
  engine_errors :: nat
  distribution :: "string \<Rightarrow> nat"

record pending_row =
  pr_cells :: "string list"
  pr_normalized :: string
  pr_hash :: string

record batch_world =
  bw_sha256Hex :: "string \<Rightarrow> string"
  bw_engine :: "string \<Rightarrow> engine_error + engine_response"
  bw_chunkSize :: nat
  bw_progressEvery :: nat
  bw_now :: time_ms
  bw_dbnow :: time_us
  bw_uuid :: "nat \<Rightarrow> uuid"
  bw_tx :: tx_env
  bw_upload_ok :: bool

record batch_run =
  br_db :: database
  br_seen :: "string \<rightharpoonup> string"   \<comment> \<open>normalized address to encoded result\<close>
  br_stats :: batch_stats
  br_processed :: nat
  br_lines :: "string list"       \<comment> \<open>what was written to the result stream\<close>
  br_inserted :: nat

section \<open>One chunk\<close>

definition typo_text :: "prop_value option \<Rightarrow> string" where
  "typo_text t = (case t of Some v \<Rightarrow> prop_text v | None \<Rightarrow> [])"

definition writeRow :: "string list \<Rightarrow> string \<Rightarrow> row_result \<Rightarrow> batch_run \<Rightarrow> batch_run" where
  "writeRow cells normalizedEmail r s =
     s\<lparr>br_lines := br_lines s @ [toCsvLine (cells @ [normalizedEmail, rr_verdict r, int_text (rr_score r),
        js_join ''|'' (rr_reasonCodes r), rr_suggestion r])]\<rparr>"

fun unique_by_hash :: "string list \<Rightarrow> pending_row list \<Rightarrow> pending_row list" where
  "unique_by_hash hs [] = []"
| "unique_by_hash hs (r # rs) =
     (if pr_hash r \<in> set hs then unique_by_hash hs rs else r # unique_by_hash (pr_hash r # hs) rs)"

definition cached_result :: "email_check \<Rightarrow> row_result" where
  "cached_result c =
     (let snapshot = parseStoredEmailCheck (ec_checksJson c)
      in \<lparr>rr_verdict = verdict_text (ec_verdict c),
          rr_score = (case snapshot of Some sn \<Rightarrow> \<lfloor>st_score sn\<rfloor> | None \<Rightarrow> 0),
          rr_reasonCodes = map reason_text (ec_reasonCodes c),
          rr_suggestion = (case snapshot of Some sn \<Rightarrow> typo_text (st_typo sn) | None \<Rightarrow> [])\<rparr>)"

definition ENGINE_ERROR_RESULT :: row_result where
  "ENGINE_ERROR_RESULT = \<lparr>rr_verdict = ''unknown'', rr_score = 50, rr_reasonCodes = [''MX_LOOKUP_UNAVAILABLE''], rr_suggestion = []\<rparr>"

definition fresh_result :: "engine_response \<Rightarrow> row_result" where
  "fresh_result e =
     (let typo = detectTypo (syn_domain (eng_syntax e));
          aggregated = aggregate \<lparr>engine = e, typo = typo, operationalReason = None\<rparr>
      in \<lparr>rr_verdict = verdict_text (agg_verdict aggregated), rr_score = score aggregated,
          rr_reasonCodes = map reason_text (reasonCodes aggregated), rr_suggestion = typo_text typo\<rparr>)"

definition fresh_insert :: "uuid \<Rightarrow> pending_row \<Rightarrow> engine_response \<Rightarrow> time_ms \<Rightarrow> batch_check_row" where
  "fresh_insert orgId row e expiresAt =
     (let typo = detectTypo (syn_domain (eng_syntax e));
          aggregated = aggregate \<lparr>engine = e, typo = typo, operationalReason = None\<rparr>
      in \<lparr>bc_orgId = orgId, bc_emailNormalized = pr_normalized row, bc_emailHash = pr_hash row,
          bc_verdict = agg_verdict aggregated, bc_reasonCodes = reasonCodes aggregated,
          bc_checksJson = stored_json \<lparr>st_engine = e, st_score = of_int (score aggregated),
            st_disclaimer = disclaimer aggregated, st_typo = typo, st_smtp_status = Smtp_skipped,
            st_operational_reason = None\<rparr>,
          bc_expiresAt = expiresAt\<rparr>)"

text \<open>The loop over the unique addresses: the cache first, then the engine. It accumulates the
  deduplication map, the counters and the rows to insert.\<close>

type_synonym chunk_acc = "(string \<rightharpoonup> string) \<times> batch_stats \<times> batch_check_row list"

definition resolve_one ::
  "batch_world \<Rightarrow> uuid \<Rightarrow> time_ms \<Rightarrow> (string \<rightharpoonup> email_check) \<Rightarrow> pending_row \<Rightarrow> chunk_acc \<Rightarrow> chunk_acc" where
  "resolve_one w orgId expiresAt cachedRows row acc =
     (let (seen, stats, inserts) = acc
      in case cachedRows (pr_hash row) of
           Some c \<Rightarrow> (seen(pr_normalized row \<mapsto> encodeResult (cached_result c)),
                      stats\<lparr>bs_cached := bs_cached stats + 1\<rparr>, inserts)
         | None \<Rightarrow>
             (case bw_engine w (pr_normalized row) of
                Inl _ \<Rightarrow> (seen(pr_normalized row \<mapsto> encodeResult ENGINE_ERROR_RESULT),
                          stats\<lparr>engine_errors := engine_errors stats + 1\<rparr>, inserts)
              | Inr e \<Rightarrow> (seen(pr_normalized row \<mapsto> encodeResult (fresh_result e)),
                          stats\<lparr>bs_charged := bs_charged stats + 1\<rparr>,
                          inserts @ [fresh_insert orgId row e expiresAt])))"

fun resolve_unique ::
  "batch_world \<Rightarrow> uuid \<Rightarrow> time_ms \<Rightarrow> (string \<rightharpoonup> email_check) \<Rightarrow> pending_row list \<Rightarrow> chunk_acc \<Rightarrow> chunk_acc" where
  "resolve_unique w orgId expiresAt cachedRows [] acc = acc"
| "resolve_unique w orgId expiresAt cachedRows (row # rows) acc =
     resolve_unique w orgId expiresAt cachedRows rows (resolve_one w orgId expiresAt cachedRows row acc)"

definition count_verdict :: "string \<Rightarrow> batch_stats \<Rightarrow> batch_stats" where
  "count_verdict v st = st\<lparr>distribution := (distribution st)(v := distribution st v + 1)\<rparr>"

text \<open>Every statement commits on its own: an error carries the database at the moment of the
  throw, \<open>None\<close> standing for one that the database did not raise.\<close>

type_synonym batch_error = "db_error option \<times> database"

definition raised_at :: "database \<Rightarrow> db_error + 'a \<Rightarrow> batch_error + 'a" where
  "raised_at d m = map_sum (\<lambda>e. (Some e, d)) id m"

text \<open>The loop that writes the rows of a chunk in their order.\<close>

fun write_rows :: "batch_world \<Rightarrow> uuid \<Rightarrow> pending_row list \<Rightarrow> batch_run \<Rightarrow> batch_error + batch_run" where
  "write_rows w batchId [] s = Inr s"
| "write_rows w batchId (row # rows) s =
     (case br_seen s (pr_normalized row) of
        None \<Rightarrow> write_rows w batchId rows s
      | Some encoded \<Rightarrow>
          (let r = decodeResult encoded;
               s1 = writeRow (pr_cells row) (pr_normalized row) r s;
               s2 = s1\<lparr>br_stats := count_verdict (rr_verdict r) (br_stats s1), br_processed := br_processed s1 + 1\<rparr>
           in if br_processed s2 mod bw_progressEvery w = 0
              then and_then (raised_at (br_db s2) (updateBatchProgress (br_db s2) batchId (int (br_processed s2))))
                     (\<lambda>db'. write_rows w batchId rows (s2\<lparr>br_db := db'\<rparr>))
              else write_rows w batchId rows s2))"

definition resolveChunk :: "batch_world \<Rightarrow> batch \<Rightarrow> time_ms \<Rightarrow> pending_row list \<Rightarrow> batch_run \<Rightarrow> batch_error + batch_run" where
  "resolveChunk w batch expiresAt rows s =
     (let unresolved = filter (\<lambda>r. br_seen s (pr_normalized r) = None) rows;
          uniques = unique_by_hash [] unresolved
      in and_then
           (if uniques = [] then Inr s
            else
              (let cachedRows = findRecentEmailChecksByHashes (br_db s) (b_orgId batch) (map pr_hash uniques) (bw_now w);
                   (seen, stats, inserts) =
                     resolve_unique w (b_orgId batch) expiresAt cachedRows uniques (br_seen s, br_stats s, []);
                   ids = map (bw_uuid w) [br_inserted s ..< br_inserted s + length inserts]
               in and_then (raised_at (br_db s) (insertBatchEmailChecks (bw_dbnow w) ids (br_db s) inserts))
                    (\<lambda>db'. Inr (s\<lparr>br_db := db', br_seen := seen, br_stats := stats,
                                 br_inserted := br_inserted s + length inserts\<rparr>))))
           (\<lambda>s1. write_rows w (b_id batch) rows s1))"

section \<open>The file\<close>

definition normalized_cell :: "batch_layout \<Rightarrow> string list \<Rightarrow> string" where
  "normalized_cell layout rec =
     (case normalized (normalizeEmail (js_at rec (emailColumn layout) [])) of Some n \<Rightarrow> n | None \<Rightarrow> [])"

fun record_loop ::
  "batch_world \<Rightarrow> batch \<Rightarrow> batch_layout \<Rightarrow> time_ms \<Rightarrow> string list list \<Rightarrow> pending_row list \<Rightarrow> batch_run
     \<Rightarrow> batch_error + pending_row list \<times> batch_run" where
  "record_loop w batch layout expiresAt [] chunk s = Inr (chunk, s)"
| "record_loop w batch layout expiresAt (rec # recs) chunk s =
     (let n = normalized_cell layout rec
      in if n = []
         then (let s1 = writeRow rec [] MALFORMED s;
                   st = br_stats s1
               in record_loop w batch layout expiresAt recs chunk
                    (s1\<lparr>br_stats := count_verdict ''invalid'' (st\<lparr>malformed_rows := malformed_rows st + 1\<rparr>),
                        br_processed := br_processed s1 + 1\<rparr>))
         else (let st = br_stats s;
                   s1 = (if br_seen s n \<noteq> None then s\<lparr>br_stats := st\<lparr>duplicates := duplicates st + 1\<rparr>\<rparr> else s);
                   chunk' = chunk @ [\<lparr>pr_cells = rec, pr_normalized = n, pr_hash = bw_sha256Hex w n\<rparr>]
               in if bw_chunkSize w \<le> length chunk'
                  then and_then (resolveChunk w batch expiresAt chunk' s1)
                         (\<lambda>s2. record_loop w batch layout expiresAt recs [] s2)
                  else record_loop w batch layout expiresAt recs chunk' s1))"

definition header_line :: "string list \<Rightarrow> string" where
  "header_line rec = toCsvLine (rec @ [''normalized_email'', ''verdict'', ''score'', ''reason_codes'', ''suggestion''])"

text \<open>The header, all records, and the last chunk. The parser throws after its records when
  \<open>throws\<close> is set, and the pending chunk is lost.\<close>

definition data_records :: "batch_layout \<Rightarrow> string list list \<Rightarrow> string list list" where
  "data_records layout recs = (if hasHeader layout then drop 1 recs else recs)"

definition process_records ::
  "batch_world \<Rightarrow> batch \<Rightarrow> batch_layout \<Rightarrow> time_ms \<Rightarrow> string list list \<Rightarrow> bool \<Rightarrow> batch_run \<Rightarrow> batch_error + batch_run" where
  "process_records w batch layout expiresAt recs throws s =
     (let s1 = (case recs of
                  first # _ \<Rightarrow> if hasHeader layout then s\<lparr>br_lines := br_lines s @ [header_line first]\<rparr> else s
                | [] \<Rightarrow> s)
      in and_then (record_loop w batch layout expiresAt (data_records layout recs) [] s1)
           (\<lambda>(chunk, s2). if throws then Inl (None, br_db s2)
                          else if 0 < length chunk then resolveChunk w batch expiresAt chunk s2 else Inr s2))"

definition readLayout :: "json \<Rightarrow> batch_layout option" where
  "readLayout stats =
     (case stats of
        JObj kvs \<Rightarrow>
          (case (map_of kvs ''email_column'', map_of kvs ''has_header'') of
             (Some (JNum c), Some (JBool h)) \<Rightarrow>
               if of_int \<lfloor>c\<rfloor> = c \<and> 0 \<le> c then Some \<lparr>emailColumn = nat \<lfloor>c\<rfloor>, hasHeader = h\<rparr> else None
           | _ \<Rightarrow> None)
      | _ \<Rightarrow> None)"

definition stats_json :: "batch_layout \<Rightarrow> batch_stats \<Rightarrow> json" where
  "stats_json layout st = JObj [
     (''email_column'', JNum (of_nat (emailColumn layout))), (''has_header'', JBool (hasHeader layout)),
     (''malformed_rows'', JNum (of_nat (malformed_rows st))), (''charged'', JNum (of_nat (bs_charged st))),
     (''cached'', JNum (of_nat (bs_cached st))), (''duplicates'', JNum (of_nat (duplicates st))),
     (''engine_errors'', JNum (of_nat (engine_errors st))),
     (''distribution'', JObj (map (\<lambda>v. (v, JNum (of_nat (distribution st v)))) [''valid'', ''invalid'', ''risky'', ''unknown'']))]"

definition no_stats :: batch_stats where
  "no_stats = \<lparr>malformed_rows = 0, bs_charged = 0, bs_cached = 0, duplicates = 0, engine_errors = 0, distribution = (\<lambda>_. 0)\<rparr>"

datatype batch_outcome = B_not_claimable | B_org_unavailable | B_invalid_layout | B_done batch_run | B_failed

text \<open>The whole job up to its webhook event.\<close>

definition processBatch ::
  "batch_world \<Rightarrow> uuid \<Rightarrow> string list list \<Rightarrow> bool \<Rightarrow> database \<Rightarrow> db_error + batch_outcome \<times> database" where
  "processBatch w batchId recs throws db =
     (let (claim, db1) = claimBatchForProcessing db batchId
      in case claim of
           NotClaimable \<Rightarrow> Inr (B_not_claimable, db1)
         | ClaimOrgUnavailable batch \<Rightarrow>
             and_then (failBatch (bw_tx w) db1 (b_id batch) (b_orgId batch) (b_totalRows batch) ''org_unavailable'')
               (\<lambda>db2. Inr (B_org_unavailable, db2))
         | Claimed batch retentionDays \<Rightarrow>
             (case readLayout (b_stats batch) of
                None \<Rightarrow>
                  and_then (failBatch (bw_tx w) db1 (b_id batch) (b_orgId batch) (b_totalRows batch) ''invalid_layout'')
                    (\<lambda>db2. Inr (B_invalid_layout, db2))
              | Some layout \<Rightarrow>
                  (let expiresAt = bw_now w + retentionDays * 24 * 60 * 60 * 1000;
                       start = \<lparr>br_db = db1, br_seen = Map.empty, br_stats = no_stats, br_processed = 0,
                                br_lines = [], br_inserted = 0\<rparr>;
                       fail = (\<lambda>d. and_then (failBatch (bw_tx w) d (b_id batch) (b_orgId batch) (b_totalRows batch)
                                ''processing_failed'') (\<lambda>db2. Inr (B_failed, db2)))
                   in case process_records w batch layout expiresAt recs throws start of
                        Inl (_, d) \<Rightarrow> fail d
                      | Inr s \<Rightarrow>
                          if \<not> bw_upload_ok w then fail (br_db s)
                          else (case completeBatch (bw_tx w) (br_db s)
                                  \<lparr>co_batchId = b_id batch, co_orgId = b_orgId batch,
                                   co_resultObjectKey = batchResultKey (b_orgId batch) (b_id batch),
                                   co_processedRows = int (br_processed s), co_stats = stats_json layout (br_stats s),
                                   co_chargedCredits = int (bs_charged (br_stats s)),
                                   co_reservedCredits = b_totalRows batch, co_retentionDays = retentionDays\<rparr>
                                  (bw_now w) of
                                  Inl e \<Rightarrow> fail (br_db s)
                                | Inr db2 \<Rightarrow> Inr (B_done s, db2)))))"

section \<open>Lemmas: one chunk\<close>

definition VERDICTS :: "string list" where "VERDICTS = [''valid'', ''invalid'', ''risky'', ''unknown'']"

definition counted :: "batch_stats \<Rightarrow> nat" where "counted st = sum_list (map (distribution st) VERDICTS)"

definition resolved :: "batch_stats \<Rightarrow> nat" where "resolved st = bs_charged st + bs_cached st + engine_errors st"

definition seen_ok :: "(string \<rightharpoonup> string) \<Rightarrow> bool" where
  "seen_ok seen = (\<forall>n enc. seen n = Some enc \<longrightarrow> rr_verdict (decodeResult enc) \<in> set VERDICTS)"

lemma verdict_text_known [simp]: "verdict_text v \<in> set VERDICTS"
  by (cases v) (simp_all add: VERDICTS_def)

lemma known_no_sep: "v \<in> set VERDICTS \<Longrightarrow> SEP \<notin> set v"
  by (auto simp: VERDICTS_def SEP_def)

lemma results_known [simp]:
  "rr_verdict (cached_result c) \<in> set VERDICTS" "rr_verdict ENGINE_ERROR_RESULT \<in> set VERDICTS"
  "rr_verdict (fresh_result e) \<in> set VERDICTS"
  by (simp_all add: cached_result_def fresh_result_def Let_def) (simp add: ENGINE_ERROR_RESULT_def VERDICTS_def)

lemma seen_ok_update:
  "seen_ok seen \<Longrightarrow> rr_verdict r \<in> set VERDICTS \<Longrightarrow> seen_ok (seen(n \<mapsto> encodeResult r))"
  using decode_verdict [OF known_no_sep, of r] by (auto simp: seen_ok_def)

lemma counted_known: "v \<in> set VERDICTS \<Longrightarrow> counted (count_verdict v st) = counted st + 1"
  by (auto simp: counted_def count_verdict_def VERDICTS_def)

lemma count_verdict_fields [simp]:
  "resolved (count_verdict v st) = resolved st" "malformed_rows (count_verdict v st) = malformed_rows st"
  "bs_charged (count_verdict v st) = bs_charged st" "duplicates (count_verdict v st) = duplicates st"
  by (simp_all add: resolved_def count_verdict_def)

lemma resolved_malformed [simp]: "resolved (st\<lparr>malformed_rows := n\<rparr>) = resolved st"
  by (simp add: resolved_def)

lemma resolve_one_inv:
  assumes "resolve_one w o' x cr row (seen, st, ins) = (seen', st', ins')" "seen_ok seen"
  shows "dom seen' = insert (pr_normalized row) (dom seen) \<and> seen_ok seen' \<and> resolved st' = resolved st + 1
    \<and> counted st' = counted st \<and> malformed_rows st' = malformed_rows st"
  using assms
  by (auto simp: resolve_one_def seen_ok_update resolved_def counted_def split: option.splits sum.splits)

lemma resolve_unique_inv:
  assumes "resolve_unique w o' x cr rows (seen, st, ins) = (seen', st', ins')" "seen_ok seen"
  shows "dom seen' = dom seen \<union> pr_normalized ` set rows \<and> seen_ok seen' \<and> resolved st' = resolved st + length rows
    \<and> counted st' = counted st \<and> malformed_rows st' = malformed_rows st"
  using assms
proof (induction rows arbitrary: seen st ins)
  case (Cons row rows)
  obtain seen1 st1 ins1 where one: "resolve_one w o' x cr row (seen, st, ins) = (seen1, st1, ins1)"
    by (metis prod_cases3)
  note o = resolve_one_inv [OF one Cons.prems(2)]
  have "resolve_unique w o' x cr rows (seen1, st1, ins1) = (seen', st', ins')" using Cons.prems(1) one by simp
  from Cons.IH [OF this] o show ?case by auto
qed simp

lemma unique_by_hash_inv:
  assumes "\<And>r. r \<in> set rows \<Longrightarrow> pr_hash r = sha (pr_normalized r)" "inj_on sha (pr_normalized ` set rows)"
  shows "pr_normalized ` set (unique_by_hash hs rows) = {n \<in> pr_normalized ` set rows. sha n \<notin> set hs}
    \<and> distinct (map pr_normalized (unique_by_hash hs rows))"
  using assms
proof (induction rows arbitrary: hs)
  case (Cons r rows)
  have h: "pr_hash r = sha (pr_normalized r)" using Cons.prems(1) by simp
  have inj: "inj_on sha (pr_normalized ` set rows)" using Cons.prems(2) by (auto intro: inj_on_subset)
  have same: "sha n = sha (pr_normalized r) \<longleftrightarrow> n = pr_normalized r" if "n \<in> pr_normalized ` set rows" for n
    using inj_on_eq_iff [OF Cons.prems(2), of n "pr_normalized r"] that by simp
  note IH = Cons.IH [OF Cons.prems(1) inj]
  show ?case
  proof (cases "pr_hash r \<in> set hs")
    case True
    then show ?thesis using IH [of hs] h by auto
  next
    case False
    let ?N = "pr_normalized ` set rows"
    have eq: "{n \<in> ?N. sha n \<notin> set (pr_hash r # hs)} = {n \<in> ?N. n \<noteq> pr_normalized r \<and> sha n \<notin> set hs}"
      using same h by fastforce
    have "unique_by_hash hs (r # rows) = r # unique_by_hash (pr_hash r # hs) rows" using False by simp
    then show ?thesis using IH [of "pr_hash r # hs"] False h unfolding eq by auto
  qed
qed simp

lemma updateBatchProgress_ledger:
  "updateBatchProgress db i n = Inr db' \<Longrightarrow> creditLedger db' = creditLedger db"
  by (auto simp: updateBatchProgress_def and_then_Inr)

lemma raised_at_Inr: "raised_at d m = Inr x \<longleftrightarrow> m = Inr x"
  by (cases m) (simp_all add: raised_at_def)

lemma writeRow_fields [simp]:
  "br_seen (writeRow c n r s) = br_seen s" "br_stats (writeRow c n r s) = br_stats s" "br_db (writeRow c n r s) = br_db s"
  "br_processed (writeRow c n r s) = br_processed s" "length (br_lines (writeRow c n r s)) = length (br_lines s) + 1"
  by (simp_all add: writeRow_def)

lemma write_rows_inv:
  assumes "write_rows w i rows s = Inr s'" "pr_normalized ` set rows \<subseteq> dom (br_seen s)" "seen_ok (br_seen s)"
  shows "br_seen s' = br_seen s \<and> creditLedger (br_db s') = creditLedger (br_db s)
    \<and> br_processed s' = br_processed s + length rows \<and> length (br_lines s') = length (br_lines s) + length rows
    \<and> counted (br_stats s') = counted (br_stats s) + length rows \<and> resolved (br_stats s') = resolved (br_stats s)
    \<and> malformed_rows (br_stats s') = malformed_rows (br_stats s)"
  using assms
proof (induction rows arbitrary: s)
  case (Cons row rows)
  obtain enc where enc: "br_seen s (pr_normalized row) = Some enc" using Cons.prems(2) by auto
  let ?r = "decodeResult enc"
  have v: "rr_verdict ?r \<in> set VERDICTS" using Cons.prems(3) enc by (auto simp: seen_ok_def)
  define s2 where "s2 = (writeRow (pr_cells row) (pr_normalized row) ?r s)\<lparr>br_stats := count_verdict (rr_verdict ?r) (br_stats s),
    br_processed := br_processed s + 1\<rparr>"
  obtain d where d: "creditLedger d = creditLedger (br_db s)" "write_rows w i rows (s2\<lparr>br_db := d\<rparr>) = Inr s'"
  proof (cases "br_processed s2 mod bw_progressEvery w = 0")
    case True
    then show ?thesis
      using Cons.prems(1) enc that
      by (auto simp: s2_def Let_def and_then_Inr raised_at_Inr dest!: updateBatchProgress_ledger)
  next
    case False
    have eq: "s2\<lparr>br_db := br_db s\<rparr> = s2" by (simp add: s2_def)
    have "write_rows w i rows s2 = Inr s'" using Cons.prems(1) enc False by (auto simp: s2_def Let_def)
    then show ?thesis using that [of "br_db s"] eq by simp
  qed
  show ?case
    using Cons.IH [OF d(2)] Cons.prems(2,3) d(1) counted_known [OF v] by (simp add: s2_def)
qed simp


section \<open>Lemmas: the file\<close>

text \<open>\<open>W\<close> lists the well-formed addresses written so far and \<open>h\<close> counts header lines.\<close>

definition run_inv :: "nat \<Rightarrow> string list \<Rightarrow> batch_run \<Rightarrow> bool" where
  "run_inv h W s =
     (dom (br_seen s) = set W \<and> seen_ok (br_seen s) \<and> resolved (br_stats s) = card (set W)
      \<and> br_processed s = length W + malformed_rows (br_stats s) \<and> counted (br_stats s) = br_processed s
      \<and> length (br_lines s) = h + br_processed s)"

abbreviation hashed :: "batch_world \<Rightarrow> pending_row list \<Rightarrow> bool" where
  "hashed w rows \<equiv> (\<forall>r \<in> set rows. pr_hash r = bw_sha256Hex w (pr_normalized r))"

lemma insertBatchEmailChecks_ledger:
  "insertBatchEmailChecks n ids db rows = Inr db' \<Longrightarrow> creditLedger db' = creditLedger db"
  by (auto simp: insertBatchEmailChecks_def dest!: insert_email_checks_Inr)

lemma resolveChunk_inv:
  assumes "resolveChunk w b x rows s = Inr s'" "run_inv h W s" "hashed w rows"
    and "inj_on (bw_sha256Hex w) (pr_normalized ` set rows)"
  shows "run_inv h (W @ map pr_normalized rows) s' \<and> creditLedger (br_db s') = creditLedger (br_db s)
    \<and> malformed_rows (br_stats s') = malformed_rows (br_stats s)"
proof -
  let ?new = "filter (\<lambda>r. br_seen s (pr_normalized r) = None) rows"
  define us where "us = unique_by_hash [] ?new"
  have sub: "inj_on (bw_sha256Hex w) (pr_normalized ` set ?new)" using assms(4) by (rule inj_on_subset) auto
  have us: "pr_normalized ` set us = pr_normalized ` set ?new" "distinct (map pr_normalized us)"
    using unique_by_hash_inv [OF _ sub, of "[]"] assms(3) by (simp_all add: us_def)
  have new: "pr_normalized ` set ?new = pr_normalized ` set rows - set W"
    using assms(2) by (auto simp: run_inv_def)
  obtain s1 where s1: "write_rows w (b_id b) rows s1 = Inr s'"
    and one: "dom (br_seen s1) = dom (br_seen s) \<union> pr_normalized ` set us" "seen_ok (br_seen s1)"
      "resolved (br_stats s1) = resolved (br_stats s) + length us" "counted (br_stats s1) = counted (br_stats s)"
      "malformed_rows (br_stats s1) = malformed_rows (br_stats s)" "creditLedger (br_db s1) = creditLedger (br_db s)"
      "br_processed s1 = br_processed s" "br_lines s1 = br_lines s"
  proof (cases "us = []")
    case True
    then show ?thesis
      using assms(1,2) that [of s] by (simp add: resolveChunk_def us_def [symmetric] Let_def run_inv_def)
  next
    case False
    obtain seen st ins where ru: "resolve_unique w (b_orgId b) x (findRecentEmailChecksByHashes (br_db s) (b_orgId b)
        (map pr_hash us) (bw_now w)) us (br_seen s, br_stats s, []) = (seen, st, ins)" by (metis prod_cases3)
    obtain d where d: "insertBatchEmailChecks (bw_dbnow w) (map (bw_uuid w) [br_inserted s ..< br_inserted s + length ins])
        (br_db s) ins = Inr d"
      and wr: "write_rows w (b_id b) rows (s\<lparr>br_db := d, br_seen := seen, br_stats := st,
        br_inserted := br_inserted s + length ins\<rparr>) = Inr s'"
      using assms(1) False ru by (auto simp: resolveChunk_def us_def [symmetric] Let_def and_then_Inr raised_at_Inr)
    have "seen_ok (br_seen s)" using assms(2) by (simp add: run_inv_def)
    from that [OF wr] resolve_unique_inv [OF ru this] insertBatchEmailChecks_ledger [OF d] show ?thesis by simp
  qed
  have dom1: "dom (br_seen s1) = set W \<union> pr_normalized ` set rows"
    using one(1) us(1) new assms(2) by (auto simp: run_inv_def)
  have card: "length us = card (pr_normalized ` set rows - set W)"
    using us new by (metis distinct_card length_map list.set_map)
  have "card (set W \<union> pr_normalized ` set rows) = card (set W) + card (pr_normalized ` set rows - set W)"
    by (metis List.finite_set Un_Diff_cancel card_Un_disjoint finite_Diff finite_imageI Diff_disjoint)
  then show ?thesis
    using write_rows_inv [OF s1 _ one(2)] dom1 one card assms(2) by (simp add: run_inv_def)
qed

definition addresses :: "batch_layout \<Rightarrow> string list list \<Rightarrow> string list" where
  "addresses layout recs = filter (\<lambda>n. n \<noteq> []) (map (normalized_cell layout) recs)"

lemma addresses_simps [simp]:
  "addresses layout [] = []"
  "addresses layout (r # rs) = (if normalized_cell layout r = [] then [] else [normalized_cell layout r]) @ addresses layout rs"
  by (simp_all add: addresses_def)

lemma run_inv_stats:
  assumes "run_inv h W s" "resolved st = resolved (br_stats s)" "malformed_rows st = malformed_rows (br_stats s)"
    "counted st = counted (br_stats s)"
  shows "run_inv h W (s\<lparr>br_stats := st\<rparr>)"
  using assms by (simp add: run_inv_def)

lemma record_loop_inv:
  assumes "record_loop w b layout x recs chunk s = Inr (chunk', s')" "run_inv h W s" "hashed w chunk"
    and "inj_on (bw_sha256Hex w) (set (map pr_normalized chunk @ addresses layout recs))"
  shows "\<exists>W'. run_inv h W' s' \<and> hashed w chunk'
    \<and> W' @ map pr_normalized chunk' = W @ map pr_normalized chunk @ addresses layout recs
    \<and> malformed_rows (br_stats s') + length (addresses layout recs) = malformed_rows (br_stats s) + length recs
    \<and> creditLedger (br_db s') = creditLedger (br_db s)"
  using assms
proof (induction recs arbitrary: chunk s W)
  case (Cons rec recs)
  let ?n = "normalized_cell layout rec"
  show ?case
  proof (cases "?n = []")
    case True
    let ?st = "br_stats s"
    let ?s1 = "(writeRow rec [] MALFORMED s)\<lparr>br_stats := count_verdict ''invalid'' (?st\<lparr>malformed_rows := malformed_rows ?st + 1\<rparr>),
        br_processed := br_processed s + 1\<rparr>"
    have c: "counted (count_verdict ''invalid'' (?st\<lparr>malformed_rows := malformed_rows ?st + 1\<rparr>)) = counted ?st + 1"
      using counted_known [of "''invalid''" "?st\<lparr>malformed_rows := malformed_rows ?st + 1\<rparr>"] by (simp add: VERDICTS_def counted_def)
    have "run_inv h W ?s1" using Cons.prems(2) c by (simp add: run_inv_def)
    moreover have "record_loop w b layout x recs chunk ?s1 = Inr (chunk', s')"
      using Cons.prems(1) True by (simp add: Let_def)
    ultimately show ?thesis using Cons.IH [of chunk ?s1 W] Cons.prems(3,4) True by auto
  next
    case False
    define s1 where "s1 = (if br_seen s ?n \<noteq> None then s\<lparr>br_stats := (br_stats s)\<lparr>duplicates := duplicates (br_stats s) + 1\<rparr>\<rparr> else s)"
    define row where "row = \<lparr>pr_cells = rec, pr_normalized = ?n, pr_hash = bw_sha256Hex w ?n\<rparr>"
    have step: "record_loop w b layout x (rec # recs) chunk s =
        (if bw_chunkSize w \<le> length (chunk @ [row])
         then and_then (resolveChunk w b x (chunk @ [row]) s1) (\<lambda>s2. record_loop w b layout x recs [] s2)
         else record_loop w b layout x recs (chunk @ [row]) s1)"
      using False by (simp add: Let_def row_def s1_def)
    have inv1: "run_inv h W s1" using Cons.prems(2) by (auto simp: s1_def resolved_def counted_def intro!: run_inv_stats)
    have same: "malformed_rows (br_stats s1) = malformed_rows (br_stats s)" "br_db s1 = br_db s" by (auto simp: s1_def)
    have hs: "hashed w (chunk @ [row])" using Cons.prems(3) by (simp add: row_def)
    have inj: "inj_on (bw_sha256Hex w) (set (map pr_normalized (chunk @ [row]) @ addresses layout recs))"
      using Cons.prems(4) False by (simp add: row_def insert_commute Un_insert_left)
    show ?thesis
    proof (cases "bw_chunkSize w \<le> length (chunk @ [row])")
      case True
      obtain s2 where s2: "resolveChunk w b x (chunk @ [row]) s1 = Inr s2" "record_loop w b layout x recs [] s2 = Inr (chunk', s')"
        using Cons.prems(1) True unfolding step by (auto simp: and_then_Inr)
      have "inj_on (bw_sha256Hex w) (pr_normalized ` set (chunk @ [row]))"
        using inj by (rule inj_on_subset) auto
      note rc = resolveChunk_inv [OF s2(1) inv1 hs this]
      have "inj_on (bw_sha256Hex w) (set (map pr_normalized [] @ addresses layout recs))"
        using inj by (rule inj_on_subset) auto
      then show ?thesis
        using Cons.IH [OF s2(2), of "W @ map pr_normalized (chunk @ [row])"] rc same False by (auto simp: row_def)
    next
      case False': False
      have "record_loop w b layout x recs (chunk @ [row]) s1 = Inr (chunk', s')"
        using Cons.prems(1) False' unfolding step by simp
      from Cons.IH [OF this inv1 hs inj] same False show ?thesis by (auto simp: row_def)
    qed
  qed
qed simp


section \<open>Properties\<close>

definition batch_start :: "database \<Rightarrow> batch_run" where
  "batch_start db = \<lparr>br_db = db, br_seen = Map.empty, br_stats = no_stats, br_processed = 0, br_lines = [], br_inserted = 0\<rparr>"

lemma process_records_inv:
  assumes "process_records w b layout x recs False (batch_start db) = Inr s"
    and "inj_on (bw_sha256Hex w) (set (addresses layout (data_records layout recs)))"
  shows "run_inv (length recs - length (data_records layout recs)) (addresses layout (data_records layout recs)) s
    \<and> malformed_rows (br_stats s) + length (addresses layout (data_records layout recs)) = length (data_records layout recs)
    \<and> creditLedger (br_db s) = creditLedger db"
proof -
  let ?d = "data_records layout recs" and ?h = "length recs - length (data_records layout recs)"
  define s1 where "s1 = (case recs of first # _ \<Rightarrow> if hasHeader layout then (batch_start db)\<lparr>br_lines := [header_line first]\<rparr>
      else batch_start db | [] \<Rightarrow> batch_start db)"
  obtain chunk s2 where loop: "record_loop w b layout x ?d [] s1 = Inr (chunk, s2)"
    and fin: "(if 0 < length chunk then resolveChunk w b x chunk s2 else Inr s2) = Inr s"
    using assms(1) by (auto simp: process_records_def Let_def s1_def batch_start_def and_then_Inr split: list.splits if_splits)
  have inv1: "run_inv ?h [] s1" and same: "malformed_rows (br_stats s1) = 0" "br_db s1 = db"
    by (auto simp: s1_def batch_start_def run_inv_def no_stats_def seen_ok_def resolved_def counted_def VERDICTS_def
        data_records_def split: list.splits)
  obtain W where W: "run_inv ?h W s2" "hashed w chunk" "W @ map pr_normalized chunk = addresses layout ?d"
    "malformed_rows (br_stats s2) + length (addresses layout ?d) = length ?d" "creditLedger (br_db s2) = creditLedger db"
    using record_loop_inv [OF loop inv1] assms(2) same by auto
  show ?thesis
  proof (cases "chunk = []")
    case True
    then show ?thesis using fin W by simp
  next
    case False
    then have rc: "resolveChunk w b x chunk s2 = Inr s" using fin by simp
    have "set (map pr_normalized chunk) \<subseteq> set (addresses layout ?d)" unfolding W(3) [symmetric] by auto
    then have "inj_on (bw_sha256Hex w) (pr_normalized ` set chunk)" using assms(2) by (auto intro: inj_on_subset)
    from resolveChunk_inv [OF rc W(1,2) this] W show ?thesis by simp
  qed
qed

text \<open>C10: The accounting of a batch file. When the processor gets through a file and no two of its
  addresses share a hash: one result line is written per record, each data row counted in exactly
  one verdict bucket; every malformed row is counted as such; and each distinct well-formed
  address was resolved exactly once, by the cache, by a charged engine call or as an engine
  error, whatever the chunk size. No ledger entry is written on the way.\<close>

theorem batch_file_accounting:
  assumes "process_records w b layout expiresAt recs False (batch_start db) = Inr s"
    and "inj_on (bw_sha256Hex w) (set (addresses layout (data_records layout recs)))"
  shows "length (br_lines s) = length recs
    \<and> br_processed s = length (data_records layout recs) \<and> counted (br_stats s) = length (data_records layout recs)
    \<and> malformed_rows (br_stats s) + length (addresses layout (data_records layout recs)) = length (data_records layout recs)
    \<and> bs_charged (br_stats s) + bs_cached (br_stats s) + engine_errors (br_stats s)
        = card (set (addresses layout (data_records layout recs)))
    \<and> creditLedger (br_db s) = creditLedger db"
proof -
  have "length (data_records layout recs) \<le> length recs" by (simp add: data_records_def)
  then show ?thesis using process_records_inv [OF assms] by (auto simp: run_inv_def resolved_def)
qed


text \<open>No path through a file, thrown or finished, touches the ledger.\<close>

lemma raised_at_Inl: "raised_at d m = Inl (e, d') \<Longrightarrow> d' = d"
  by (cases m) (auto simp: raised_at_def)

lemma write_rows_raised:
  "write_rows w i rows s = Inl (e, d) \<Longrightarrow> creditLedger d = creditLedger (br_db s)"
proof (induction rows arbitrary: s)
  case (Cons row rows)
  then show ?case
    by (fastforce simp: Let_def and_then_Inl raised_at_Inr split: option.splits if_splits
        dest: raised_at_Inl updateBatchProgress_ledger)
qed simp

lemma resolveChunk_raised:
  assumes "resolveChunk w b x rows s = Inl (e, d)"
  shows "creditLedger d = creditLedger (br_db s)"
  using assms
  by (auto simp: resolveChunk_def Let_def and_then_Inl and_then_Inr raised_at_Inr split: if_splits prod.splits
      dest!: raised_at_Inl write_rows_raised insertBatchEmailChecks_ledger)

lemma write_rows_ledger:
  "write_rows w i rows s = Inr s' \<Longrightarrow> creditLedger (br_db s') = creditLedger (br_db s)"
proof (induction rows arbitrary: s)
  case (Cons row rows)
  then show ?case
    by (fastforce simp: Let_def and_then_Inr raised_at_Inr split: option.splits if_splits dest: updateBatchProgress_ledger)
qed simp

lemma resolveChunk_ledger:
  assumes "resolveChunk w b x rows s = Inr s'"
  shows "creditLedger (br_db s') = creditLedger (br_db s)"
  using assms
  by (auto simp: resolveChunk_def Let_def and_then_Inr raised_at_Inr split: if_splits prod.splits
      dest!: write_rows_ledger insertBatchEmailChecks_ledger)

lemma record_loop_ledger:
  "record_loop w b layout x recs chunk s = res \<Longrightarrow>
     creditLedger (case res of Inl (e, d) \<Rightarrow> d | Inr (c, s') \<Rightarrow> br_db s') = creditLedger (br_db s)"
proof (induction recs arbitrary: chunk s res)
  case (Cons rec recs)
  show ?case
  proof (cases "normalized_cell layout rec = []")
    case True
    then show ?thesis using Cons.IH [OF refl] Cons.prems by (auto simp: Let_def)
  next
    case False
    define s1 where "s1 = (if br_seen s (normalized_cell layout rec) \<noteq> None
      then s\<lparr>br_stats := (br_stats s)\<lparr>duplicates := duplicates (br_stats s) + 1\<rparr>\<rparr> else s)"
    define c where "c = chunk @ [\<lparr>pr_cells = rec, pr_normalized = normalized_cell layout rec, pr_hash = bw_sha256Hex w (normalized_cell layout rec)\<rparr>]"
    have step: "res = (if bw_chunkSize w \<le> length c then and_then (resolveChunk w b x c s1) (record_loop w b layout x recs [])
        else record_loop w b layout x recs c s1)"
      unfolding Cons.prems [symmetric] using False by (simp add: Let_def c_def s1_def)
    have db: "br_db s1 = br_db s" by (simp add: s1_def)
    show ?thesis
    proof (cases "bw_chunkSize w \<le> length c")
      case True
      show ?thesis
      proof (cases "resolveChunk w b x c s1")
        case (Inl ed)
        then show ?thesis using step True db resolveChunk_raised by (cases ed) auto
      next
        case (Inr s2)
        then show ?thesis using step True db resolveChunk_ledger [OF Inr] Cons.IH [OF refl, of "[]" s2] by simp
      qed
    next
      case False
      then show ?thesis using step db Cons.IH [OF refl, of c s1] by simp
    qed
  qed
qed auto

lemma process_records_ledger:
  assumes "process_records w b layout x recs throws s = res"
  shows "creditLedger (case res of Inl (e, d) \<Rightarrow> d | Inr s' \<Rightarrow> br_db s') = creditLedger (br_db s)"
proof -
  define s1 where "s1 = (case recs of first # _ \<Rightarrow> if hasHeader layout then s\<lparr>br_lines := br_lines s @ [header_line first]\<rparr> else s
      | [] \<Rightarrow> s)"
  have db: "br_db s1 = br_db s" by (simp add: s1_def split: list.splits)
  have res: "res = and_then (record_loop w b layout x (data_records layout recs) [] s1)
      (\<lambda>(chunk, s2). if throws then Inl (None, br_db s2) else if 0 < length chunk then resolveChunk w b x chunk s2 else Inr s2)"
    using assms by (simp add: process_records_def s1_def Let_def)
  show ?thesis
  proof (cases "record_loop w b layout x (data_records layout recs) [] s1")
    case (Inl ed)
    then show ?thesis using res record_loop_ledger [OF Inl] db by (cases ed) simp
  next
    case (Inr cs)
    obtain chunk s2 where cs: "cs = (chunk, s2)" by (cases cs)
    have s2: "creditLedger (br_db s2) = creditLedger (br_db s)" using record_loop_ledger [OF Inr] cs db by simp
    show ?thesis
    proof (cases "throws \<or> chunk = []")
      case True
      then show ?thesis using res Inr cs s2 by auto
    next
      case False
      then have "res = resolveChunk w b x chunk s2" using res Inr cs by simp
      then show ?thesis using s2 resolveChunk_raised resolveChunk_ledger by (cases res) fastforce+
    qed
  qed
qed


lemma claimed_row:
  assumes "claimBatchForProcessing db i = (Claimed b r, db1)"
  shows "\<exists>b0 \<in> set (batches db). b_id b0 = i \<and> claimable (b_status b0) \<and> b = b0\<lparr>b_status := Processing\<rparr>"
proof -
  let ?hits = "filter (\<lambda>b. b_id b = i \<and> claimable (b_status b)) (batches db)"
  have "first_row (map (\<lambda>b. b\<lparr>b_status := Processing\<rparr>) ?hits) = Some b"
    using assms by (auto simp: claimBatchForProcessing_def Let_def split: option.splits if_splits)
  then have "b \<in> set (map (\<lambda>b. b\<lparr>b_status := Processing\<rparr>) ?hits)" by (rule first_row_Some_mem)
  then show ?thesis by auto
qed

lemma claimed_id: "claimBatchForProcessing db i = (Claimed b r, db1) \<Longrightarrow> b_id b = i"
  using claimed_row by force

lemma failBatch_ledger:
  assumes "failBatch env db i o' n err = Inr db'"
  defines "e \<equiv> refund_entry env o' i n ''Batch failed: full reservation refunded''"
  shows "creditLedger db' = creditLedger db \<or> creditLedger db' = creditLedger db @ [e]"
proof (cases "0 < n")
  case False
  then show ?thesis using assms(1) by (auto simp: failBatch_def Let_def)
next
  case True
  define d where "d = update_batch db i (\<lambda>b. b\<lparr>b_status := Failed, b_error := Some err\<rparr>)"
  have "map_sum id snd (insert_ledger_skip d e) = Inr db'"
    using assms(1) True unfolding failBatch_def d_def e_def Let_def by simp
  then have "\<exists>f. insert_ledger_skip d e = Inr (f, db')" by (rule map_sum_snd_Inr)
  then obtain f where "insert_ledger_skip d e = Inr (f, db')" ..
  then show ?thesis
  proof (cases rule: insert_ledger_skip_cases)
    case inserted
    then show ?thesis using insert_ledger_Inr(1) [OF inserted(2)] by (simp add: d_def)
  next
    case skipped
    then show ?thesis by (simp add: d_def)
  qed
qed

lemma completeBatch_ledger:
  assumes "completeBatch env db input now = Inr db'"
  shows "creditLedger db' = creditLedger db @
    (if 0 < co_reservedCredits input - co_chargedCredits input
     then [refund_entry env (co_orgId input) (co_batchId input) (co_reservedCredits input - co_chargedCredits input)
             ''Batch reconciliation: reserved minus charged''] else [])"
  using assms by (auto simp: completeBatch_def Let_def and_then_Inr split: if_splits dest!: insert_ledger_Inr(1))

lemma batch_job_done:
  assumes "processBatch w i recs throws db = Inr (B_done s, db')"
    and "\<And>layout. inj_on (bw_sha256Hex w) (set (addresses layout (data_records layout recs)))"
  shows "\<exists>b layout r. claimBatchForProcessing db i = (Claimed b r, snd (claimBatchForProcessing db i))
    \<and> readLayout (b_stats b) = Some layout
    \<and> bs_charged (br_stats s) \<le> card (set (addresses layout (data_records layout recs)))
    \<and> br_processed s = length (data_records layout recs)
    \<and> creditLedger db' = creditLedger db @
        (let refund = b_totalRows b - int (bs_charged (br_stats s))
         in if 0 < refund then [refund_entry (bw_tx w) (b_orgId b) i refund ''Batch reconciliation: reserved minus charged''] else [])"
proof -
  obtain cl db1 where cl: "claimBatchForProcessing db i = (cl, db1)" by fastforce
  obtain b r layout where b: "cl = Claimed b r" "readLayout (b_stats b) = Some layout"
    using assms(1) cl by (auto simp: processBatch_def Let_def and_then_Inr split: claim_batch_result.splits option.splits)
  let ?x = "bw_now w + r * 24 * 60 * 60 * 1000"
  obtain s0 where pr: "process_records w b layout ?x recs throws (batch_start db1) = Inr s0"
    using assms(1) cl b
    by (cases "process_records w b layout ?x recs throws (batch_start db1)")
       (auto simp: processBatch_def Let_def and_then_Inr batch_start_def)
  let ?in = "\<lambda>s. \<lparr>co_batchId = b_id b, co_orgId = b_orgId b, co_resultObjectKey = batchResultKey (b_orgId b) (b_id b),
      co_processedRows = int (br_processed s), co_stats = stats_json layout (br_stats s),
      co_chargedCredits = int (bs_charged (br_stats s)), co_reservedCredits = b_totalRows b, co_retentionDays = r\<rparr>"
  have fin: "s0 = s \<and> completeBatch (bw_tx w) (br_db s) (?in s) (bw_now w) = Inr db'"
    using assms(1) cl b pr [unfolded batch_start_def]
    by (auto simp: processBatch_def Let_def and_then_Inr split: if_splits sum.splits)
  have "throws = False" using pr by (auto simp: process_records_def Let_def and_then_Inr)
  then have "process_records w b layout ?x recs False (batch_start db1) = Inr s0" using pr by simp
  note inv = process_records_inv [OF this assms(2)]
  have led: "creditLedger db1 = creditLedger db" using claimBatch_ledger [of db i] cl by simp
  have "creditLedger db' = creditLedger db @
        (let refund = b_totalRows b - int (bs_charged (br_stats s))
         in if 0 < refund then [refund_entry (bw_tx w) (b_orgId b) i refund ''Batch reconciliation: reserved minus charged''] else [])"
    using completeBatch_ledger [OF conjunct2 [OF fin]] inv fin led claimed_id cl b(1) by (simp add: Let_def)
  moreover have "bs_charged (br_stats s) \<le> card (set (addresses layout (data_records layout recs)))"
    "br_processed s = length (data_records layout recs)"
    using inv fin by (auto simp: run_inv_def resolved_def)
  ultimately show ?thesis using cl b by (intro exI [of _ b] exI [of _ layout] exI [of _ r]) simp
qed

text \<open>C9: What a finished batch job does to the ledger: when it reports done, it wrote exactly the
  difference between the reservation and the number of charged rows back (nothing when they are
  equal), and the charged rows are at most the distinct well-formed addresses of the file.\<close>

theorem batch_job_refund:
  assumes "processBatch w i recs throws db = Inr (B_done s, db')"
    and "\<And>layout. inj_on (bw_sha256Hex w) (set (addresses layout (data_records layout recs)))"
  shows "\<exists>b layout r. claimBatchForProcessing db i = (Claimed b r, snd (claimBatchForProcessing db i))
    \<and> readLayout (b_stats b) = Some layout
    \<and> bs_charged (br_stats s) \<le> card (set (addresses layout (data_records layout recs)))
    \<and> br_processed s = length (data_records layout recs)
    \<and> creditLedger db' = creditLedger db @
        (let refund = b_totalRows b - int (bs_charged (br_stats s))
         in if 0 < refund then [refund_entry (bw_tx w) (b_orgId b) i refund ''Batch reconciliation: reserved minus charged''] else [])"
  by (rule batch_job_done [OF assms])


text \<open>Every other outcome leaves the ledger as it was or gives the whole reservation back.\<close>

definition full_refund :: "tx_env \<Rightarrow> batch \<Rightarrow> ledger_entry" where
  "full_refund env b = refund_entry env (b_orgId b) (b_id b) (b_totalRows b) ''Batch failed: full reservation refunded''"

definition gives_back :: "tx_env \<Rightarrow> database \<Rightarrow> database \<Rightarrow> bool" where
  "gives_back env db db' = (\<exists>es. creditLedger db' = creditLedger db @ es \<and> (es = [] \<or> (\<exists>b. es = [full_refund env b])))"

lemma failBatch_gives_back:
  fixes b :: batch
  assumes "failBatch env d (b_id b) (b_orgId b) (b_totalRows b) err = Inr db'" "creditLedger d = creditLedger db"
  shows "gives_back env db db'"
  using failBatch_ledger [OF assms(1)] full_refund_def [of env b, symmetric] assms(2) unfolding gives_back_def by auto

lemma gives_back_refl: "creditLedger db' = creditLedger db \<Longrightarrow> gives_back env db db'"
  unfolding gives_back_def by (intro exI [of _ "[]"]) simp

lemma batch_job_failed:
  assumes "processBatch w i recs throws db = Inr (out, db')" "\<And>s. out \<noteq> B_done s"
  shows "gives_back (bw_tx w) db db'"
proof -
  obtain cl db1 where cl: "claimBatchForProcessing db i = (cl, db1)" by fastforce
  have led: "creditLedger db1 = creditLedger db" using claimBatch_ledger [of db i] cl by simp
  show ?thesis
  proof (cases cl)
    case (Claimed b r)
    show ?thesis
    proof (cases "readLayout (b_stats b)")
      case None
      then show ?thesis using assms(1) cl Claimed led
        by (auto simp: processBatch_def Let_def and_then_Inr intro: failBatch_gives_back)
    next
      case (Some layout)
      let ?x = "bw_now w + r * 24 * 60 * 60 * 1000"
      note pl = process_records_ledger [of w b layout ?x recs throws "batch_start db1", OF refl]
      show ?thesis
      proof (cases "process_records w b layout ?x recs throws (batch_start db1)")
        case (Inl ed)
        obtain e d where ed: "ed = (e, d)" by (cases ed)
        have "creditLedger d = creditLedger db" using pl Inl ed led by (simp add: batch_start_def)
        then show ?thesis using assms(1) cl Claimed Some Inl ed
          by (auto simp: processBatch_def Let_def and_then_Inr batch_start_def intro: failBatch_gives_back)
      next
        case (Inr s)
        have "creditLedger (br_db s) = creditLedger db" using pl Inr led by (simp add: batch_start_def)
        then show ?thesis using assms cl Claimed Some Inr
          by (auto simp: processBatch_def Let_def and_then_Inr batch_start_def intro: failBatch_gives_back
              split: sum.splits if_splits)
      qed
    qed
  next
    case (ClaimOrgUnavailable b)
    then show ?thesis using assms(1) cl led
      by (auto simp: processBatch_def Let_def and_then_Inr intro: failBatch_gives_back)
  next
    case NotClaimable
    then show ?thesis using assms(1) cl led by (auto simp: processBatch_def Let_def intro: gives_back_refl)
  qed
qed

section \<open>A concrete file\<close>

definition demo_batch_world :: batch_world where
  "demo_batch_world = \<lparr>bw_sha256Hex = (\<lambda>x. x), bw_engine = (\<lambda>em. if em = ''x@b.uz'' then Inl (EngineTimeoutError 20000) else
     Inr \<lparr>eng_email = em, eng_syntax = \<lparr>syn_valid = True, syn_username = ''a'', syn_domain = ''a.uz''\<rparr>,
     eng_mx = \<lparr>has_mx = Some True, mx_records = [''mx.a.uz.''], mx_error = []\<rparr>, disposable = False, role_account = False,
     free_provider = False, eng_smtp = None, duration_ms = 12\<rparr>), bw_chunkSize = 2, bw_progressEvery = 500, bw_now = 1000,
     bw_dbnow = 1000000, bw_uuid = (\<lambda>n. nat_text n), bw_tx = \<lparr>tx_now = 1000000, tx_uuid = ''u'', tx_ledger_id = ''l-9''\<rparr>,
     bw_upload_ok = True\<rparr>"

definition demo_layout :: batch_layout where "demo_layout = \<lparr>emailColumn = 0, hasHeader = True\<rparr>"

definition demo_file_batch :: batch where
  "demo_file_batch = \<lparr>b_id = ''b-1'', b_orgId = ''org-1'', b_filename = ''f.csv'', b_status = Pending, b_totalRows = 4,
     b_processedRows = 0, b_error = None, b_stats = JObj [(''email_column'', JNum 0), (''has_header'', JBool True)],
     b_inputObjectKey = ''k'', b_resultObjectKey = None, b_createdAt = 0, b_completedAt = None, b_expiresAt = 9000000\<rparr>"

definition demo_records :: "string list list" where
  "demo_records = [[''email''], [''a@a.uz''], ['' ''], [''a@A.uz''], [''x@b.uz'']]"

definition demo_file_db :: database where "demo_file_db = (demo_db 5)\<lparr>batches := [demo_file_batch]\<rparr>"


definition demo_result :: "batch_error + batch_run" where
  "demo_result = process_records demo_batch_world demo_file_batch demo_layout 5000 demo_records False (batch_start demo_file_db)"

definition demo_final :: batch_run where
  "demo_final = (case demo_result of Inr s \<Rightarrow> s | Inl _ \<Rightarrow> batch_start demo_file_db)"


lemma demo_result_Inr: "demo_result = Inr demo_final"
proof -
  have "isl demo_result = False" by code_simp
  then obtain s where "demo_result = Inr s" by (metis sum.collapse(2))
  then show ?thesis unfolding demo_final_def by (metis sum.case(2))
qed

theorem batch_file_accounting_witness:
  "bs_charged (br_stats demo_final) + bs_cached (br_stats demo_final) + engine_errors (br_stats demo_final) = 2
   \<and> length (br_lines demo_final) = 5"
proof -
  have a: "addresses demo_layout (data_records demo_layout demo_records) = [''a@a.uz'', ''a@a.uz'', ''x@b.uz'']" by code_simp
  show ?thesis
    using batch_file_accounting [OF demo_result_Inr [unfolded demo_result_def]] a
    by (simp add: demo_batch_world_def demo_records_def)
qed

definition demo_job :: "db_error + batch_outcome \<times> database" where
  "demo_job = processBatch demo_batch_world ''b-1'' demo_records False demo_file_db"

definition demo_job_run :: batch_run where
  "demo_job_run = (case demo_job of Inr (B_done s, _) \<Rightarrow> s | _ \<Rightarrow> batch_start demo_file_db)"

definition demo_job_db :: database where
  "demo_job_db = (case demo_job of Inr (_, d) \<Rightarrow> d | _ \<Rightarrow> demo_file_db)"

theorem batch_job_refund_witness:
  "\<exists>e. creditLedger demo_job_db = [demo_grant 5, e] \<and> l_delta e = 3 \<and> l_referenceId e = Some ''b-1:refund''"
proof -
  have "(case demo_job of Inr (B_done s, _) \<Rightarrow> True | _ \<Rightarrow> False)" by code_simp
  then have "processBatch demo_batch_world ''b-1'' demo_records False demo_file_db = Inr (B_done demo_job_run, demo_job_db)"
    unfolding demo_job_run_def demo_job_db_def demo_job_def by (auto split: sum.splits batch_outcome.splits)
  moreover have "inj_on (bw_sha256Hex demo_batch_world) A" for A by (simp add: demo_batch_world_def)
  ultimately obtain b layout r where
    b: "claimBatchForProcessing demo_file_db ''b-1'' = (Claimed b r, snd (claimBatchForProcessing demo_file_db ''b-1''))"
    and l: "creditLedger demo_job_db = creditLedger demo_file_db @
        (let refund = b_totalRows b - int (bs_charged (br_stats demo_job_run))
         in if 0 < refund then [refund_entry (bw_tx demo_batch_world) (b_orgId b) ''b-1'' refund
              ''Batch reconciliation: reserved minus charged''] else [])"
    using batch_job_refund [where w = demo_batch_world] by metis
  have "case fst (claimBatchForProcessing demo_file_db ''b-1'') of Claimed b r \<Rightarrow> b_totalRows b = 4 | _ \<Rightarrow> False" by code_simp
  then have "b_totalRows b = 4" by (subst (asm) b) simp
  moreover have "bs_charged (br_stats demo_job_run) = 1" by code_simp
  ultimately show ?thesis
    using l by (simp add: refund_entry_def refundReference_def demo_file_db_def demo_db_def)
qed

end
