(* ===== verification/Db_Webhooks.thy ===== *)
theory Db_Webhooks
  imports Db_Accounts
begin

text \<open>
  \<^verbatim>\<open>packages/db/src/webhooks.ts\<close>: webhook endpoints and the delivery rows with their
  append-only attempt log, and the constants of \<^verbatim>\<open>packages/shared/src/webhooks.ts\<close>.
\<close>

section \<open>Contract constants\<close>

definition WEBHOOK_EVENTS :: "string list" where
  "WEBHOOK_EVENTS = [''batch.completed'', ''batch.failed'']"

definition WEBHOOK_RETRY_SCHEDULE_MS :: "int list" where
  "WEBHOOK_RETRY_SCHEDULE_MS = [60000, 300000, 1800000, 7200000, 21600000]"

definition WEBHOOK_MAX_ATTEMPTS :: int where
  "WEBHOOK_MAX_ATTEMPTS = int (length WEBHOOK_RETRY_SCHEDULE_MS) + 1"

definition WEBHOOK_TIMEOUT_MS :: int where "WEBHOOK_TIMEOUT_MS = 5000"

section \<open>Endpoints\<close>

record new_endpoint_input =
  ne_orgId :: uuid
  ne_url :: string
  ne_events :: "string list"
  ne_secret :: string

definition createWebhookEndpoint :: "time_us \<Rightarrow> uuid \<Rightarrow> database \<Rightarrow> new_endpoint_input \<Rightarrow> db_error + webhook_endpoint \<times> database" where
  "createWebhookEndpoint dbnow endpointId db input =
     (if endpointId \<in> we_id ` set (webhookEndpoints db) then Inl (UniqueViolation ''webhook_endpoints_pkey'')
      else if \<not> org_exists db (ne_orgId input) then Inl (ForeignKeyViolation ''webhook_endpoints_org_id_organizations_id_fk'')
      else
        (let row = \<lparr>we_id = endpointId, we_orgId = ne_orgId input, we_url = ne_url input, we_secret = ne_secret input,
                    we_events = ne_events input, we_active = True, we_createdAt = dbnow, we_deletedAt = None\<rparr>
         in Inr (row, db\<lparr>webhookEndpoints := webhookEndpoints db @ [row]\<rparr>)))"

record endpoint_summary =
  es_id :: uuid
  es_url :: string
  es_events :: "string list"
  es_active :: bool
  es_createdAt :: time_us

definition listWebhookEndpointsForOrg :: "database \<Rightarrow> uuid \<Rightarrow> endpoint_summary list" where
  "listWebhookEndpointsForOrg db orgId =
     map (\<lambda>e. \<lparr>es_id = we_id e, es_url = we_url e, es_events = we_events e, es_active = we_active e,
              es_createdAt = we_createdAt e\<rparr>)
       (order_desc (\<lambda>e. (we_createdAt e, we_id e))
         (filter (\<lambda>e. we_orgId e = orgId \<and> we_deletedAt e = None) (webhookEndpoints db)))"

definition softDeleteWebhookEndpoint :: "database \<Rightarrow> uuid \<Rightarrow> uuid \<Rightarrow> time_ms \<Rightarrow> bool \<times> database" where
  "softDeleteWebhookEndpoint db endpointId orgId now =
     (let hit = (\<lambda>e. we_id e = endpointId \<and> we_orgId e = orgId \<and> we_deletedAt e = None)
      in (list_ex hit (webhookEndpoints db),
          db\<lparr>webhookEndpoints := map (\<lambda>e. if hit e then e\<lparr>we_deletedAt := Some (us_of now), we_active := False\<rparr> else e)
               (webhookEndpoints db)\<rparr>))"

definition findEndpointsForEvent :: "database \<Rightarrow> uuid \<Rightarrow> string \<Rightarrow> uuid list" where
  "findEndpointsForEvent db orgId event =
     map we_id (filter (\<lambda>e. we_orgId e = orgId \<and> we_active e \<and> we_deletedAt e = None
        \<and> active_org db (we_orgId e) \<noteq> None \<and> event \<in> set (we_events e)) (webhookEndpoints db))"

section \<open>Deliveries\<close>

record new_delivery_input =
  nd_id :: uuid
  nd_endpointId :: uuid
  nd_eventType :: string
  nd_payload :: json
  nd_expiresAt :: time_ms

definition createWebhookDelivery :: "time_us \<Rightarrow> database \<Rightarrow> new_delivery_input \<Rightarrow> db_error + database" where
  "createWebhookDelivery dbnow db input =
     (if nd_id input \<in> wd_id ` set (webhookDeliveries db) then Inl (UniqueViolation ''webhook_deliveries_pkey'')
      else if nd_endpointId input \<notin> we_id ` set (webhookEndpoints db)
      then Inl (ForeignKeyViolation ''webhook_deliveries_endpoint_id_webhook_endpoints_id_fk'')
      else Inr (db\<lparr>webhookDeliveries := webhookDeliveries db @
             [\<lparr>wd_id = nd_id input, wd_endpointId = nd_endpointId input, wd_eventType = nd_eventType input,
               wd_payload = nd_payload input, wd_status = Delivery_pending, wd_attempts = 0, wd_attemptLog = [],
               wd_lastError = None, wd_nextRetryAt = None, wd_createdAt = dbnow,
               wd_expiresAt = us_of (nd_expiresAt input)\<rparr>]\<rparr>))"

text \<open>A pending delivery with its live endpoint and organisation.\<close>

definition getDeliveryForProcessing :: "database \<Rightarrow> uuid \<Rightarrow> (webhook_delivery \<times> webhook_endpoint) option" where
  "getDeliveryForProcessing db deliveryId =
     (case first_row (List.map_filter (\<lambda>d.
             if wd_id d = deliveryId
             then Option.bind (find (\<lambda>e. we_id e = wd_endpointId d) (webhookEndpoints db)) (\<lambda>e.
                  map_option (\<lambda>o'. (d, e, o')) (find_org db (we_orgId e)))
             else None) (webhookDeliveries db)) of
        None \<Rightarrow> None
      | Some (d, e, o') \<Rightarrow>
          if wd_status d \<noteq> Delivery_pending then None
          else if \<not> we_active e \<or> we_deletedAt e \<noteq> None \<or> o_deletedAt o' \<noteq> None then None
          else Some (d, e))"

datatype delivery_outcome =
    Out_delivered attempt_record
  | Out_retry time_ms attempt_record
  | Out_failed attempt_record

fun outcome_record :: "delivery_outcome \<Rightarrow> attempt_record" where
  "outcome_record (Out_delivered r) = r" | "outcome_record (Out_retry _ r) = r" | "outcome_record (Out_failed r) = r"

definition delivery_attempted :: "delivery_outcome \<Rightarrow> webhook_delivery \<Rightarrow> webhook_delivery" where
  "delivery_attempted out d =
     (let base = d\<lparr>wd_attempts := wd_attempts d + 1, wd_attemptLog := wd_attemptLog d @ [outcome_record out]\<rparr>
      in case out of
           Out_delivered r \<Rightarrow> base\<lparr>wd_status := Delivery_delivered, wd_nextRetryAt := None, wd_lastError := None\<rparr>
         | Out_retry nextRetryAt r \<Rightarrow>
             base\<lparr>wd_status := Delivery_pending, wd_nextRetryAt := Some (us_of nextRetryAt), wd_lastError := ar_error r\<rparr>
         | Out_failed r \<Rightarrow> base\<lparr>wd_status := Delivery_failed, wd_nextRetryAt := None, wd_lastError := ar_error r\<rparr>)"

definition recordDeliveryAttempt :: "database \<Rightarrow> uuid \<Rightarrow> delivery_outcome \<Rightarrow> database" where
  "recordDeliveryAttempt db deliveryId out =
     db\<lparr>webhookDeliveries := map (\<lambda>d. if wd_id d = deliveryId then delivery_attempted out d else d) (webhookDeliveries db)\<rparr>"

section \<open>Lemmas\<close>

lemma set_map_filter_iff: "y \<in> set (List.map_filter f xs) \<longleftrightarrow> (\<exists>x \<in> set xs. f x = Some y)"
  by (induction xs) (auto simp: List.map_filter_simps split: option.splits)

lemma getDelivery_Some:
  assumes "getDeliveryForProcessing db i = Some (d, e)"
  shows "d \<in> set (webhookDeliveries db)" "wd_id d = i" "wd_status d = Delivery_pending"
    "e \<in> set (webhookEndpoints db)" "we_id e = wd_endpointId d" "we_active e" "we_deletedAt e = None"
proof -
  obtain o' where row: "first_row (List.map_filter (\<lambda>d.
             if wd_id d = i
             then Option.bind (find (\<lambda>e. we_id e = wd_endpointId d) (webhookEndpoints db)) (\<lambda>e.
                  map_option (\<lambda>o'. (d, e, o')) (find_org db (we_orgId e)))
             else None) (webhookDeliveries db)) = Some (d, e, o')"
    and ok: "wd_status d = Delivery_pending" "we_active e" "we_deletedAt e = None"
    using assms by (auto simp: getDeliveryForProcessing_def split: option.splits if_splits)
  note mem = first_row_Some_mem [OF row]
  show "d \<in> set (webhookDeliveries db)" "wd_id d = i" "e \<in> set (webhookEndpoints db)" "we_id e = wd_endpointId d"
    using mem by (auto simp: set_map_filter_iff Option.bind_eq_Some_conv find_Some_iff split: if_splits)
  show "wd_status d = Delivery_pending" "we_active e" "we_deletedAt e = None" by fact+
qed

lemma recordDeliveryAttempt_mem:
  assumes "d' \<in> set (webhookDeliveries (recordDeliveryAttempt db i out))"
  obtains d where "d \<in> set (webhookDeliveries db)" "wd_id d = i" "d' = delivery_attempted out d"
  | "d' \<in> set (webhookDeliveries db)" "wd_id d' \<noteq> i"
proof -
  have "d' \<in> (\<lambda>d. if wd_id d = i then delivery_attempted out d else d) ` set (webhookDeliveries db)"
    using assms by (simp add: recordDeliveryAttempt_def)
  then obtain d where "d \<in> set (webhookDeliveries db)" "d' = (if wd_id d = i then delivery_attempted out d else d)" by blast
  then show ?thesis using that by (cases "wd_id d = i") simp_all
qed

lemma delivery_attempted_id [simp]: "wd_id (delivery_attempted out d) = wd_id d"
  by (cases out) (simp_all add: delivery_attempted_def Let_def)

text \<open>The summaries that feed list responses carry no secret, and a deleted endpoint is gone from
  every list and every fan-out.\<close>

lemma soft_deleted_endpoint_silent:
  assumes "softDeleteWebhookEndpoint db i o' now = (True, db')" "distinct (map we_id (webhookEndpoints db))"
  shows "i \<notin> set (findEndpointsForEvent db' o' ev) \<and> i \<notin> es_id ` set (listWebhookEndpointsForOrg db' o')"
proof -
  let ?hit = "\<lambda>e. we_id e = i \<and> we_orgId e = o' \<and> we_deletedAt e = None"
  have eps: "webhookEndpoints db' = map (\<lambda>e. if ?hit e then e\<lparr>we_deletedAt := Some (us_of now), we_active := False\<rparr> else e) (webhookEndpoints db)"
    using assms(1) by (auto simp: softDeleteWebhookEndpoint_def Let_def)
  have none: "we_deletedAt x \<noteq> None" if "x \<in> set (webhookEndpoints db')" "we_id x = i" "we_orgId x = o'" for x
  proof -
    have "x \<in> (\<lambda>e. if ?hit e then e\<lparr>we_deletedAt := Some (us_of now), we_active := False\<rparr> else e) ` set (webhookEndpoints db)"
      using that(1) unfolding eps set_map .
    then obtain e where e: "x = (if ?hit e then e\<lparr>we_deletedAt := Some (us_of now), we_active := False\<rparr> else e)"
      by (rule imageE)
    show ?thesis using that(2,3) e by (cases "?hit e") auto
  qed
  show ?thesis
    using none by (fastforce simp: findEndpointsForEvent_def listWebhookEndpointsForOrg_def order_desc_def)
qed

end
