(* ===== verification/Worker_Webhook.thy ===== *)
theory Worker_Webhook
  imports Db_Webhooks Shared_Ssrf
begin

text \<open>
  \<^verbatim>\<open>apps/worker/src/webhooks/\<close>: the fan-out of batch events (\<^verbatim>\<open>emit.ts\<close>), one delivery
  attempt (\<^verbatim>\<open>processor.ts\<close>) and the outcome mapping of the pinned transport
  (\<^verbatim>\<open>transport.ts\<close>). URL parsing, DNS, the HTTP exchange, HMAC and the queue are arguments. A
  request carries the envelope itself; its JSON text is what is signed and sent.
\<close>

section \<open>Transport\<close>

datatype post_result = Post_response int | Post_redirect int | Post_timeout | Post_network_error

datatype exchange = Exchange_status int | Exchange_aborted | Exchange_rejected

definition fetchWebhookTransport :: "string \<Rightarrow> exchange \<Rightarrow> post_result" where
  "fetchWebhookTransport connectToAddress x =
     (if isIP connectToAddress = 0 then Post_network_error
      else (case x of
              Exchange_aborted \<Rightarrow> Post_timeout
            | Exchange_rejected \<Rightarrow> Post_network_error
            | Exchange_status s \<Rightarrow> if 300 \<le> s \<and> s < 400 then Post_redirect s else Post_response s))"

section \<open>One attempt\<close>

datatype failure_category = Ssrf_blocked | Redirect_refused | Timed_out | Network_error | Http_error

fun category_text :: "failure_category \<Rightarrow> string" where
  "category_text Ssrf_blocked = ''ssrf_blocked''" | "category_text Redirect_refused = ''redirect_refused''"
| "category_text Timed_out = ''timeout''" | "category_text Network_error = ''network_error''"
| "category_text Http_error = ''http_error''"

record webhook_request =
  rq_url :: string
  rq_address :: string
  rq_event :: json
  rq_data :: json
  rq_timestamp :: time_ms
  rq_delivery_id :: uuid
  rq_signature :: string
  rq_timeoutMs :: int

record hook_world =
  hw_now :: time_ms
  hw_hostname :: "string \<Rightarrow> string option"            \<comment> \<open>\<open>new URL(url).hostname\<close>, \<open>None\<close> when it throws\<close>
  hw_resolver :: "string \<Rightarrow> string list option"
  hw_sign :: "string \<Rightarrow> json \<Rightarrow> string"
  hw_exchange :: "webhook_request \<Rightarrow> exchange"

datatype delivery_end = Not_deliverable | Attempt_delivered | Attempt_failed | Attempt_rescheduled time_ms | Invalid_url

definition payload_field :: "json \<Rightarrow> string \<Rightarrow> json" where
  "payload_field p k = (case p of JObj kvs \<Rightarrow> (case map_of kvs k of Some v \<Rightarrow> v | None \<Rightarrow> JNull) | _ \<Rightarrow> JNull)"

definition finishAttempt ::
  "hook_world \<Rightarrow> webhook_delivery \<Rightarrow> failure_category \<Rightarrow> int option \<Rightarrow> database \<Rightarrow> delivery_end \<times> database" where
  "finishAttempt w d category statusCode db =
     (let attemptNumber = wd_attempts d + 1;
          rec = \<lparr>ar_attempt = attemptNumber, ar_at = hw_now w, ar_status_code = statusCode, ar_error = Some (category_text category)\<rparr>
      in if WEBHOOK_MAX_ATTEMPTS \<le> attemptNumber then (Attempt_failed, recordDeliveryAttempt db (wd_id d) (Out_failed rec))
         else
           (let delayMs = js_at WEBHOOK_RETRY_SCHEDULE_MS (nat (attemptNumber - 1)) 0
            in (Attempt_rescheduled (hw_now w + delayMs),
                recordDeliveryAttempt db (wd_id d) (Out_retry (hw_now w + delayMs) rec))))"

definition webhook_request_for :: "hook_world \<Rightarrow> webhook_delivery \<Rightarrow> webhook_endpoint \<Rightarrow> string \<Rightarrow> webhook_request" where
  "webhook_request_for w d e address =
     (let event = payload_field (wd_payload d) ''event'';
          data = payload_field (wd_payload d) ''data'';
          envelope = JObj [(''event'', event), (''data'', data), (''timestamp'', JNum (of_int (hw_now w))),
                           (''delivery_id'', JStr (wd_id d))]
      in \<lparr>rq_url = we_url e, rq_address = address, rq_event = event, rq_data = data, rq_timestamp = hw_now w,
          rq_delivery_id = wd_id d, rq_signature = hw_sign w (we_secret e) envelope, rq_timeoutMs = WEBHOOK_TIMEOUT_MS\<rparr>)"

text \<open>The result also says which request was posted, if any.\<close>

definition processDelivery ::
  "hook_world \<Rightarrow> uuid \<Rightarrow> database \<Rightarrow> delivery_end \<times> webhook_request option \<times> database" where
  "processDelivery w deliveryId db =
     (case getDeliveryForProcessing db deliveryId of
        None \<Rightarrow> (Not_deliverable, None, db)
      | Some (d, e) \<Rightarrow>
          (let unposted = (\<lambda>(r, db'). (r, None, db'))
           in case hw_hostname w (we_url e) of
                None \<Rightarrow> (Invalid_url, None, db)
              | Some hostname \<Rightarrow>
                  (case checkWebhookHost hostname (hw_resolver w) of
                     SsrfOk addresses \<Rightarrow>
                       (case js_get_index addresses 0 of
                          None \<Rightarrow> unposted (finishAttempt w d Ssrf_blocked None db)
                        | Some address \<Rightarrow>
                            (let request = webhook_request_for w d e address;
                                 posted = (\<lambda>(r, db'). (r, Some request, db'))
                             in case fetchWebhookTransport address (hw_exchange w request) of
                                  Post_response s \<Rightarrow>
                                    if 200 \<le> s \<and> s < 300
                                    then (Attempt_delivered, Some request, recordDeliveryAttempt db (wd_id d)
                                           (Out_delivered \<lparr>ar_attempt = wd_attempts d + 1, ar_at = hw_now w,
                                              ar_status_code = Some s, ar_error = None\<rparr>))
                                    else posted (finishAttempt w d Http_error (Some s) db)
                                | Post_redirect s \<Rightarrow> posted (finishAttempt w d Redirect_refused (Some s) db)
                                | Post_timeout \<Rightarrow> posted (finishAttempt w d Timed_out None db)
                                | Post_network_error \<Rightarrow> posted (finishAttempt w d Network_error None db)))
                   | _ \<Rightarrow> unposted (finishAttempt w d Ssrf_blocked None db))))"

section \<open>Fan-out\<close>

text \<open>One delivery row and one job per subscribed endpoint; \<open>ids\<close> supplies the generated ids and
  \<open>enqueue_ok\<close> says which publications succeed. A raised error keeps the rows already written.\<close>

fun emit_loop ::
  "time_us \<Rightarrow> time_ms \<Rightarrow> string \<Rightarrow> json \<Rightarrow> (uuid \<Rightarrow> bool) \<Rightarrow> (uuid \<times> uuid) list \<Rightarrow> database \<times> uuid list
     \<Rightarrow> db_error option \<times> database \<times> uuid list" where
  "emit_loop dbnow expiresAt event data enqueue_ok [] (db, jobs) = (None, db, jobs)"
| "emit_loop dbnow expiresAt event data enqueue_ok ((endpointId, deliveryId) # rest) (db, jobs) =
     (case createWebhookDelivery dbnow db \<lparr>nd_id = deliveryId, nd_endpointId = endpointId, nd_eventType = event,
             nd_payload = JObj [(''event'', JStr event), (''data'', data)], nd_expiresAt = expiresAt\<rparr> of
        Inl err \<Rightarrow> (Some err, db, jobs)
      | Inr db' \<Rightarrow>
          emit_loop dbnow expiresAt event data enqueue_ok rest
            (db', if enqueue_ok deliveryId then jobs @ [deliveryId] else jobs))"

definition emitBatchWebhookEvent ::
  "time_us \<Rightarrow> time_ms \<Rightarrow> (nat \<Rightarrow> uuid) \<Rightarrow> (uuid \<Rightarrow> bool) \<Rightarrow> uuid \<Rightarrow> string \<Rightarrow> json \<Rightarrow> int \<Rightarrow> database
     \<Rightarrow> db_error option \<times> database \<times> uuid list" where
  "emitBatchWebhookEvent dbnow now ids enqueue_ok orgId event data retentionDays db =
     (let endpoints = findEndpointsForEvent db orgId event
      in if endpoints = [] then (None, db, [])
         else emit_loop dbnow (now + retentionDays * 24 * 60 * 60 * 1000) event data enqueue_ok
                (zip endpoints (map ids [0 ..< length endpoints])) (db, []))"

section \<open>Specification\<close>

text \<open>A delivery as its contract describes it: it waits after some failed attempts, has succeeded
  after some attempt, or has used up all six.\<close>

datatype delivery_phase = Waiting nat | Succeeded nat | Exhausted

fun phase_step :: "bool \<Rightarrow> delivery_phase \<Rightarrow> delivery_phase" where
  "phase_step success (Waiting n) = (if success then Succeeded (n + 1) else if n + 1 < 6 then Waiting (n + 1) else Exhausted)"
| "phase_step success p = p"

definition phase_of :: "webhook_delivery \<Rightarrow> delivery_phase" where
  "phase_of d =
     (case wd_status d of
        Delivery_pending \<Rightarrow> Waiting (nat (wd_attempts d))
      | Delivery_delivered \<Rightarrow> Succeeded (nat (wd_attempts d))
      | Delivery_failed \<Rightarrow> Exhausted)"

text \<open>The history a row must tell: attempts numbered from one, all but a final success carrying an
  error, at most six, and as many as the phase says.\<close>

definition delivery_ok :: "webhook_delivery \<Rightarrow> bool" where
  "delivery_ok d =
     (let log = wd_attemptLog d; n = length log
      in wd_attempts d = int n \<and> map ar_attempt log = map int [1 ..< n + 1] \<and> n \<le> 6
         \<and> (\<forall>r \<in> set (butlast log). ar_error r \<noteq> None)
         \<and> (case wd_status d of
              Delivery_pending \<Rightarrow> n \<le> 5 \<and> (\<forall>r \<in> set log. ar_error r \<noteq> None)
            | Delivery_delivered \<Rightarrow> log \<noteq> [] \<and> ar_error (last log) = None
            | Delivery_failed \<Rightarrow> n = 6 \<and> (\<forall>r \<in> set log. ar_error r \<noteq> None)))"

section \<open>Lemmas\<close>

lemma processDelivery_cases:
  assumes "processDelivery w i db = (res, req, db')"
  obtains (quiet) "db' = db" "req = None" "res \<in> {Not_deliverable, Invalid_url}"
    "getDeliveryForProcessing db i = None \<longleftrightarrow> res = Not_deliverable"
  | (success) d e r where "getDeliveryForProcessing db i = Some (d, e)" "res = Attempt_delivered"
    "db' = recordDeliveryAttempt db i (Out_delivered r)" "ar_attempt r = wd_attempts d + 1" "ar_error r = None"
  | (failure) d e category code where "getDeliveryForProcessing db i = Some (d, e)"
    "finishAttempt w d category code db = (res, db')"
proof (cases "getDeliveryForProcessing db i")
  case None
  then show ?thesis using assms quiet by (auto simp: processDelivery_def)
next
  case (Some p)
  obtain d e where p: "p = (d, e)" by (cases p)
  have i: "wd_id d = i" using getDelivery_Some(2) Some p by simp
  show ?thesis
  proof (cases "hw_hostname w (we_url e)")
    case None
    then show ?thesis using assms Some p quiet by (auto simp: processDelivery_def)
  next
    case (Some h)
    note here = \<open>getDeliveryForProcessing db i = Some p\<close> p Some
    show ?thesis
    proof (cases "\<exists>as a. checkWebhookHost h (hw_resolver w) = SsrfOk as \<and> js_get_index as 0 = Some a")
      case False
      have "finishAttempt w d Ssrf_blocked None db = (res, db')"
        using assms here False
        by (auto simp: processDelivery_def Let_def split: ssrf_check.splits option.splits prod.splits)
      then show ?thesis using failure here by blast
    next
      case True
      then obtain as a where a: "checkWebhookHost h (hw_resolver w) = SsrfOk as" "js_get_index as 0 = Some a" by blast
      let ?x = "fetchWebhookTransport a (hw_exchange w (webhook_request_for w d e a))"
      show ?thesis
      proof (cases "\<exists>s. ?x = Post_response s \<and> 200 \<le> s \<and> s < 300")
        case True
        then obtain s where s: "?x = Post_response s" "200 \<le> s \<and> s < 300" by blast
        have r: "res = Attempt_delivered" "db' = recordDeliveryAttempt db i
            (Out_delivered \<lparr>ar_attempt = wd_attempts d + 1, ar_at = hw_now w, ar_status_code = Some s, ar_error = None\<rparr>)"
          using assms here a s i by (auto simp: processDelivery_def Let_def)
        show ?thesis by (rule success [OF _ r]) (simp_all add: here)
      next
        case False
        have "\<exists>category code. finishAttempt w d category code db = (res, db')"
          using assms here a False
          by (auto simp: processDelivery_def Let_def split: post_result.splits prod.splits if_splits)
        then show ?thesis using failure here by blast
      qed
    qed
  qed
qed

lemma delivered_ok:
  assumes "delivery_ok d" "wd_status d = Delivery_pending" "ar_attempt r = wd_attempts d + 1" "ar_error r = None"
  shows "delivery_ok (delivery_attempted (Out_delivered r) d)"
  using assms by (auto simp: delivery_ok_def delivery_attempted_def Let_def)

lemma failed_ok:
  assumes "delivery_ok d" "wd_status d = Delivery_pending" "ar_attempt r = wd_attempts d + 1" "ar_error r \<noteq> None"
  shows "wd_attempts d = 5 \<Longrightarrow> delivery_ok (delivery_attempted (Out_failed r) d)"
    and "wd_attempts d < 5 \<Longrightarrow> delivery_ok (delivery_attempted (Out_retry t r) d)"
  using assms by (auto simp: delivery_ok_def delivery_attempted_def Let_def upt_conv_Cons)

lemma pending_attempts: "delivery_ok d \<Longrightarrow> wd_status d = Delivery_pending \<Longrightarrow> 0 \<le> wd_attempts d \<and> wd_attempts d \<le> 5"
  by (auto simp: delivery_ok_def Let_def)

text \<open>What a failed attempt writes, and that it keeps the row in order.\<close>

lemma finishAttempt_ok:
  assumes "finishAttempt w d category code db = (res, db')" "delivery_ok d" "wd_status d = Delivery_pending"
  obtains out where "db' = recordDeliveryAttempt db (wd_id d) out" "delivery_ok (delivery_attempted out d)"
    "phase_of (delivery_attempted out d) = phase_step False (phase_of d)"
    "res = (if wd_attempts d = 5 then Attempt_failed
            else Attempt_rescheduled (hw_now w + WEBHOOK_RETRY_SCHEDULE_MS ! nat (wd_attempts d)))"
proof -
  define r where "r = \<lparr>ar_attempt = wd_attempts d + 1, ar_at = hw_now w, ar_status_code = code,
      ar_error = Some (category_text category)\<rparr>"
  have r: "ar_attempt r = wd_attempts d + 1" "ar_error r \<noteq> None" by (simp_all add: r_def)
  note range = pending_attempts [OF assms(2,3)]
  show ?thesis
  proof (cases "wd_attempts d = 5")
    case True
    show ?thesis
      by (rule that [of "Out_failed r"])
         (use assms True failed_ok(1) [OF assms(2,3) r] in
          \<open>auto simp: finishAttempt_def r_def WEBHOOK_MAX_ATTEMPTS_def WEBHOOK_RETRY_SCHEDULE_MS_def Let_def
            phase_of_def delivery_attempted_def\<close>)
  next
    case False
    then have lt: "wd_attempts d < 5" using range by simp
    define delay where "delay = WEBHOOK_RETRY_SCHEDULE_MS ! nat (wd_attempts d)"
    have fin: "res = Attempt_rescheduled (hw_now w + delay)"
        "db' = recordDeliveryAttempt db (wd_id d) (Out_retry (hw_now w + delay) r)"
      using assms(1) lt range
      by (auto simp: finishAttempt_def r_def delay_def WEBHOOK_MAX_ATTEMPTS_def WEBHOOK_RETRY_SCHEDULE_MS_def Let_def js_at_def)
    have ph: "phase_of (delivery_attempted (Out_retry (hw_now w + delay) r) d) = phase_step False (phase_of d)"
      using assms(3) lt range by (auto simp: phase_of_def delivery_attempted_def Let_def nat_add_distrib)
    show ?thesis
      by (rule that [OF fin(2) failed_ok(2) [OF assms(2,3) r lt] ph]) (use False fin in \<open>simp add: delay_def\<close>)
  qed
qed

definition hook_inv :: "database \<Rightarrow> bool" where
  "hook_inv db = (distinct (map wd_id (webhookDeliveries db)) \<and> (\<forall>d \<in> set (webhookDeliveries db). delivery_ok d))"

lemma record_inv:
  assumes "hook_inv db" "d \<in> set (webhookDeliveries db)" "delivery_ok (delivery_attempted out d)"
  shows "hook_inv (recordDeliveryAttempt db (wd_id d) out)"
proof -
  have "map wd_id (webhookDeliveries (recordDeliveryAttempt db (wd_id d) out)) = map wd_id (webhookDeliveries db)"
    by (simp add: recordDeliveryAttempt_def)
  moreover have "delivery_ok d'" if "d' \<in> set (webhookDeliveries (recordDeliveryAttempt db (wd_id d) out))" for d'
    using that
  proof (cases rule: recordDeliveryAttempt_mem)
    case (1 c)
    then have "c = d" using assms(1,2) by (auto simp: hook_inv_def distinct_map dest: inj_onD)
    then show ?thesis using 1 assms(3) by simp
  next
    case 2
    then show ?thesis using assms(1) by (simp add: hook_inv_def)
  qed
  ultimately show ?thesis using assms(1) by (simp add: hook_inv_def)
qed

lemma process_inv:
  assumes "processDelivery w i db = (res, req, db')" "hook_inv db"
  shows "hook_inv db'"
  using assms(1)
proof (cases rule: processDelivery_cases)
  case quiet
  then show ?thesis using assms(2) by simp
next
  case (success d e r)
  note g = getDelivery_Some [OF success(1)]
  have "delivery_ok d" using assms(2) g(1) by (simp add: hook_inv_def)
  then show ?thesis
    using record_inv [OF assms(2) g(1) delivered_ok [OF _ g(3) success(4,5)]] success(3) g(2) by simp
next
  case (failure d e category code)
  note g = getDelivery_Some [OF failure(1)]
  have ok: "delivery_ok d" using assms(2) g(1) by (simp add: hook_inv_def)
  obtain out where "db' = recordDeliveryAttempt db (wd_id d) out" "delivery_ok (delivery_attempted out d)"
    using finishAttempt_ok [OF failure(2) ok g(3)] by blast
  then show ?thesis using record_inv [OF assms(2) g(1)] by simp
qed

lemma create_inv:
  assumes "createWebhookDelivery n db input = Inr db'" "hook_inv db"
  shows "hook_inv db'"
proof -
  obtain row where row: "webhookDeliveries db' = webhookDeliveries db @ [row]" "wd_id row \<notin> wd_id ` set (webhookDeliveries db)"
    "wd_status row = Delivery_pending" "wd_attempts row = 0" "wd_attemptLog row = []"
    using assms(1) by (auto simp: createWebhookDelivery_def split: if_splits)
  have "delivery_ok row" using row(3-5) by (simp add: delivery_ok_def)
  then show ?thesis using assms(2) row(1,2) by (auto simp: hook_inv_def)
qed

lemma emit_loop_inv:
  "emit_loop n x ev da q ps (db, jobs) = (err, db', jobs') \<Longrightarrow> hook_inv db \<Longrightarrow> hook_inv db'"
proof (induction ps arbitrary: db jobs)
  case (Cons p ps)
  obtain ep did where p: "p = (ep, did)" by (cases p)
  show ?case
  proof (cases "createWebhookDelivery n db \<lparr>nd_id = did, nd_endpointId = ep, nd_eventType = ev,
             nd_payload = JObj [(''event'', JStr ev), (''data'', da)], nd_expiresAt = x\<rparr>")
    case (Inl e)
    then show ?thesis using Cons.prems p by simp
  next
    case (Inr db1)
    have "hook_inv db1" by (rule create_inv [OF Inr Cons.prems(2)])
    then show ?thesis using Cons.IH Cons.prems(1) p Inr by simp
  qed
qed simp


section \<open>Runs\<close>

text \<open>One step of the system as the delivery table sees it: an attempt, a fan-out, or any operation
  that at most removes delivery rows (endpoint changes, purges, everything on other tables).\<close>

inductive hook_step :: "database \<Rightarrow> database \<Rightarrow> bool" where
  attempt: "processDelivery w i db = (res, req, db') \<Longrightarrow> hook_step db db'"
| fan_out: "emitBatchWebhookEvent n t ids q o' ev da ret db = (err, db', jobs) \<Longrightarrow> hook_step db db'"
| elsewhere: "webhookDeliveries db' = filter P (webhookDeliveries db) \<Longrightarrow> hook_step db db'"

lemma hook_step_inv: "hook_step db db' \<Longrightarrow> hook_inv db \<Longrightarrow> hook_inv db'"
proof (induction rule: hook_step.induct)
  case (attempt w i db res req db')
  then show ?case by (rule process_inv)
next
  case (fan_out n t ids q o' ev da ret db err db' jobs)
  then show ?case by (auto simp: emitBatchWebhookEvent_def Let_def split: if_splits intro: emit_loop_inv)
next
  case (elsewhere db' P db)
  then show ?case by (auto simp: hook_inv_def distinct_map_filter)
qed

lemma hook_run_inv: "hook_step\<^sup>*\<^sup>* db db' \<Longrightarrow> hook_inv db \<Longrightarrow> hook_inv db'"
  by (induction rule: rtranclp_induct) (auto intro: hook_step_inv)

text \<open>C19: The delivery log is a true history in every reachable state. Starting without deliveries
  and running any sequence of attempts, fan-outs and deletions, every delivery has at most six
  attempts, its log has one record per attempt, numbered from one, every record but a final
  success carries an error, a failed delivery used all six and a pending one at most five.\<close>

theorem delivery_history:
  assumes "webhookDeliveries db0 = []" "hook_step\<^sup>*\<^sup>* db0 db" "d \<in> set (webhookDeliveries db)"
  shows "delivery_ok d"
proof -
  have "hook_inv db0" using assms(1) by (simp add: hook_inv_def)
  from hook_run_inv [OF assms(2) this] assms(3) show ?thesis by (simp add: hook_inv_def)
qed

lemma delivery_row_after:
  assumes "hook_inv db" "d \<in> set (webhookDeliveries db)"
  shows "find (\<lambda>x. wd_id x = wd_id d) (webhookDeliveries (recordDeliveryAttempt db (wd_id d) out)) = Some (delivery_attempted out d)"
proof -
  have dist: "distinct (map wd_id (webhookDeliveries db))" using assms(1) by (simp add: hook_inv_def)
  have "find (\<lambda>x. wd_id x = wd_id d) (map (\<lambda>x. if wd_id x = wd_id d then delivery_attempted out x else x) ds) = Some (delivery_attempted out d)"
    if "distinct (map wd_id ds)" "d \<in> set ds" for ds
    using that
  proof (induction ds)
    case (Cons c cs)
    show ?case
    proof (cases "c = d")
      case False
      then have "wd_id c \<noteq> wd_id d" "d \<in> set cs" using Cons.prems by (auto simp: image_iff)
      then show ?thesis using Cons.IH Cons.prems(1) by simp
    qed simp
  qed simp
  then show ?thesis using dist assms(2) by (simp add: recordDeliveryAttempt_def)
qed

lemma find_distinct: "distinct (map key xs) \<Longrightarrow> d \<in> set xs \<Longrightarrow> find (\<lambda>x. key x = key d) xs = Some d"
  by (induction xs) (auto simp: image_iff)

definition delivery_phase_in :: "database \<Rightarrow> uuid \<Rightarrow> delivery_phase option" where
  "delivery_phase_in db i = map_option phase_of (find (\<lambda>x. wd_id x = i) (webhookDeliveries db))"

text \<open>C18: A delivery attempt implements the abstract retry machine. A run that finds nothing to
  deliver changes nothing; any other attempt moves the delivery's phase exactly as the machine
  does on success or failure, and after the n-th failure the next attempt is scheduled after the
  n-th delay of 1 min, 5 min, 30 min, 2 h and 6 h, until the sixth failure ends it.\<close>

theorem delivery_refines_phases:
  assumes "hook_inv db" "processDelivery w i db = (res, req, db')"
  shows "(if res \<in> {Not_deliverable, Invalid_url} then db' = db
      else \<exists>p. delivery_phase_in db i = Some p
        \<and> delivery_phase_in db' i = Some (phase_step (res = Attempt_delivered) p)
        \<and> (\<forall>n. p = Waiting n \<and> res \<noteq> Attempt_delivered \<longrightarrow>
             res = (if n = 5 then Attempt_failed
                    else Attempt_rescheduled (hw_now w + [60000, 300000, 1800000, 7200000, 21600000] ! n))))"
  using assms(2)
proof (cases rule: processDelivery_cases)
  case quiet
  then show ?thesis by auto
next
  case (success d e r)
  note g = getDelivery_Some [OF success(1)]
  have range: "0 \<le> wd_attempts d"
    using pending_attempts [of d] g(1,3) assms(1) by (simp add: hook_inv_def)
  have "delivery_phase_in db' i = Some (phase_step True (phase_of d))"
    using delivery_row_after [OF assms(1) g(1)] success(3) g(2,3) range
    by (simp add: delivery_phase_in_def phase_of_def delivery_attempted_def Let_def nat_add_distrib)
  moreover have "delivery_phase_in db i = Some (phase_of d)"
    using find_distinct [of wd_id "webhookDeliveries db" d] g(1,2) assms(1) by (simp add: delivery_phase_in_def hook_inv_def)
  ultimately show ?thesis using success(2) by simp
next
  case (failure d e category code)
  note g = getDelivery_Some [OF failure(1)]
  have ok: "delivery_ok d" using assms(1) g(1) by (simp add: hook_inv_def)
  obtain out where out: "db' = recordDeliveryAttempt db (wd_id d) out"
    "phase_of (delivery_attempted out d) = phase_step False (phase_of d)"
    and res: "res = (if wd_attempts d = 5 then Attempt_failed
            else Attempt_rescheduled (hw_now w + WEBHOOK_RETRY_SCHEDULE_MS ! nat (wd_attempts d)))"
    using finishAttempt_ok [OF failure(2) ok g(3)] by blast
  have after: "delivery_phase_in db' i = Some (phase_step False (phase_of d))"
    using delivery_row_after [OF assms(1) g(1)] out g(2) by (simp add: delivery_phase_in_def)
  have before: "delivery_phase_in db i = Some (phase_of d)"
    using find_distinct [of wd_id "webhookDeliveries db" d] g(1,2) assms(1) by (simp add: delivery_phase_in_def hook_inv_def)
  have "nat (wd_attempts d) = 5 \<longleftrightarrow> wd_attempts d = 5" using pending_attempts [OF ok g(3)] by linarith
  then show ?thesis
    using res after before g(3) by (auto simp: phase_of_def WEBHOOK_RETRY_SCHEDULE_MS_def)
qed



section \<open>A concrete delivery\<close>

definition demo_endpoint :: webhook_endpoint where
  "demo_endpoint = \<lparr>we_id = ''e-1'', we_orgId = ''org-1'', we_url = ''https://a.uz/hook'', we_secret = ''s'',
     we_events = [''batch.completed''], we_active = True, we_createdAt = 0, we_deletedAt = None\<rparr>"

definition demo_hook_db :: database where
  "demo_hook_db = (demo_db 5)\<lparr>webhookEndpoints := [demo_endpoint]\<rparr>"

definition demo_hook_world :: "int \<Rightarrow> hook_world" where
  "demo_hook_world status = \<lparr>hw_now = 1000, hw_hostname = (\<lambda>_. Some ''93.184.216.34''), hw_resolver = (\<lambda>_. None),
     hw_sign = (\<lambda>_ _. ''sig''), hw_exchange = (\<lambda>_. Exchange_status status)\<rparr>"

definition demo_emitted :: database where
  "demo_emitted = fst (snd (emitBatchWebhookEvent 0 0 (\<lambda>n. ''d-1'') (\<lambda>_. True) ''org-1'' ''batch.completed'' JNull 30 demo_hook_db))"

definition demo_attempted :: "int \<Rightarrow> delivery_end \<times> webhook_request option \<times> database" where
  "demo_attempted status = processDelivery (demo_hook_world status) ''d-1'' demo_emitted"

lemma demo_emitted_step: "hook_step demo_hook_db demo_emitted"
proof (rule hook_step.fan_out)
  show "emitBatchWebhookEvent 0 0 (\<lambda>n. ''d-1'') (\<lambda>_. True) ''org-1'' ''batch.completed'' JNull 30 demo_hook_db
    = (fst (emitBatchWebhookEvent 0 0 (\<lambda>n. ''d-1'') (\<lambda>_. True) ''org-1'' ''batch.completed'' JNull 30 demo_hook_db), demo_emitted,
       snd (snd (emitBatchWebhookEvent 0 0 (\<lambda>n. ''d-1'') (\<lambda>_. True) ''org-1'' ''batch.completed'' JNull 30 demo_hook_db)))"
    by (simp add: demo_emitted_def)
qed

lemma demo_start: "webhookDeliveries demo_hook_db = []"
  by (simp add: demo_hook_db_def demo_db_def empty_db_def)

lemma demo_emitted_inv: "hook_inv demo_emitted"
  by (rule hook_step_inv [OF demo_emitted_step]) (simp add: hook_inv_def demo_start)

lemma demo_attempted_split:
  "processDelivery (demo_hook_world st) ''d-1'' demo_emitted
     = (fst (demo_attempted st), fst (snd (demo_attempted st)), snd (snd (demo_attempted st)))"
  by (simp add: demo_attempted_def)

theorem delivery_history_witness: "delivery_ok (hd (webhookDeliveries (snd (snd (demo_attempted 500)))))"
proof -
  have "length (webhookDeliveries (snd (snd (demo_attempted 500)))) = 1" by code_simp
  then have m: "hd (webhookDeliveries (snd (snd (demo_attempted 500)))) \<in> set (webhookDeliveries (snd (snd (demo_attempted 500))))"
    by (intro hd_in_set) auto
  have "hook_step demo_emitted (snd (snd (demo_attempted 500)))" by (rule hook_step.attempt [OF demo_attempted_split])
  then have "hook_step\<^sup>*\<^sup>* demo_hook_db (snd (snd (demo_attempted 500)))" using demo_emitted_step by auto
  from delivery_history [OF demo_start this m] show ?thesis .
qed

theorem delivery_refines_phases_witness:
  "delivery_phase_in (snd (snd (demo_attempted 500))) ''d-1'' = Some (Waiting 1)
   \<and> fst (demo_attempted 500) = Attempt_rescheduled 61000"
proof -
  have r: "fst (demo_attempted 500) = Attempt_rescheduled 61000" by code_simp
  have p: "delivery_phase_in demo_emitted ''d-1'' = Some (Waiting 0)" by code_simp
  show ?thesis
    using delivery_refines_phases [OF demo_emitted_inv demo_attempted_split [of 500]] r p by auto
qed


end
