(* ===== verification/Worker_Sweep.thy ===== *)
theory Worker_Sweep
  imports Shared_Storage Db_Lifecycle
begin

text \<open>
  \<^verbatim>\<open>apps/worker/src/lifecycle/processor.ts\<close>: the hourly retention sweep over the database
  and the object storage. A run carries the pair of both states; a raised error keeps the state
  reached so far, because the sweep is not one transaction. The clock and the identifiers of the
  audit events are fields of \<open>sweep_env\<close>. The sweep is modelled as running alone.
\<close>

definition EXPORT_OBJECT_TTL_MS :: int where "EXPORT_OBJECT_TTL_MS = 24 * 60 * 60 * 1000"

record sweep_env =
  sw_now :: time_ms
  sw_batchPageSize :: nat
  sw_purge_now :: "uuid \<Rightarrow> time_us"
  sw_purge_audit :: "uuid \<Rightarrow> uuid"
  sw_ledger_now :: time_us
  sw_audit_now :: time_us
  sw_audit_id :: uuid

record lifecycle_run_counts =
  lc_email_checks :: nat
  lc_phone_checks :: nat
  lc_batches :: nat
  lc_batch_objects :: nat
  lc_orgs_purged :: nat
  lc_org_objects :: nat
  lc_leads :: nat
  lc_export_objects :: nat
  lc_ledger_entries :: nat
  lc_orgs_removed :: nat

definition target_keys :: "batch_purge_target list \<Rightarrow> string list" where
  "target_keys expired =
     concat (map (\<lambda>t. case bt_resultObjectKey t of
        None \<Rightarrow> [bt_inputObjectKey t]
      | Some k \<Rightarrow> [bt_inputObjectKey t, k]) expired)"

lemma listExpiredBatches_shrinks:
  assumes "listExpiredBatches db now n \<noteq> []"
  shows "length (batches (snd (deleteBatchesByIds db (map bt_id (listExpiredBatches db now n))))) < length (batches db)"
proof -
  obtain t where t: "t \<in> set (listExpiredBatches db now n)" using assms by (cases "listExpiredBatches db now n") auto
  then obtain b where b: "b \<in> set (batches db)" "bt_id t = b_id b"
    by (auto simp: listExpiredBatches_def dest!: in_set_takeD)
  have "length (filter (\<lambda>b. b_id b \<notin> set (map bt_id (listExpiredBatches db now n))) (batches db)) < length (batches db)"
    by (rule length_filter_less [OF b(1)]) (use t b(2) in force)
  with assms show ?thesis by (simp add: deleteBatchesByIds_def)
qed

text \<open>Step 2: expired batches are drained page by page, the objects of a page before its rows.\<close>

function drain_batches ::
  "'s s3 \<Rightarrow> time_ms \<Rightarrow> nat \<Rightarrow> database \<Rightarrow> 's \<Rightarrow> nat \<times> nat \<Rightarrow> (db_error + nat \<times> nat) \<times> database \<times> 's" where
  "drain_batches client now pageSize db st counts =
     (let expired = listExpiredBatches db now pageSize
      in if expired = [] then (Inr counts, db, st)
         else
           (let keys = target_keys expired;
                (r, st1) = deleteObjects client keys st
            in case r of
                 Inl e \<Rightarrow> (Inl e, db, st1)
               | Inr _ \<Rightarrow>
                   (let removed = deleteBatchesByIds db (map bt_id expired)
                    in drain_batches client now pageSize (snd removed) st1
                         (fst counts + fst removed, snd counts + length keys))))"
  by pat_completeness auto
termination
  by (relation "measure (\<lambda>(_, _, _, db, _, _). length (batches db))") (simp_all add: listExpiredBatches_shrinks)

declare drain_batches.simps [simp del]

text \<open>Step 3: organisations past the grace period. The prefix is emptied and listed again before the
  rows go.\<close>

fun purge_orgs ::
  "'s s3 \<Rightarrow> sweep_env \<Rightarrow> uuid list \<Rightarrow> database \<Rightarrow> 's \<Rightarrow> nat \<times> nat
     \<Rightarrow> ((db_error + nat \<times> nat) \<times> database \<times> 's) option" where
  "purge_orgs client env [] db st counts = Some (Inr counts, db, st)"
| "purge_orgs client env (org # orgs) db st counts =
     Option.bind (listKeys client (orgObjectPrefix org) st) (\<lambda>listed.
       case listed of
         Inl e \<Rightarrow> Some (Inl e, db, st)
       | Inr keys \<Rightarrow>
           (let (r, st1) = (if 0 < length keys then deleteObjects client keys st else (Inr (), st))
            in case r of
                 Inl e \<Rightarrow> Some (Inl e, db, st1)
               | Inr _ \<Rightarrow>
                   Option.bind (listKeys client (orgObjectPrefix org) st1) (\<lambda>again.
                     case again of
                       Inl e \<Rightarrow> Some (Inl e, db, st1)
                     | Inr remaining \<Rightarrow>
                         if 0 < length remaining then Some (Inl (Thrown STORAGE_DELETE_FAILED), db, st1)
                         else
                           (case hardDeleteOrganizationData (sw_purge_now env org) (sw_purge_audit env org) db org (sw_now env) of
                              Inl e \<Rightarrow> Some (Inl e, db, st1)
                            | Inr (_, db1) \<Rightarrow>
                                purge_orgs client env orgs db1 st1 (fst counts + 1, snd counts + length keys)))))"

definition stale_export :: "time_ms \<Rightarrow> string \<Rightarrow> bool" where
  "stale_export now key =
     (case exportKeyCreatedAtMs key of
        None \<Rightarrow> False
      | Some createdAtMs \<Rightarrow> EXPORT_OBJECT_TTL_MS < now - createdAtMs)"

text \<open>Step 5: export archives older than the lifetime of their link.\<close>

definition purge_exports :: "'s s3 \<Rightarrow> time_ms \<Rightarrow> 's \<Rightarrow> ((db_error + nat) \<times> 's) option" where
  "purge_exports client now st =
     Option.bind (listKeys client ''org/'' st) (\<lambda>listed.
       case listed of
         Inl e \<Rightarrow> Some (Inl e, st)
       | Inr allKeys \<Rightarrow>
           (let staleExports = filter (stale_export now) allKeys;
                (r, st1) = (if 0 < length staleExports then deleteObjects client staleExports st else (Inr (), st))
            in Some (map_sum id (\<lambda>_. length staleExports) r, st1)))"

definition counts_json :: "lifecycle_run_counts \<Rightarrow> json" where
  "counts_json c =
     JObj [(''email_checks'', json_count (lc_email_checks c)), (''phone_checks'', json_count (lc_phone_checks c)),
       (''batches'', json_count (lc_batches c)), (''batch_objects'', json_count (lc_batch_objects c)),
       (''orgs_purged'', json_count (lc_orgs_purged c)), (''org_objects'', json_count (lc_org_objects c)),
       (''leads'', json_count (lc_leads c)), (''export_objects'', json_count (lc_export_objects c)),
       (''ledger_entries'', json_count (lc_ledger_entries c)), (''orgs_removed'', json_count (lc_orgs_removed c))]"

definition sweep_audit :: "lifecycle_run_counts \<Rightarrow> audit_event_input" where
  "sweep_audit c =
     \<lparr>ai_orgId = None, ai_actorUserId = None, ai_actorApiKeyId = None, ai_action = ''lifecycle.sweep'',
      ai_targetType = ''system'', ai_targetId = ''retention-sweep'', ai_metadata = Some (counts_json c)\<rparr>"

text \<open>Step 6 and the audit event of a completed run.\<close>

definition finish_sweep ::
  "sweep_env \<Rightarrow> lifecycle_run_counts \<Rightarrow> database \<Rightarrow> (db_error + lifecycle_run_counts) \<times> database" where
  "finish_sweep env c db =
     (case purgeExpiredLedgerEntries (sw_ledger_now env) db (sw_now env) of
        Inl e \<Rightarrow> (Inl e, db)
      | Inr (ledgerEntries, db1) \<Rightarrow>
          (let (orgsRemoved, db2) = deleteRetiredOrganizations db1;
               counts = c\<lparr>lc_ledger_entries := ledgerEntries, lc_orgs_removed := orgsRemoved\<rparr>
           in case recordAuditEvent (sw_audit_now env) (sw_audit_id env) db2 (sweep_audit counts) (sw_now env) of
                Inl e \<Rightarrow> (Inl e, db2)
              | Inr db3 \<Rightarrow> (Inr counts, db3)))"

definition runLifecycleSweep ::
  "'s s3 \<Rightarrow> sweep_env \<Rightarrow> database \<Rightarrow> 's \<Rightarrow> ((db_error + lifecycle_run_counts) \<times> database \<times> 's) option" where
  "runLifecycleSweep client env db0 st0 =
     (let now = sw_now env;
          ((emails, phones), db1) = purgeExpiredChecks db0 now;
          (drained, db2, st1) = drain_batches client now (sw_batchPageSize env) db1 st0 (0, 0)
      in case drained of
           Inl e \<Rightarrow> Some (Inl e, db2, st1)
         | Inr (batchRowsDeleted, batchObjects) \<Rightarrow>
             Option.bind (purge_orgs client env (listOrganizationsDueForPurge db2 now ORG_PURGE_GRACE_DAYS) db2 st1 (0, 0))
               (\<lambda>(purged, db3, st2). case purged of
                  Inl e \<Rightarrow> Some (Inl e, db3, st2)
                | Inr (orgsPurged, orgObjects) \<Rightarrow>
                    (let (leadsRemoved, db4) = purgeExpiredLeads db3 now
                     in Option.bind (purge_exports client now st2)
                          (\<lambda>(exports, st3). case exports of
                             Inl e \<Rightarrow> Some (Inl e, db4, st3)
                           | Inr exportObjects \<Rightarrow>
                               (let (r, db5) = finish_sweep env
                                      \<lparr>lc_email_checks = emails, lc_phone_checks = phones,
                                       lc_batches = batchRowsDeleted, lc_batch_objects = batchObjects,
                                       lc_orgs_purged = orgsPurged, lc_org_objects = orgObjects, lc_leads = leadsRemoved,
                                       lc_export_objects = exportObjects, lc_ledger_entries = 0, lc_orgs_removed = 0\<rparr> db4
                                in Some (r, db5, st3))))))"

section \<open>What the sweep may touch\<close>

text \<open>The objects a batch row tracks, and the rows the code creates: keys built from the row's
  identifiers, identifiers unique, and no batch left to an organisation that was purged.\<close>

definition row_objects :: "batch \<Rightarrow> string set" where
  "row_objects b = insert (b_inputObjectKey b) (set_option (b_resultObjectKey b))"

definition tracked :: "database \<Rightarrow> string \<Rightarrow> bool" where
  "tracked db k = (\<exists>b \<in> set (batches db). k \<in> row_objects b)"

definition batch_row_ok :: "batch \<Rightarrow> bool" where
  "batch_row_ok b =
     (uuid_like (b_orgId b) \<and> uuid_like (b_id b) \<and> b_inputObjectKey b = batchInputKey (b_orgId b) (b_id b)
      \<and> b_resultObjectKey b \<in> {None, Some (batchResultKey (b_orgId b) (b_id b))})"

definition rows_ok :: "database \<Rightarrow> bool" where
  "rows_ok db =
     ((\<forall>b \<in> set (batches db). batch_row_ok b) \<and> distinct (map b_id (batches db))
      \<and> (\<forall>o' \<in> set (organizations db). uuid_like (o_id o')
           \<and> (o_purgedAt o' \<noteq> None \<longrightarrow> (\<forall>b \<in> set (batches db). b_orgId b \<noteq> o_id o'))))"

definition spared :: "time_ms \<Rightarrow> uuid list \<Rightarrow> batch \<Rightarrow> bool" where
  "spared now due b = (us_of now < b_expiresAt b \<and> b_orgId b \<notin> set due)"

text \<open>A step of the sweep is sound: it creates no object, an object that is left is tracked if it
  was, and rows that are neither expired nor of a due organisation keep row and objects.\<close>

definition sound_step ::
  "('s \<Rightarrow> string set) \<Rightarrow> time_ms \<Rightarrow> uuid list \<Rightarrow> database \<Rightarrow> 's \<Rightarrow> database \<Rightarrow> 's \<Rightarrow> bool" where
  "sound_step objects now due db st db' st' =
     (objects st' \<subseteq> objects st \<and> (\<forall>k \<in> objects st'. tracked db k \<longrightarrow> tracked db' k)
      \<and> (\<forall>b \<in> set (batches db). spared now due b \<longrightarrow>
           b \<in> set (batches db') \<and> row_objects b \<inter> objects st \<subseteq> objects st'))"

lemma sound_step_trans:
  assumes "sound_step objects now due db st db1 st1" "sound_step objects now due db1 st1 db2 st2"
  shows "sound_step objects now due db st db2 st2"
proof -
  have "row_objects b \<inter> objects st \<subseteq> objects st2" if "b \<in> set (batches db)" "spared now due b" for b
  proof -
    have "b \<in> set (batches db1)" "row_objects b \<inter> objects st \<subseteq> objects st1"
      using assms(1) that by (auto simp: sound_step_def)
    moreover have "row_objects b \<inter> objects st1 \<subseteq> objects st2"
      using assms(2) that(2) calculation(1) by (auto simp: sound_step_def)
    ultimately show ?thesis by blast
  qed
  with assms show ?thesis by (auto simp: sound_step_def)
qed

lemma sound_step_same: "batches db' = batches db \<Longrightarrow> sound_step objects now due db st db' st"
  by (simp add: sound_step_def tracked_def)

lemma rows_ok_same:
  "batches db' = batches db \<Longrightarrow> organizations db' = organizations db \<Longrightarrow> rows_ok db \<Longrightarrow> rows_ok db'"
  by (simp add: rows_ok_def)

lemma rows_okD:
  assumes "rows_ok db"
  shows "b \<in> set (batches db) \<Longrightarrow> batch_row_ok b"
    "b \<in> set (batches db) \<Longrightarrow> c \<in> set (batches db) \<Longrightarrow> b_id b = b_id c \<Longrightarrow> b = c"
    "o' \<in> set (organizations db) \<Longrightarrow> uuid_like (o_id o')"
  using assms by (auto simp: rows_ok_def distinct_map inj_on_def)

lemma row_objects_disjoint:
  assumes "batch_row_ok b" "batch_row_ok c" "k \<in> row_objects b" "k \<in> row_objects c"
  shows "b_id b = b_id c"
  using assms by (auto simp: batch_row_ok_def row_objects_def batch_keys_inj batch_keys_inj(3) [symmetric] dest: sym)

lemma row_objects_prefix:
  assumes "batch_row_ok b" "uuid_like p" "k \<in> row_objects b"
  shows "js_startsWith k (orgObjectPrefix p) \<longleftrightarrow> p = b_orgId b"
  using assms by (auto simp: batch_row_ok_def row_objects_def batch_key_prefix)

lemma row_objects_no_export: "batch_row_ok b \<Longrightarrow> k \<in> row_objects b \<Longrightarrow> exportKeyCreatedAtMs k = None"
  by (auto simp: batch_row_ok_def row_objects_def batch_keys_no_export)

lemma rows_ok_filter:
  assumes "rows_ok db" "batches db' = filter P (batches db)" "organizations db' = organizations db"
  shows "rows_ok db'"
  using assms by (auto simp: rows_ok_def distinct_map inj_on_def)

section \<open>Every step is sound\<close>

definition expired_page :: "database \<Rightarrow> time_ms \<Rightarrow> nat \<Rightarrow> batch list" where
  "expired_page db now n = take n (filter (\<lambda>b. b_expiresAt b \<le> us_of now) (batches db))"

lemma expired_page_rows:
  "listExpiredBatches db now n = [] \<longleftrightarrow> expired_page db now n = []"
  "bt_id ` set (listExpiredBatches db now n) = b_id ` set (expired_page db now n)"
  "set (target_keys (listExpiredBatches db now n)) = (\<Union>b \<in> set (expired_page db now n). row_objects b)"
  "b \<in> set (expired_page db now n) \<Longrightarrow> b \<in> set (batches db) \<and> b_expiresAt b \<le> us_of now"
proof -
  define target where "target = (\<lambda>b :: batch. \<lparr>bt_id = b_id b, bt_orgId = b_orgId b, bt_inputObjectKey = b_inputObjectKey b,
                           bt_resultObjectKey = b_resultObjectKey b\<rparr>)"
  have page: "listExpiredBatches db now n = map target (expired_page db now n)"
    by (simp add: listExpiredBatches_def expired_page_def take_map target_def)
  show "listExpiredBatches db now n = [] \<longleftrightarrow> expired_page db now n = []"
    "bt_id ` set (listExpiredBatches db now n) = b_id ` set (expired_page db now n)"
    by (simp_all add: page image_image target_def)
  have "set (target_keys (map target bs)) = (\<Union>b \<in> set bs. row_objects b)" for bs
    by (induction bs) (auto simp: target_keys_def row_objects_def target_def split: option.splits)
  then show "set (target_keys (listExpiredBatches db now n)) = (\<Union>b \<in> set (expired_page db now n). row_objects b)"
    by (simp add: page)
  show "b \<in> set (expired_page db now n) \<Longrightarrow> b \<in> set (batches db) \<and> b_expiresAt b \<le> us_of now"
    by (auto simp: expired_page_def dest!: in_set_takeD)
qed

lemma drain_page_sound:
  assumes "s3_documented client objects" "rows_ok db"
    and "deleteObjects client (target_keys (listExpiredBatches db now n)) st = (r, st1)"
  shows "sound_step objects now due db st db st1"
    and "r = Inr () \<Longrightarrow> sound_step objects now due db st (snd (deleteBatchesByIds db (map bt_id (listExpiredBatches db now n)))) st1"
proof -
  let ?page = "set (expired_page db now n)"
  note del = deleteObjects_spec [OF assms(1,3), unfolded expired_page_rows(3)]
  have other: "row_objects b \<inter> (\<Union>c \<in> ?page. row_objects c) = {}" if "b \<in> set (batches db)" "b \<notin> ?page" for b
    using that row_objects_disjoint rows_okD(1,2) [OF assms(2)] expired_page_rows(4) by blast
  have spared_out: "b \<notin> ?page" if "spared now due b" for b
    using that expired_page_rows(4) by (fastforce simp: spared_def)
  show "sound_step objects now due db st db st1"
    using del(1,2) other spared_out by (fastforce simp: sound_step_def)
  show "sound_step objects now due db st (snd (deleteBatchesByIds db (map bt_id (listExpiredBatches db now n)))) st1"
    if "r = Inr ()"
  proof -
    have rows: "b \<in> set (batches (snd (deleteBatchesByIds db (map bt_id (listExpiredBatches db now n)))))
        \<longleftrightarrow> b \<in> set (batches db) \<and> b \<notin> ?page" for b
      using rows_okD(2) [OF assms(2)] expired_page_rows(4)
      by (auto simp: deleteBatchesByIds_def expired_page_rows(1,2) split: if_splits) blast
    show ?thesis using del(1,2) del(3) [OF that] other spared_out
      by (fastforce simp: sound_step_def tracked_def rows)
  qed
qed

lemma deleteBatchesByIds_rows:
  "organizations (snd (deleteBatchesByIds db ids)) = organizations db"
  "batches (snd (deleteBatchesByIds db ids)) = filter (\<lambda>b. b_id b \<notin> set ids) (batches db)"
  by (auto simp: deleteBatchesByIds_def)

lemma drain_sound:
  assumes "s3_documented client objects" "rows_ok db" "drain_batches client now n db st counts = (r, db', st')"
  shows "rows_ok db' \<and> sound_step objects now due db st db' st' \<and> organizations db' = organizations db
    \<and> (\<forall>c. r = Inr c \<longrightarrow> expired_page db' now n = [])"
  using assms
proof (induction client now n db st counts rule: drain_batches.induct)
  case (1 client now n db st counts)
  let ?exp = "listExpiredBatches db now n"
  show ?case
  proof (cases "?exp = []")
    case True
    with 1(4) have "db' = db" "st' = st" by (simp_all add: drain_batches.simps [of client now n db])
    with 1(3) True show ?thesis by (simp add: sound_step_same expired_page_rows(1))
  next
    case False
    obtain d st1 where d: "deleteObjects client (target_keys ?exp) st = (d, st1)" by fastforce
    let ?db1 = "snd (deleteBatchesByIds db (map bt_id ?exp))"
    show ?thesis
    proof (cases d)
      case (Inl e)
      with 1(4) False d have "r = Inl e" "db' = db" "st' = st1"
        by (simp_all add: drain_batches.simps [of client now n db] Let_def)
      with 1(3) drain_page_sound(1) [OF 1(2,3) d] show ?thesis by simp
    next
      case (Inr u)
      have ok1: "rows_ok ?db1" using rows_ok_filter [OF 1(3)] deleteBatchesByIds_rows by blast
      have step: "sound_step objects now due db st ?db1 st1"
        by (rule drain_page_sound(2) [OF 1(2,3) d]) (use Inr in simp)
      have run: "drain_batches client now n ?db1 st1
          (fst counts + fst (deleteBatchesByIds db (map bt_id ?exp)), snd counts + length (target_keys ?exp)) = (r, db', st')"
        using 1(4) False d Inr by (simp add: drain_batches.simps [of client now n db] Let_def)
      show ?thesis
        using 1(1) [OF refl False refl d [symmetric] refl Inr refl 1(2) ok1 run] sound_step_trans [OF step]
        by (simp add: deleteBatchesByIds_rows)
    qed
  qed
qed

text \<open>Deleting objects outside the tracked keys of spared rows, while the rows stay, is sound.\<close>

lemma delete_objects_sound:
  assumes "objects st - ks \<subseteq> objects st1" "objects st1 \<subseteq> objects st"
    and "\<And>b. b \<in> set (batches db) \<Longrightarrow> spared now due b \<Longrightarrow> row_objects b \<inter> ks = {}"
  shows "sound_step objects now due db st db st1"
  using assms by (fastforce simp: sound_step_def)

lemma hardDelete_sound:
  assumes "rows_ok db" "org \<in> set due" "uuid_like org"
    and "\<forall>k \<in> objects st. \<not> js_startsWith k (orgObjectPrefix org)"
    and "hardDeleteOrganizationData dbnow auditId db org now' = Inr (c, db1)"
  shows "rows_ok db1 \<and> sound_step objects now due db st db1 st"
proof
  note tables = hardDelete_tables [OF assms(5)]
  have "uuid_like (o_id o') \<and> (o_purgedAt o' \<noteq> None \<longrightarrow> (\<forall>b \<in> set (batches db1). b_orgId b \<noteq> o_id o'))"
    if o': "o' \<in> set (organizations db1)" for o'
  proof -
    obtain r where "r \<in> set (organizations db)"
      "o' = (if o_id r = org then r\<lparr>o_name := PURGED_ORG_NAME, o_purgedAt := Some (us_of now')\<rparr> else r)"
      using o' unfolding tables(5) set_map by (rule imageE) simp
    then show ?thesis using assms(1,3) by (cases "o_id r = org") (auto simp: tables(2) rows_ok_def)
  qed
  then show "rows_ok db1" using assms(1) by (auto simp: rows_ok_def tables(2) distinct_map inj_on_def)
  have "b_orgId b \<noteq> org" if "b \<in> set (batches db)" "k \<in> row_objects b" "k \<in> objects st" for b k
    using row_objects_prefix [OF rows_okD(1) [OF assms(1) that(1)] assms(3) that(2)] assms(4) that(3) by auto
  then show "sound_step objects now due db st db1 st"
    using assms(2) by (fastforce simp: sound_step_def tracked_def tables(2) spared_def)
qed

text \<open>One organisation of the purge: the run ends with an error, only objects under its prefix
  being gone, or its prefix is empty, its rows are purged and the run goes on.\<close>

lemma purge_orgs_Cons:
  assumes "s3_documented client objects"
  obtains (stopped) e st1 where "purge_orgs client env (org # orgs) db st counts = Some (Inl e, db, st1)"
      "objects st - {k. js_startsWith k (orgObjectPrefix org)} \<subseteq> objects st1" "objects st1 \<subseteq> objects st"
  | (went_on) c db1 st1 n where "purge_orgs client env (org # orgs) db st counts =
        purge_orgs client env orgs db1 st1 (fst counts + 1, snd counts + n)"
      "hardDeleteOrganizationData (sw_purge_now env org) (sw_purge_audit env org) db org (sw_now env) = Inr (c, db1)"
      "objects st - {k. js_startsWith k (orgObjectPrefix org)} \<subseteq> objects st1" "objects st1 \<subseteq> objects st"
      "\<forall>k \<in> objects st1. \<not> js_startsWith k (orgObjectPrefix org)"
proof (cases rule: listKeys_spec [OF assms, of "orgObjectPrefix org" st])
  case (1 e)
  then show ?thesis by (intro stopped) auto
next
  case (2 ks)
  note listed = 2
  obtain d st1 where d: "(if 0 < length ks then deleteObjects client ks st else (Inr (), st)) = (d, st1)" by fastforce
  have del: "objects st - {k. js_startsWith k (orgObjectPrefix org)} \<subseteq> objects st1" "objects st1 \<subseteq> objects st"
    using guarded_delete_spec [OF assms d] listed(2) by blast+
  show ?thesis
  proof (cases "\<exists>e. purge_orgs client env (org # orgs) db st counts = Some (Inl e, db, st1)")
    case True
    with del stopped show ?thesis by blast
  next
    case False
    show ?thesis
    proof (cases rule: listKeys_spec [OF assms, of "orgObjectPrefix org" st1])
      case (1 e)
      with False listed(1) d show ?thesis by (cases d) (simp_all add: Let_def)
    next
      case (2 rest)
      have ok: "d = Inr ()" using False listed(1) d by (cases d) (simp_all add: Let_def)
      moreover have "rest = []" using False listed(1) d 2(1) ok by (cases rest) (simp_all add: Let_def)
      ultimately obtain c db1 where
        "hardDeleteOrganizationData (sw_purge_now env org) (sw_purge_audit env org) db org (sw_now env) = Inr (c, db1)"
        using False listed(1) d 2(1)
        by (cases "hardDeleteOrganizationData (sw_purge_now env org) (sw_purge_audit env org) db org (sw_now env)")
          (auto simp: Let_def)
      with listed(1) d 2 ok \<open>rest = []\<close> del show ?thesis
        by (intro went_on [of db1 st1 "length ks" c]) (auto simp: Let_def)
    qed
  qed
qed

lemma purge_orgs_sound:
  assumes "s3_documented client objects" "rows_ok db" "set orgs \<subseteq> set due" "\<forall>org \<in> set orgs. uuid_like org"
    and "purge_orgs client env orgs db st counts = Some (r, db', st')"
  shows "rows_ok db' \<and> sound_step objects now due db st db' st'"
  using assms
proof (induction orgs arbitrary: db st counts)
  case Nil
  then show ?case by (simp add: sound_step_same)
next
  case (Cons org orgs)
  have u: "uuid_like org" "org \<in> set due" using Cons.prems(3,4) by simp_all
  have outside: "row_objects b \<inter> {k. js_startsWith k (orgObjectPrefix org)} = {}"
    if "b \<in> set (batches db)" "spared now due b" for b
    using row_objects_prefix [OF rows_okD(1) [OF Cons.prems(2) that(1)] u(1)] that(2) u(2) by (auto simp: spared_def)
  show ?case
  proof (cases rule: purge_orgs_Cons [OF Cons.prems(1), of env org orgs db st counts])
    case (1 e st1)
    with Cons.prems(2,5) delete_objects_sound [where objects = objects, OF 1(2,3) outside] show ?thesis by simp
  next
    case (2 c db1 st1 n)
    have step: "sound_step objects now due db st db st1" by (rule delete_objects_sound [where objects = objects, OF 2(3,4) outside])
    have hard: "rows_ok db1 \<and> sound_step objects now due db st1 db1 st1"
      by (rule hardDelete_sound [where objects = objects, OF Cons.prems(2) u(2,1) 2(5,2)])
    then have "rows_ok db' \<and> sound_step objects now due db1 st1 db' st'"
      using Cons.IH [OF Cons.prems(1) _ _ _ Cons.prems(5) [unfolded 2(1)]] Cons.prems(3,4) by simp
    then show ?thesis
      using sound_step_trans [OF sound_step_trans [OF step conjunct2 [OF hard]]] by simp
  qed
qed

lemma purge_exports_sound:
  assumes "s3_documented client objects" "rows_ok db" "purge_exports client now st = Some (r, st')"
  shows "sound_step objects now due db st db st' \<and> (\<forall>n. r = Inr n \<longrightarrow> (\<forall>k \<in> objects st'. \<not> (js_startsWith k ''org/'' \<and> stale_export now k)))"
proof (cases rule: listKeys_spec [OF assms(1), of "''org/''" st])
  case (1 e)
  with assms(3) show ?thesis by (auto simp: purge_exports_def sound_step_same)
next
  case (2 ks)
  let ?stale = "filter (stale_export now) ks"
  obtain d st1 where d: "(if 0 < length ?stale then deleteObjects client ?stale st else (Inr (), st)) = (d, st1)" by fastforce
  with assms(3) 2(1) have fin: "st' = st1" "r = map_sum id (\<lambda>_. length ?stale) d"
    by (auto simp: purge_exports_def Let_def split: if_splits)
  have del: "objects st - set ?stale \<subseteq> objects st1 \<and> objects st1 \<subseteq> objects st \<and> (d = Inr () \<longrightarrow> objects st1 \<inter> set ?stale = {})"
    by (rule guarded_delete_spec [OF assms(1) d])
  have "row_objects b \<inter> set ?stale = {}" if "b \<in> set (batches db)" for b
    using row_objects_no_export [OF rows_okD(1) [OF assms(2) that]] by (auto simp: stale_export_def)
  then have "sound_step objects now due db st db st1"
    using del by (intro delete_objects_sound [of objects st "set ?stale"]) auto
  moreover have "\<not> (js_startsWith k ''org/'' \<and> stale_export now k)" if "r = Inr n" "k \<in> objects st1" for k n
    using that del 2(2) fin(2) by (cases d) auto
  ultimately show ?thesis by (simp add: fin(1))
qed

lemma delete_org_row_rows:
  "batches (delete_org_row db i) = filter (\<lambda>b. b_orgId b \<noteq> i) (batches db)"
  "organizations (delete_org_row db i) = filter (\<lambda>o'. o_id o' \<noteq> i) (organizations db)"
  by (simp_all add: delete_org_row_def Let_def)

lemma delete_org_rows:
  "batches (foldl delete_org_row db is) = filter (\<lambda>b. b_orgId b \<notin> set is) (batches db)"
  "organizations (foldl delete_org_row db is) = filter (\<lambda>o'. o_id o' \<notin> set is) (organizations db)"
  by (induction "is" arbitrary: db) (auto simp: delete_org_row_rows intro!: filter_cong)

lemma finish_sweep_sound:
  assumes "rows_ok db" "finish_sweep env c db = (r, db')"
  shows "rows_ok db' \<and> batches db' = batches db"
proof (cases "purgeExpiredLedgerEntries (sw_ledger_now env) db (sw_now env)")
  case (Inl e)
  with assms show ?thesis by (simp add: finish_sweep_def)
next
  case (Inr p)
  then obtain n db1 where p: "purgeExpiredLedgerEntries (sw_ledger_now env) db (sw_now env) = Inr (n, db1)" by (cases p) simp
  then have same: "batches db1 = batches db" "organizations db1 = organizations db"
    by (auto simp: purgeExpiredLedgerEntries_def Let_def split: if_splits)
  let ?gone = "map o_id (filter (retired db1) (organizations db1))"
  define db2 where "db2 = snd (deleteRetiredOrganizations db1)"
  have db2: "db2 = foldl delete_org_row db1 ?gone" by (simp add: db2_def deleteRetiredOrganizations_def Let_def)
  have "b_orgId b \<notin> set ?gone" if "b \<in> set (batches db)" for b
    using assms(1) that by (auto simp: rows_ok_def retired_def same)
  then have rows: "batches db2 = batches db" "organizations db2 = filter (\<lambda>o'. o_id o' \<notin> set ?gone) (organizations db)"
    by (simp_all only: db2 delete_org_rows same) (rule filter_True; simp)
  have "batches db' = batches db2 \<and> organizations db' = organizations db2"
    using assms(2) p db2_def
    by (auto simp: finish_sweep_def Let_def split: sum.splits prod.splits dest!: recordAuditEvent_Inr)
  with rows assms(1) show ?thesis by (auto simp: rows_ok_def)
qed

section \<open>The whole sweep\<close>

lemma purgeExpiredChecks_tables:
  "batches (snd (purgeExpiredChecks db now)) = batches db"
  "organizations (snd (purgeExpiredChecks db now)) = organizations db"
  by (simp_all add: purgeExpiredChecks_def)

lemma purgeExpiredLeads_tables:
  "batches (snd (purgeExpiredLeads db now)) = batches db"
  "organizations (snd (purgeExpiredLeads db now)) = organizations db"
  by (simp_all add: purgeExpiredLeads_def Let_def)

abbreviation due_orgs :: "sweep_env \<Rightarrow> database \<Rightarrow> uuid list" where
  "due_orgs env db \<equiv> listOrganizationsDueForPurge db (sw_now env) ORG_PURGE_GRACE_DAYS"

text \<open>The stages a run goes through, each with its result.\<close>

lemma sweep_stages:
  assumes "runLifecycleSweep client env db st = Some (r, db', st')"
  obtains (drain_raised) e where "r = Inl e"
      "drain_batches client (sw_now env) (sw_batchPageSize env) (snd (purgeExpiredChecks db (sw_now env))) st (0, 0) = (Inl e, db', st')"
  | (drained) c2 db2 st1 where
      "drain_batches client (sw_now env) (sw_batchPageSize env) (snd (purgeExpiredChecks db (sw_now env))) st (0, 0) = (Inr c2, db2, st1)"
      "\<exists>e. r = Inl e \<and> purge_orgs client env (due_orgs env db2) db2 st1 (0, 0) = Some (Inl e, db', st')"
  | (purged) c2 db2 st1 c3 db3 st2 where
      "drain_batches client (sw_now env) (sw_batchPageSize env) (snd (purgeExpiredChecks db (sw_now env))) st (0, 0) = (Inr c2, db2, st1)"
      "purge_orgs client env (due_orgs env db2) db2 st1 (0, 0) = Some (Inr c3, db3, st2)"
      "\<exists>e. r = Inl e \<and> purge_exports client (sw_now env) st2 = Some (Inl e, st')"
      "db' = snd (purgeExpiredLeads db3 (sw_now env))"
  | (finished) c2 db2 st1 c3 db3 st2 n c where
      "drain_batches client (sw_now env) (sw_batchPageSize env) (snd (purgeExpiredChecks db (sw_now env))) st (0, 0) = (Inr c2, db2, st1)"
      "purge_orgs client env (due_orgs env db2) db2 st1 (0, 0) = Some (Inr c3, db3, st2)"
      "purge_exports client (sw_now env) st2 = Some (Inr n, st')"
      "finish_sweep env c (snd (purgeExpiredLeads db3 (sw_now env))) = (r, db')"
proof -
  obtain x2 db2 st1 where drain: "drain_batches client (sw_now env) (sw_batchPageSize env)
      (snd (purgeExpiredChecks db (sw_now env))) st (0, 0) = (x2, db2, st1)" by (rule prod_cases3)
  show ?thesis
  proof (cases x2)
    case (Inl e)
    with assms drain show ?thesis
      by (intro drain_raised) (auto simp: runLifecycleSweep_def Let_def split_beta)
  next
    case x2: (Inr c2)
    obtain x3 db3 st2 where purge: "purge_orgs client env (due_orgs env db2) db2 st1 (0, 0) = Some (x3, db3, st2)"
      using assms drain x2
      by (cases "purge_orgs client env (due_orgs env db2) db2 st1 (0, 0)")
        (auto simp: runLifecycleSweep_def Let_def split_beta)
    show ?thesis
    proof (cases x3)
      case (Inl e)
      with assms drain x2 purge show ?thesis
        by (intro drained) (auto simp: runLifecycleSweep_def Let_def split_beta)
    next
      case x3: (Inr c3)
      obtain x5 st3 where exports: "purge_exports client (sw_now env) st2 = Some (x5, st3)"
        using assms drain x2 purge x3
        by (cases "purge_exports client (sw_now env) st2") (auto simp: runLifecycleSweep_def Let_def split_beta)
      show ?thesis
      proof (cases x5)
        case (Inl e)
        with assms drain x2 purge x3 exports show ?thesis
          by (intro purged) (auto simp: runLifecycleSweep_def Let_def split_beta)
      next
        case (Inr n)
        with assms drain x2 purge x3 exports show ?thesis
          by (intro finished) (auto simp: runLifecycleSweep_def Let_def split_beta)
      qed
    qed
  qed
qed

lemma due_orgs_cong: "organizations db' = organizations db \<Longrightarrow> due_orgs env db' = due_orgs env db"
  by (simp add: listOrganizationsDueForPurge_def)

lemma due_orgs_uuid: "rows_ok db \<Longrightarrow> \<forall>org \<in> set (due_orgs env db). uuid_like org"
  by (auto simp: rows_ok_def listOrganizationsDueForPurge_def Let_def)

lemma sweep_sound:
  assumes "s3_documented client objects" "rows_ok db" "runLifecycleSweep client env db st = Some (r, db', st')"
  shows "rows_ok db' \<and> sound_step objects (sw_now env) (due_orgs env db) db st db' st'"
proof -
  let ?sound = "sound_step objects (sw_now env) (due_orgs env db)"
  let ?db1 = "snd (purgeExpiredChecks db (sw_now env))"
  have ok1: "rows_ok ?db1" by (rule rows_ok_same [OF _ _ assms(2)]) (simp_all add: purgeExpiredChecks_tables)
  have s1: "?sound db st ?db1 st" by (rule sound_step_same) (rule purgeExpiredChecks_tables)
  have drain: "rows_ok db2 \<and> ?sound db st db2 st1 \<and> due_orgs env db2 = due_orgs env db"
    if "drain_batches client (sw_now env) (sw_batchPageSize env) ?db1 st (0, 0) = (x, db2, st1)" for x db2 st1
  proof -
    note d = drain_sound [OF assms(1) ok1 that, where due = "due_orgs env db"]
    have "organizations db2 = organizations db" using d by (simp add: purgeExpiredChecks_tables)
    then have "due_orgs env db2 = due_orgs env db" by (rule due_orgs_cong)
    with d sound_step_trans [OF s1 conjunct1 [OF conjunct2 [OF d]]] show ?thesis by (intro conjI) simp_all
  qed
  have purge: "rows_ok db3 \<and> ?sound db st db3 st2"
    if "drain_batches client (sw_now env) (sw_batchPageSize env) ?db1 st (0, 0) = (x, db2, st1)"
      "purge_orgs client env (due_orgs env db2) db2 st1 (0, 0) = Some (y, db3, st2)" for x db2 st1 y db3 st2
  proof -
    note d = drain [OF that(1)]
    have "rows_ok db3 \<and> ?sound db2 st1 db3 st2"
      by (rule purge_orgs_sound [OF assms(1) _ _ _ that(2)])
        (use d due_orgs_uuid [of db2 env] in simp_all)
    with sound_step_trans [OF conjunct1 [OF conjunct2 [OF d]]] show ?thesis by simp
  qed
  have exports: "rows_ok (snd (purgeExpiredLeads db3 (sw_now env))) \<and> ?sound db st (snd (purgeExpiredLeads db3 (sw_now env))) st3"
    if "rows_ok db3 \<and> ?sound db st db3 st2" "purge_exports client (sw_now env) st2 = Some (z, st3)" for db3 st2 z st3
  proof -
    let ?db4 = "snd (purgeExpiredLeads db3 (sw_now env))"
    have ok4: "rows_ok ?db4"
      by (rule rows_ok_same [OF _ _ conjunct1 [OF that(1)]]) (simp_all add: purgeExpiredLeads_tables)
    have "?sound db3 st2 ?db4 st2" by (rule sound_step_same) (rule purgeExpiredLeads_tables)
    from sound_step_trans [OF sound_step_trans [OF conjunct2 [OF that(1)] this]
        conjunct1 [OF purge_exports_sound [OF assms(1) ok4 that(2)]]] ok4
    show ?thesis by simp
  qed
  from assms(3) show ?thesis
  proof (cases rule: sweep_stages)
    case (drain_raised e)
    from drain [OF drain_raised(2)] show ?thesis by simp
  next
    case (drained c2 db2 st1)
    then show ?thesis using purge by blast
  next
    case (purged c2 db2 st1 c3 db3 st2)
    then show ?thesis using exports [OF purge] by blast
  next
    case (finished c2 db2 st1 c3 db3 st2 n c)
    note e = exports [OF purge [OF finished(1,2)] finished(3)]
    from finish_sweep_sound [OF conjunct1 [OF e] finished(4)]
    have "rows_ok db'" and same: "batches db' = batches (snd (purgeExpiredLeads db3 (sw_now env)))" by simp_all
    with sound_step_trans [OF conjunct2 [OF e] sound_step_same [OF same]] show ?thesis by simp
  qed
qed

section \<open>What a completed sweep leaves\<close>

text \<open>No stage adds a row to the tables under retention, and an organisation changes only by being
  purged.\<close>

definition shrinks :: "database \<Rightarrow> database \<Rightarrow> bool" where
  "shrinks db db' =
     (set (emailChecks db') \<subseteq> set (emailChecks db) \<and> set (phoneChecks db') \<subseteq> set (phoneChecks db)
      \<and> set (batches db') \<subseteq> set (batches db) \<and> set (leads db') \<subseteq> set (leads db)
      \<and> (\<forall>o' \<in> set (organizations db'). o_purgedAt o' \<noteq> None \<or> o' \<in> set (organizations db)))"

lemma shrinks_trans: "shrinks a b \<Longrightarrow> shrinks b c \<Longrightarrow> shrinks a c"
  unfolding shrinks_def by blast

lemma shrinks_refl [simp]: "shrinks db db"
  by (simp add: shrinks_def)

lemma purgeExpiredChecks_shrinks: "shrinks db (snd (purgeExpiredChecks db now))"
  by (auto simp: shrinks_def purgeExpiredChecks_def)

lemma deleteBatchesByIds_shrinks: "shrinks db (snd (deleteBatchesByIds db ids))"
  by (auto simp: shrinks_def deleteBatchesByIds_def)

lemma purgeExpiredLeads_shrinks: "shrinks db (snd (purgeExpiredLeads db now))"
  by (auto simp: shrinks_def purgeExpiredLeads_def Let_def)

lemma drain_shrinks: "drain_batches client now n db st counts = (r, db', st') \<Longrightarrow> shrinks db db'"
proof (induction client now n db st counts rule: drain_batches.induct)
  case (1 client now n db st counts)
  let ?exp = "listExpiredBatches db now n"
  obtain d st1 where d: "deleteObjects client (target_keys ?exp) st = (d, st1)" by fastforce
  show ?case
  proof (cases "?exp = [] \<or> (\<exists>e. d = Inl e)")
    case True
    with 1(2) d have "db' = db" by (auto simp: drain_batches.simps [of client now n db] Let_def split: if_splits)
    then show ?thesis by simp
  next
    case False
    then obtain u where u: "d = Inr u" by (cases d) auto
    have "drain_batches client now n (snd (deleteBatchesByIds db (map bt_id ?exp))) st1
        (fst counts + fst (deleteBatchesByIds db (map bt_id ?exp)), snd counts + length (target_keys ?exp)) = (r, db', st')"
      using 1(2) False d u by (simp add: drain_batches.simps [of client now n db] Let_def)
    from 1(1) [OF refl _ refl d [symmetric] refl u refl this] False
    show ?thesis using shrinks_trans [OF deleteBatchesByIds_shrinks] by blast
  qed
qed

lemma delete_of_leads [simp]:
  "leads (delete_users_of db o') = leads db" "leads (delete_api_keys_of db o') = leads db"
  "leads (delete_endpoints_of db o') = leads db" "leads (delete_checks_of db o') = leads db"
  by (simp_all add: delete_users_of_def delete_api_keys_of_def delete_endpoints_of_def delete_checks_of_def Let_def)

lemma hardDelete_shrinks:
  assumes "hardDeleteOrganizationData dbnow auditId db org now = Inr (c, db1)"
  shows "shrinks db db1" "o' \<in> set (organizations db1) \<Longrightarrow> o_id o' = org \<Longrightarrow> o_purgedAt o' \<noteq> None"
proof -
  note tables = hardDelete_tables [OF assms]
  have leads: "leads db1 = leads db"
    using assms
    by (auto simp: hardDeleteOrganizationData_def Let_def and_then_Inr dest!: recordAuditEvent_Inr)
  show "shrinks db db1" by (auto simp: shrinks_def tables leads)
  show "o_purgedAt o' \<noteq> None" if mem: "o' \<in> set (organizations db1)" and oid: "o_id o' = org"
  proof -
    obtain r where "r \<in> set (organizations db)"
      "o' = (if o_id r = org then r\<lparr>o_name := PURGED_ORG_NAME, o_purgedAt := Some (us_of now)\<rparr> else r)"
      using mem unfolding tables(5) set_map by (rule imageE) simp
    with oid show ?thesis by (cases "o_id r = org") simp_all
  qed
qed

lemma purge_orgs_complete:
  assumes "s3_documented client objects"
  shows "\<exists>r db' st'. purge_orgs client env orgs db st counts = Some (r, db', st')
    \<and> shrinks db db' \<and> objects st' \<subseteq> objects st
    \<and> (\<forall>c. r = Inr c \<longrightarrow> (\<forall>org \<in> set orgs. (\<forall>o' \<in> set (organizations db'). o_id o' = org \<longrightarrow> o_purgedAt o' \<noteq> None)
          \<and> (\<forall>k \<in> objects st'. \<not> js_startsWith k (orgObjectPrefix org))))"
proof (induction orgs arbitrary: db st counts)
  case Nil
  then show ?case by simp
next
  case (Cons org orgs)
  show ?case
  proof (cases rule: purge_orgs_Cons [OF assms, of env org orgs db st counts])
    case (1 e st1)
    then show ?thesis by simp
  next
    case (2 c db1 st1 n)
    obtain r db' st' where run: "purge_orgs client env orgs db1 st1 (fst counts + 1, snd counts + n) = Some (r, db', st')"
      "shrinks db1 db'" "objects st' \<subseteq> objects st1"
      "\<forall>c. r = Inr c \<longrightarrow> (\<forall>org \<in> set orgs. (\<forall>o' \<in> set (organizations db'). o_id o' = org \<longrightarrow> o_purgedAt o' \<noteq> None)
          \<and> (\<forall>k \<in> objects st'. \<not> js_startsWith k (orgObjectPrefix org)))"
      using Cons.IH by blast
    have "o_purgedAt o' \<noteq> None" if "o' \<in> set (organizations db')" "o_id o' = org" for o'
      using run(2) that hardDelete_shrinks(2) [OF 2(2)] by (auto simp: shrinks_def)
    with run 2 shrinks_trans [OF hardDelete_shrinks(1) [OF 2(2)] run(2)] show ?thesis
      by (intro exI [of _ r] exI [of _ db'] exI [of _ st']) auto
  qed
qed

lemma purge_exports_returns:
  assumes "s3_documented client objects"
  shows "\<exists>r st'. purge_exports client now st = Some (r, st')"
  by (cases rule: listKeys_spec [OF assms, of "''org/''" st]) (simp_all add: purge_exports_def Let_def split_beta)

lemma delete_org_row_shrinks: "shrinks db (delete_org_row db i)"
  by (auto simp: shrinks_def delete_org_row_def Let_def)

lemma delete_org_rows_shrinks: "shrinks db (foldl delete_org_row db is)"
proof (induction "is" arbitrary: db)
  case (Cons i "is")
  from shrinks_trans [OF delete_org_row_shrinks Cons.IH] show ?case by simp
qed simp

lemma finish_sweep_shrinks:
  assumes "finish_sweep env c db = (r, db')"
  shows "shrinks db db'"
proof (cases "purgeExpiredLedgerEntries (sw_ledger_now env) db (sw_now env)")
  case (Inl e)
  with assms show ?thesis by (simp add: finish_sweep_def)
next
  case (Inr p)
  then obtain n db1 where p: "purgeExpiredLedgerEntries (sw_ledger_now env) db (sw_now env) = Inr (n, db1)" by (cases p) simp
  then have ledger: "shrinks db db1" by (auto simp: shrinks_def purgeExpiredLedgerEntries_def Let_def split: if_splits)
  define db2 where "db2 = snd (deleteRetiredOrganizations db1)"
  have retired: "shrinks db1 db2"
    by (simp add: db2_def deleteRetiredOrganizations_def Let_def delete_org_rows_shrinks)
  have audit: "shrinks db2 db'"
    using assms p db2_def
    by (auto simp: finish_sweep_def shrinks_def Let_def split: sum.splits prod.splits dest!: recordAuditEvent_Inr)
  show ?thesis by (rule shrinks_trans [OF shrinks_trans [OF ledger retired] audit])
qed

lemma sweep_returns:
  assumes "s3_documented client objects"
  shows "\<exists>r db' st'. runLifecycleSweep client env db st = Some (r, db', st')"
proof -
  obtain x2 db2 st1 where drain: "drain_batches client (sw_now env) (sw_batchPageSize env)
      (snd (purgeExpiredChecks db (sw_now env))) st (0, 0) = (x2, db2, st1)" by (rule prod_cases3)
  obtain x3 db3 st2 where purge: "purge_orgs client env (due_orgs env db2) db2 st1 (0, 0) = Some (x3, db3, st2)"
    using purge_orgs_complete [OF assms, of env "due_orgs env db2" db2 st1 "(0, 0)"] by (elim exE conjE)
  obtain x5 st3 where exports: "purge_exports client (sw_now env) st2 = Some (x5, st3)"
    using purge_exports_returns [OF assms] by blast
  show ?thesis
    using drain purge exports
    by (cases x2; cases x3; cases x5) (auto simp: runLifecycleSweep_def Let_def split_beta)
qed

lemma no_expired_page: "0 < n \<Longrightarrow> expired_page db now n = [] \<Longrightarrow> b \<in> set (batches db) \<Longrightarrow> us_of now < b_expiresAt b"
  by (auto simp: expired_page_def filter_empty_conv not_le)

lemma no_due_left:
  assumes "shrinks db2 db'"
    and "\<forall>org \<in> set (due_orgs env db2). \<forall>o' \<in> set (organizations db'). o_id o' = org \<longrightarrow> o_purgedAt o' \<noteq> None"
  shows "due_orgs env db' = []"
proof (rule ccontr)
  assume "due_orgs env db' \<noteq> []"
  then obtain i where "i \<in> set (due_orgs env db')" by (meson ex_in_conv set_empty)
  then obtain o' where o': "o' \<in> set (organizations db')" "o_id o' = i" "o_purgedAt o' = None"
    "\<exists>t. o_deletedAt o' = Some t \<and> t \<le> us_of (sw_now env - ORG_PURGE_GRACE_DAYS * 24 * 60 * 60 * 1000)"
    by (auto simp: listOrganizationsDueForPurge_def Let_def split: option.splits)
  with assms(1) have "o' \<in> set (organizations db2)" by (auto simp: shrinks_def)
  with o'(2-4) have "i \<in> set (due_orgs env db2)" by (auto simp: listOrganizationsDueForPurge_def Let_def)
  with assms(2) o'(1-3) show False by blast
qed

lemma sweep_clean:
  assumes "s3_documented client objects" "rows_ok db" "0 < sw_batchPageSize env"
    and "runLifecycleSweep client env db st = Some (Inr counts, db', st')"
  shows "(\<forall>c \<in> set (emailChecks db'). us_of (sw_now env) < ec_expiresAt c)"
    and "(\<forall>c \<in> set (phoneChecks db'). us_of (sw_now env) < pc_expiresAt c)"
    and "(\<forall>b \<in> set (batches db'). us_of (sw_now env) < b_expiresAt b)"
    and "(\<forall>l \<in> set (leads db'). us_of (sw_now env) < le_expiresAt l \<and> le_deletedAt l = None)"
    and "due_orgs env db' = []"
    and "\<forall>org \<in> set (due_orgs env db). \<forall>k \<in> objects st'. \<not> js_startsWith k (orgObjectPrefix org)"
    and "\<forall>k \<in> objects st'. \<not> (js_startsWith k ''org/'' \<and> stale_export (sw_now env) k)"
proof -
  let ?now = "sw_now env"
  let ?db1 = "snd (purgeExpiredChecks db ?now)"
  obtain c2 db2 st1 c3 db3 st2 n c where run:
    "drain_batches client ?now (sw_batchPageSize env) ?db1 st (0, 0) = (Inr c2, db2, st1)"
    "purge_orgs client env (due_orgs env db2) db2 st1 (0, 0) = Some (Inr c3, db3, st2)"
    "purge_exports client ?now st2 = Some (Inr n, st')"
    "finish_sweep env c (snd (purgeExpiredLeads db3 ?now)) = (Inr counts, db')"
    using assms(4) by (cases rule: sweep_stages) auto
  let ?db4 = "snd (purgeExpiredLeads db3 ?now)"
  have ok1: "rows_ok ?db1" by (rule rows_ok_same [OF _ _ assms(2)]) (simp_all add: purgeExpiredChecks_tables)
  note d = drain_sound [OF assms(1) ok1 run(1), where due = "due_orgs env db"]
  have due: "due_orgs env db2 = due_orgs env db"
    using d by (intro due_orgs_cong) (simp add: purgeExpiredChecks_tables)
  have p: "shrinks db2 db3" "\<forall>org \<in> set (due_orgs env db2).
      (\<forall>o' \<in> set (organizations db3). o_id o' = org \<longrightarrow> o_purgedAt o' \<noteq> None)
      \<and> (\<forall>k \<in> objects st2. \<not> js_startsWith k (orgObjectPrefix org))"
    using purge_orgs_complete [OF assms(1), of env "due_orgs env db2" db2 st1 "(0, 0)"] run(2) by simp_all
  have ok4: "rows_ok ?db4"
    by (rule rows_ok_same [OF _ _ conjunct1 [OF purge_orgs_sound [OF assms(1) conjunct1 [OF d] order_refl _ run(2)]]])
      (use due_orgs_uuid [OF conjunct1 [OF d]] in \<open>simp_all add: purgeExpiredLeads_tables\<close>)
  note e = purge_exports_sound [OF assms(1) ok4 run(3), where due = "due_orgs env db"]
  note s5 = finish_sweep_shrinks [OF run(4)]
  have s4: "shrinks db3 db'" by (rule shrinks_trans [OF purgeExpiredLeads_shrinks s5])
  have s3: "shrinks db2 db'" by (rule shrinks_trans [OF p(1) s4])
  have s2: "shrinks ?db1 db'" by (rule shrinks_trans [OF drain_shrinks [OF run(1)] s3])
  show "\<forall>c \<in> set (emailChecks db'). us_of ?now < ec_expiresAt c" "\<forall>c \<in> set (phoneChecks db'). us_of ?now < pc_expiresAt c"
    using s2 by (auto simp: shrinks_def purgeExpiredChecks_def not_le)
  show "\<forall>b \<in> set (batches db'). us_of ?now < b_expiresAt b"
    using s3 d no_expired_page [OF assms(3), of db2 ?now] by (auto simp: shrinks_def)
  show "\<forall>l \<in> set (leads db'). us_of ?now < le_expiresAt l \<and> le_deletedAt l = None"
    using s5 by (auto simp: shrinks_def purgeExpiredLeads_def Let_def not_le)
  show "due_orgs env db' = []"
    by (rule no_due_left [OF s3]) (use p(2) s4 in \<open>auto simp: shrinks_def\<close>)
  have "objects st' \<subseteq> objects st2" using e by (simp add: sound_step_def)
  then show "\<forall>org \<in> set (due_orgs env db). \<forall>k \<in> objects st'. \<not> js_startsWith k (orgObjectPrefix org)"
    using p(2) unfolding due by blast
  show "\<forall>k \<in> objects st'. \<not> (js_startsWith k ''org/'' \<and> stale_export ?now k)" using e by simp
qed

text \<open>C11: The retention sweep orphans nothing and takes nothing it should not, however it ends. Over an
  S3 service that behaves as documented, and whether the run completes or stops at any error:
  every object left in the bucket that a batch row tracked is still tracked by a row, no object
  is created, and a batch that is not expired and whose organisation is not due for purging keeps
  its row and all its objects.\<close>

theorem sweep_safe:
  assumes "s3_documented client objects" "rows_ok db" "runLifecycleSweep client env db st = Some (r, db', st')"
  shows "objects st' \<subseteq> objects st \<and> (\<forall>k \<in> objects st'. tracked db k \<longrightarrow> tracked db' k)
    \<and> (\<forall>b \<in> set (batches db). us_of (sw_now env) < b_expiresAt b \<and> b_orgId b \<notin> set (due_orgs env db) \<longrightarrow>
         b \<in> set (batches db') \<and> row_objects b \<inter> objects st \<subseteq> objects st')
    \<and> rows_ok db'"
  using sweep_sound [OF assms] by (simp add: sound_step_def spared_def)

text \<open>C12: A sweep always comes to an end, and one that reports success left nothing over its
  retention: no expired check, batch or lead and no lead marked for erasure, no organisation past
  the grace period that is not purged, no object under the prefix of one that was due, and no
  export archive older than a day.\<close>

theorem sweep_complete:
  assumes "s3_documented client objects" "rows_ok db" "0 < sw_batchPageSize env"
  shows "\<exists>r db' st'. runLifecycleSweep client env db st = Some (r, db', st') \<and> (\<forall>counts. r = Inr counts \<longrightarrow>
      (\<forall>c \<in> set (emailChecks db'). us_of (sw_now env) < ec_expiresAt c)
    \<and> (\<forall>c \<in> set (phoneChecks db'). us_of (sw_now env) < pc_expiresAt c)
    \<and> (\<forall>b \<in> set (batches db'). us_of (sw_now env) < b_expiresAt b)
    \<and> (\<forall>l \<in> set (leads db'). us_of (sw_now env) < le_expiresAt l \<and> le_deletedAt l = None)
    \<and> due_orgs env db' = []
    \<and> (\<forall>org \<in> set (due_orgs env db). \<forall>k \<in> objects st'. \<not> js_startsWith k (orgObjectPrefix org))
    \<and> (\<forall>k \<in> objects st'. \<not> (js_startsWith k ''org/'' \<and> stale_export (sw_now env) k)))"
proof -
  obtain r db' st' where run: "runLifecycleSweep client env db st = Some (r, db', st')"
    using sweep_returns [OF assms(1)] by blast
  show ?thesis
    by (intro exI [of _ r] exI [of _ db'] exI [of _ st'] conjI allI impI run)
      (use sweep_clean [OF assms] run in simp_all)
qed

section \<open>A run\<close>

text \<open>One organisation with an expired and a live batch, and an export archive of the first day.\<close>

definition sweep_batch :: "uuid \<Rightarrow> time_ms \<Rightarrow> batch" where
  "sweep_batch i expires = \<lparr>b_id = i, b_orgId = ''0a'', b_filename = ''list.csv'', b_status = Done, b_totalRows = 1,
     b_processedRows = 1, b_error = None, b_stats = JNull, b_inputObjectKey = batchInputKey ''0a'' i,
     b_resultObjectKey = Some (batchResultKey ''0a'' i), b_createdAt = 0, b_completedAt = Some 0, b_expiresAt = us_of expires\<rparr>"

definition sweep_db :: database where
  "sweep_db = empty_db\<lparr>organizations := [demo_org\<lparr>o_id := ''0a''\<rparr>],
     batches := [sweep_batch ''b1'' 1000, sweep_batch ''b2'' 900000000]\<rparr>"

definition sweep_bucket :: "string list" where
  "sweep_bucket = [batchInputKey ''0a'' ''b1'', batchResultKey ''0a'' ''b1'', batchInputKey ''0a'' ''b2'',
     batchResultKey ''0a'' ''b2'', exportObjectKey ''0a'' 5 ''e1'']"

definition sweep_run :: sweep_env where
  "sweep_run = \<lparr>sw_now = 200000000, sw_batchPageSize = 500, sw_purge_now = (\<lambda>_. 0), sw_purge_audit = (\<lambda>_. ''p''),
     sw_ledger_now = 0, sw_audit_now = 0, sw_audit_id = ''s''\<rparr>"

lemma sweep_db_rows_ok: "rows_ok sweep_db"
  by (simp add: rows_ok_def sweep_db_def sweep_batch_def batch_row_ok_def empty_db_def demo_org_def uuid_like_def
      hex_dash_def is_digit_def char_code_def)

lemma sweep_safe_witness:
  "\<exists>r db' bucket'. runLifecycleSweep memory_s3 sweep_run sweep_db sweep_bucket = Some (r, db', bucket')
     \<and> sweep_batch ''b2'' 900000000 \<in> set (batches db') \<and> batchResultKey ''0a'' ''b2'' \<in> set bucket'"
proof -
  obtain r db' bucket' where run: "runLifecycleSweep memory_s3 sweep_run sweep_db sweep_bucket = Some (r, db', bucket')"
    using sweep_returns [OF memory_documented, of sweep_run sweep_db sweep_bucket] by (elim exE)
  have live: "sweep_batch ''b2'' 900000000 \<in> set (batches sweep_db)"
    "us_of (sw_now sweep_run) < b_expiresAt (sweep_batch ''b2'' 900000000)"
    "b_orgId (sweep_batch ''b2'' 900000000) \<notin> set (due_orgs sweep_run sweep_db)"
    "batchResultKey ''0a'' ''b2'' \<in> row_objects (sweep_batch ''b2'' 900000000)" "batchResultKey ''0a'' ''b2'' \<in> set sweep_bucket"
    by (simp_all add: sweep_db_def sweep_batch_def sweep_run_def us_of_def listOrganizationsDueForPurge_def Let_def
        demo_org_def row_objects_def sweep_bucket_def)
  from sweep_safe [OF memory_documented sweep_db_rows_ok run] live
  have "sweep_batch ''b2'' 900000000 \<in> set (batches db')" "batchResultKey ''0a'' ''b2'' \<in> set bucket'" by blast+
  with run show ?thesis by (intro exI [of _ r] exI [of _ db'] exI [of _ bucket'] conjI)
qed

lemma sweep_run_succeeds:
  "map_option (\<lambda>(r, db', bucket'). (isl r, map b_id (batches db'), bucket'))
     (runLifecycleSweep memory_s3 sweep_run sweep_db sweep_bucket) =
   Some (False, [''b2''], [batchInputKey ''0a'' ''b2'', batchResultKey ''0a'' ''b2''])"
  by code_simp

lemma sweep_complete_witness:
  "\<exists>counts db' bucket'. runLifecycleSweep memory_s3 sweep_run sweep_db sweep_bucket = Some (Inr counts, db', bucket')
     \<and> (\<forall>b \<in> set (batches db'). us_of (sw_now sweep_run) < b_expiresAt b)
     \<and> (\<forall>k \<in> set bucket'. \<not> (js_startsWith k ''org/'' \<and> stale_export (sw_now sweep_run) k))"
proof -
  have "0 < sw_batchPageSize sweep_run" by (simp add: sweep_run_def)
  note complete = sweep_complete [OF memory_documented sweep_db_rows_ok this, of sweep_bucket]
  obtain r db' bucket' where run: "runLifecycleSweep memory_s3 sweep_run sweep_db sweep_bucket = Some (r, db', bucket')"
    using sweep_returns [OF memory_documented, of sweep_run sweep_db sweep_bucket] by (elim exE)
  with sweep_run_succeeds obtain counts where r: "r = Inr counts" by (cases r) auto
  have "(\<forall>b \<in> set (batches db'). us_of (sw_now sweep_run) < b_expiresAt b)
     \<and> (\<forall>k \<in> set bucket'. \<not> (js_startsWith k ''org/'' \<and> stale_export (sw_now sweep_run) k))"
    using complete unfolding run option.inject prod.inject r by (elim exE conjE) auto
  with run r show ?thesis by (intro exI [of _ counts] exI [of _ db'] exI [of _ bucket'] conjI) simp_all
qed

text \<open>C99: Webhook deliveries carry an expiry and are said to be swept by it, but no stage of the
  sweep looks at it: a successful run leaves a delivery of a live endpoint in place, with its
  payload, although it expired long before.\<close>

definition sweep_delivery :: webhook_delivery where
  "sweep_delivery = \<lparr>wd_id = ''d1'', wd_endpointId = ''w1'', wd_eventType = ''batch.completed'', wd_payload = JObj [],
     wd_status = Delivery_delivered, wd_attempts = 1, wd_attemptLog = [], wd_lastError = None, wd_nextRetryAt = None,
     wd_createdAt = 0, wd_expiresAt = 1000\<rparr>"

theorem expired_deliveries_stay:
  "wd_expiresAt sweep_delivery < us_of (sw_now sweep_run)
   \<and> map_option (\<lambda>(r, db', _). (isl r, webhookDeliveries db'))
       (runLifecycleSweep memory_s3 sweep_run (sweep_db\<lparr>webhookDeliveries := [sweep_delivery]\<rparr>) sweep_bucket)
     = Some (False, [sweep_delivery])"
  by code_simp

end
