(* ===== verification/Db_Export.thy ===== *)
theory Db_Export
  imports Db_Schema
begin

text \<open>
  \<^verbatim>\<open>packages/db/src/export.ts\<close> with the loop of \<^verbatim>\<open>data-export.ts\<close> that drains a pager. Every
  page is a query of its own, so the database may have changed since the one before: \<open>dbs n\<close> is the
  database the \<open>n\<close>-th query of the export sees.
\<close>

definition EXPORT_PAGE_SIZE :: nat where "EXPORT_PAGE_SIZE = 1000"

definition past_id :: "('r \<Rightarrow> uuid) \<Rightarrow> uuid option \<Rightarrow> 'r \<Rightarrow> bool" where
  "past_id ident afterId r = (case afterId of None \<Rightarrow> True | Some a \<Rightarrow> a < ident r)"

definition export_page :: "('r \<Rightarrow> uuid) \<Rightarrow> 'r list \<Rightarrow> uuid option \<Rightarrow> 'r list \<times> uuid option" where
  "export_page ident table afterId =
     (let rows = take EXPORT_PAGE_SIZE (order_asc ident (filter (past_id ident afterId) table))
      in (rows, if length rows < EXPORT_PAGE_SIZE \<or> rows = [] then None else Some (ident (last rows))))"

definition pageEmailChecksForExport :: "database \<Rightarrow> uuid \<Rightarrow> uuid option \<Rightarrow> email_check list \<times> uuid option" where
  "pageEmailChecksForExport db orgId afterId = export_page ec_id (filter (\<lambda>r. ec_orgId r = orgId) (emailChecks db)) afterId"

definition pagePhoneChecksForExport :: "database \<Rightarrow> uuid \<Rightarrow> uuid option \<Rightarrow> phone_check list \<times> uuid option" where
  "pagePhoneChecksForExport db orgId afterId = export_page pc_id (filter (\<lambda>r. pc_orgId r = orgId) (phoneChecks db)) afterId"

definition pageBatchesForExport :: "database \<Rightarrow> uuid \<Rightarrow> uuid option \<Rightarrow> batch list \<times> uuid option" where
  "pageBatchesForExport db orgId afterId = export_page b_id (filter (\<lambda>r. b_orgId r = orgId) (batches db)) afterId"

definition pageLedgerForExport :: "database \<Rightarrow> uuid \<Rightarrow> uuid option \<Rightarrow> ledger_entry list \<times> uuid option" where
  "pageLedgerForExport db orgId afterId = export_page l_id (filter (\<lambda>r. l_orgId r = orgId) (creditLedger db)) afterId"

definition pageAuditEventsForExport :: "database \<Rightarrow> uuid \<Rightarrow> uuid option \<Rightarrow> audit_event list \<times> uuid option" where
  "pageAuditEventsForExport db orgId afterId = export_page ae_id (filter (\<lambda>r. ae_orgId r = Some orgId) (auditEvents db)) afterId"

text \<open>The \<open>do ... while\<close> loop over the pages; \<open>pager n\<close> is the pager on what the \<open>n\<close>-th query sees. It
  returns the rows written and the number of the next query; \<open>None\<close> is a loop that never ends.\<close>

partial_function (option) pump ::
  "(nat \<Rightarrow> uuid option \<Rightarrow> 'r list \<times> uuid option) \<Rightarrow> nat \<Rightarrow> uuid option \<Rightarrow> 'r list \<Rightarrow> ('r list \<times> nat) option" where
  "pump pager n afterId written =
     (case snd (pager n afterId) of
        None \<Rightarrow> Some (written @ fst (pager n afterId), Suc n)
      | Some b \<Rightarrow> pump pager (Suc n) (Some b) (written @ fst (pager n afterId)))"

declare pump.simps [code]

section \<open>What a pager promises\<close>

locale keyset_pager =
  fixes table :: "nat \<Rightarrow> 'r list" and ident :: "'r \<Rightarrow> uuid"
    and pager :: "nat \<Rightarrow> uuid option \<Rightarrow> 'r list \<times> uuid option"
  assumes page_rows: "r \<in> set (fst (pager n a)) \<Longrightarrow> r \<in> set (table n) \<and> past_id ident a r"
    and page_sorted: "distinct (map ident (table n)) \<Longrightarrow> sorted_wrt (<) (map ident (fst (pager n a)))"
    and page_last: "snd (pager n a) = None \<Longrightarrow> r \<in> set (table n) \<Longrightarrow> past_id ident a r \<Longrightarrow> r \<in> set (fst (pager n a))"
    and page_more: "snd (pager n a) = Some b \<Longrightarrow>
      (\<exists>r \<in> set (fst (pager n a)). ident r = b) \<and> (\<forall>r \<in> set (fst (pager n a)). ident r \<le> b)
      \<and> (\<forall>r \<in> set (table n). past_id ident a r \<longrightarrow> ident r < b \<longrightarrow> r \<in> set (fst (pager n a)))"
begin

definition exported :: "nat \<Rightarrow> uuid option \<Rightarrow> 'r list \<Rightarrow> nat \<Rightarrow> bool" where
  "exported n a out m =
     (n < m \<and> sorted_wrt (<) (map ident out)
      \<and> (\<forall>r \<in> set out. past_id ident a r \<and> (\<exists>k \<in> {n..<m}. r \<in> set (table k)))
      \<and> (\<forall>r. past_id ident a r \<longrightarrow> (\<forall>k \<in> {n..<m}. r \<in> set (table k)) \<longrightarrow> r \<in> set out))"

lemma exported_last:
  assumes "distinct (map ident (table n))" "snd (pager n a) = None"
  shows "exported n a (fst (pager n a)) (Suc n)"
proof -
  have "\<exists>k \<in> {n..<Suc n}. r \<in> set (table k)" if "r \<in> set (table n)" for r using that by (intro bexI [of _ n]) simp_all
  then show ?thesis unfolding exported_def using page_rows [of _ n a] page_sorted [OF assms(1)] page_last [OF assms(2)] by simp
qed

lemma exported_more:
  assumes "distinct (map ident (table n))" "snd (pager n a) = Some b" "exported (Suc n) (Some b) out m"
  shows "exported n a (fst (pager n a) @ out) m"
proof -
  let ?rows = "fst (pager n a)"
  note more = page_more [OF assms(2)]
  have ab: "past_id ident a r" if "b < ident r" for r
  proof -
    obtain r0 where "r0 \<in> set ?rows" "ident r0 = b" using more by blast
    then have "past_id ident a r0" using page_rows by blast
    with that \<open>ident r0 = b\<close> show ?thesis by (auto simp: past_id_def split: option.splits)
  qed
  have out: "\<forall>r \<in> set out. b < ident r" using assms(3) by (auto simp: exported_def past_id_def)
  have "ident x < ident y" if "x \<in> set ?rows" "y \<in> set out" for x y
    using more out that order.strict_trans1 [of "ident x" b "ident y"] by blast
  then have sorted: "sorted_wrt (<) (map ident (?rows @ out))"
    using page_sorted [OF assms(1), of a] assms(3) by (simp add: exported_def sorted_wrt_append)
  have mem: "r \<in> set (?rows @ out)" if "past_id ident a r" "\<forall>k \<in> {n..<m}. r \<in> set (table k)" for r
  proof (cases "b < ident r")
    case True
    then have "r \<in> set out" using assms(3) that(2) by (auto simp: exported_def past_id_def)
    then show ?thesis by simp
  next
    case False
    have here: "r \<in> set (table n)" using that(2) assms(3) by (auto simp: exported_def)
    show ?thesis
    proof (cases "ident r = b")
      case True
      obtain r0 where r0: "r0 \<in> set ?rows" "ident r0 = b" using more by blast
      then have "r0 \<in> set (table n)" using page_rows by blast
      with here True r0(2) assms(1) have "r = r0" by (auto simp: distinct_map inj_on_def)
      with r0(1) show ?thesis by simp
    qed (use more here that(1) False in auto)
  qed
  have src: "past_id ident a r \<and> (\<exists>k \<in> {n..<m}. r \<in> set (table k))" if "r \<in> set (?rows @ out)" for r
  proof (cases "r \<in> set ?rows")
    case True
    with page_rows have "r \<in> set (table n)" "past_id ident a r" by blast+
    moreover have "n \<in> {n..<m}" using assms(3) by (simp add: exported_def)
    ultimately show ?thesis by blast
  next
    case False
    with that have r: "r \<in> set out" by simp
    with out ab have "past_id ident a r" by blast
    moreover obtain k where "k \<in> {Suc n..<m}" "r \<in> set (table k)" using assms(3) r unfolding exported_def by blast
    moreover then have "k \<in> {n..<m}" by simp
    ultimately show ?thesis by blast
  qed
  show ?thesis using sorted mem src assms(3) by (auto simp: exported_def simp del: map_append set_append)
qed

text \<open>If only finitely many identifiers ever occur, the loop ends.\<close>

lemma pump_exported:
  assumes "finite U" "\<And>k. ident ` set (table k) \<subseteq> U" "\<And>k. distinct (map ident (table k))"
  shows "\<exists>out m. pump pager n a written = Some (written @ out, m) \<and> exported n a out m"
proof (induction "card {u \<in> U. case a of None \<Rightarrow> True | Some x \<Rightarrow> x < u}" arbitrary: n a written rule: less_induct)
  case less
  show ?case
  proof (cases "snd (pager n a)")
    case None
    then show ?thesis
      using exported_last [OF assms(3) None] by (intro exI [of _ "fst (pager n a)"] exI [of _ "Suc n"]) (simp add: pump.simps [of pager n a])
  next
    case (Some b)
    obtain r where r: "r \<in> set (fst (pager n a))" "ident r = b" using page_more [OF Some] by blast
    then have b: "b \<in> U" "past_id ident a r" using page_rows assms(2) by blast+
    let ?A = "{u \<in> U. case a of None \<Rightarrow> True | Some x \<Rightarrow> x < u}"
    let ?B = "{u \<in> U. case Some b of None \<Rightarrow> True | Some x \<Rightarrow> x < u}"
    have "?B \<subseteq> ?A" using b(2) r(2) by (auto simp: past_id_def split: option.splits)
    moreover have "b \<in> ?A" "b \<notin> ?B" using b r(2) by (auto simp: past_id_def split: option.splits)
    ultimately have "?B \<subset> ?A" by blast
    then have "card ?B < card ?A" using assms(1) by (intro psubset_card_mono) auto
    from less.hyps [OF this, of "Suc n" "written @ fst (pager n a)"] obtain out m where
      IH: "pump pager (Suc n) (Some b) (written @ fst (pager n a)) = Some ((written @ fst (pager n a)) @ out, m)"
        "exported (Suc n) (Some b) out m" by blast
    then show ?thesis
      using exported_more [OF assms(3) Some IH(2)] Some
      by (intro exI [of _ "fst (pager n a) @ out"] exI [of _ m]) (simp add: pump.simps [of pager n a])
  qed
qed

end

section \<open>The pagers of the export keep the promise\<close>

lemma export_page_rows: "r \<in> set (fst (export_page ident table a)) \<Longrightarrow> r \<in> set table \<and> past_id ident a r"
  by (auto simp: export_page_def Let_def order_asc_def dest!: in_set_takeD)

lemma export_page_sorted:
  assumes "distinct (map ident table)"
  shows "sorted_wrt (<) (map ident (fst (export_page ident table a)))"
proof -
  let ?s = "sort_key ident (filter (past_id ident a) table)"
  have "sorted (map ident ?s)" by simp
  moreover have "distinct (map ident ?s)" using assms by (auto simp: distinct_map inj_on_def)
  ultimately have "sorted_wrt (<) (map ident ?s)" by (simp add: strict_sorted_iff)
  then show ?thesis by (simp add: export_page_def Let_def order_asc_def sorted_wrt_take flip: take_map)
qed

lemma export_page_last:
  assumes "snd (export_page ident table a) = None" "r \<in> set table" "past_id ident a r"
  shows "r \<in> set (fst (export_page ident table a))"
proof -
  let ?s = "sort_key ident (filter (past_id ident a) table)"
  have "length (take EXPORT_PAGE_SIZE ?s) < EXPORT_PAGE_SIZE"
    using assms(1) by (cases "?s = []") (simp_all add: export_page_def Let_def order_asc_def EXPORT_PAGE_SIZE_def split: if_splits)
  then have "take EXPORT_PAGE_SIZE ?s = ?s" by simp
  then show ?thesis using assms(2,3) by (simp add: export_page_def Let_def order_asc_def)
qed

lemma sorted_le_last: "sorted_wrt (\<lambda>x y. f x \<le> (f y :: uuid)) xs \<Longrightarrow> r \<in> set xs \<Longrightarrow> f r \<le> f (last xs)"
  by (induction xs) auto

lemma export_page_more:
  assumes "snd (export_page ident table a) = Some b"
  shows "(\<exists>r \<in> set (fst (export_page ident table a)). ident r = b)
    \<and> (\<forall>r \<in> set (fst (export_page ident table a)). ident r \<le> b)
    \<and> (\<forall>r \<in> set table. past_id ident a r \<longrightarrow> ident r < b \<longrightarrow> r \<in> set (fst (export_page ident table a)))"
proof -
  let ?s = "sort_key ident (filter (past_id ident a) table)"
  let ?rows = "take EXPORT_PAGE_SIZE ?s"
  have rows: "fst (export_page ident table a) = ?rows" by (simp add: export_page_def Let_def order_asc_def)
  have b: "?rows \<noteq> []" "b = ident (last ?rows)"
    using assms by (auto simp: export_page_def Let_def order_asc_def split: if_splits)
  have srt: "sorted_wrt (\<lambda>x y. ident x \<le> ident y) (?rows @ drop EXPORT_PAGE_SIZE ?s)"
    using sorted_sort_key [of ident "filter (past_id ident a) table"] by (simp add: sorted_wrt_map)
  have "sorted_wrt (\<lambda>x y. ident x \<le> ident y) ?rows" using srt unfolding sorted_wrt_append by blast
  then have le: "\<forall>r \<in> set ?rows. ident r \<le> b" unfolding b(2) by (intro ballI sorted_le_last)
  have ge: "\<forall>r \<in> set (drop EXPORT_PAGE_SIZE ?s). b \<le> ident r"
    using srt b last_in_set [OF b(1)] unfolding sorted_wrt_append by blast
  have "r \<in> set ?rows" if "r \<in> set table" "past_id ident a r" "ident r < b" for r
  proof -
    have "r \<in> set (?rows @ drop EXPORT_PAGE_SIZE ?s)" using that by simp
    with ge that(3) show ?thesis by (metis Un_iff not_less set_append)
  qed
  then show ?thesis using rows le b last_in_set [OF b(1)] by auto
qed

lemma export_pager: "keyset_pager table ident (\<lambda>n. export_page ident (table n))"
  by (unfold_locales; (rule export_page_rows | rule export_page_sorted | rule export_page_last | rule export_page_more))

interpretation email_export: keyset_pager "\<lambda>n. filter (\<lambda>r. ec_orgId r = orgId) (emailChecks (dbs n))" ec_id
  "\<lambda>n. pageEmailChecksForExport (dbs n) orgId" for dbs orgId
  unfolding pageEmailChecksForExport_def by (rule export_pager)

interpretation phone_export: keyset_pager "\<lambda>n. filter (\<lambda>r. pc_orgId r = orgId) (phoneChecks (dbs n))" pc_id
  "\<lambda>n. pagePhoneChecksForExport (dbs n) orgId" for dbs orgId
  unfolding pagePhoneChecksForExport_def by (rule export_pager)

interpretation batch_export: keyset_pager "\<lambda>n. filter (\<lambda>r. b_orgId r = orgId) (batches (dbs n))" b_id
  "\<lambda>n. pageBatchesForExport (dbs n) orgId" for dbs orgId
  unfolding pageBatchesForExport_def by (rule export_pager)

interpretation ledger_export: keyset_pager "\<lambda>n. filter (\<lambda>r. l_orgId r = orgId) (creditLedger (dbs n))" l_id
  "\<lambda>n. pageLedgerForExport (dbs n) orgId" for dbs orgId
  unfolding pageLedgerForExport_def by (rule export_pager)

interpretation audit_export: keyset_pager "\<lambda>n. filter (\<lambda>r. ae_orgId r = Some orgId) (auditEvents (dbs n))" ae_id
  "\<lambda>n. pageAuditEventsForExport (dbs n) orgId" for dbs orgId
  unfolding pageAuditEventsForExport_def by (rule export_pager)

end
