(* ===== verification/Js_Codec.thy ===== *)
theory Js_Codec
  imports Calendar Js_Number
begin

text \<open>
  The two text encodings of the JavaScript library that the code uses for cursors: the ISO form of
  a \<open>Date\<close> (\<open>toISOString\<close>, and \<open>new Date(s)\<close> on that form) and \<open>base64url\<close> of a \<open>Buffer\<close>.
\<close>

section \<open>ISO dates\<close>

fun pad_digits :: "nat \<Rightarrow> nat \<Rightarrow> string" where
  "pad_digits 0 n = []"
| "pad_digits (Suc w) n = pad_digits w (n div 10) @ [char_of (48 + n mod 10)]"

definition year_text :: "int \<Rightarrow> string" where
  "year_text y =
     (if 0 \<le> y \<and> y \<le> 9999 then pad_digits 4 (nat y)
      else (if y < 0 then ''-'' else ''+'') @ pad_digits 6 (nat \<bar>y\<bar>))"

definition toISOString :: "time_ms \<Rightarrow> string" where
  "toISOString t =
     (let r = t mod MS_PER_DAY
      in year_text (utc_year t) @ ''-'' @ pad_digits 2 (nat (utc_month t + 1)) @ ''-'' @ pad_digits 2 (nat (utc_date t))
         @ ''T'' @ pad_digits 2 (nat (r div 3600000)) @ '':'' @ pad_digits 2 (nat (r div 60000 mod 60))
         @ '':'' @ pad_digits 2 (nat (r div 1000 mod 60)) @ ''.'' @ pad_digits 3 (nat (r mod 1000)) @ ''Z'')"

definition text_field :: "nat \<Rightarrow> nat \<Rightarrow> string \<Rightarrow> string" where
  "text_field i n s = take n (drop i s)"

text \<open>\<open>Date.parse\<close> on the form \<^verbatim>\<open>YYYY-MM-DDTHH:mm:ss.sssZ\<close>.\<close>

definition parse_iso :: "string \<Rightarrow> time_ms option" where
  "parse_iso s =
     (let v = (\<lambda>i n. digits_value (text_field i n s));
          fields = [(0, 4), (5, 2), (8, 2), (11, 2), (14, 2), (17, 2), (20, 3)]
      in if length s = 24 \<and> list_all (\<lambda>(i, n). list_all is_digit (text_field i n s)) fields
            \<and> text_field 4 1 s = ''-'' \<and> text_field 7 1 s = ''-'' \<and> text_field 10 1 s = ''T''
            \<and> text_field 13 1 s = '':'' \<and> text_field 16 1 s = '':'' \<and> text_field 19 1 s = ''.'' \<and> text_field 23 1 s = ''Z''
            \<and> 1 \<le> v 5 2 \<and> v 5 2 \<le> 12 \<and> 1 \<le> v 8 2 \<and> v 8 2 \<le> 31
            \<and> v 11 2 \<le> 23 \<and> v 14 2 \<le> 59 \<and> v 17 2 \<le> 59
         then Some (date_utc (v 0 4) (v 5 2 - 1) (v 8 2)
                + v 11 2 * 3600000 + v 14 2 * 60000 + v 17 2 * 1000 + v 20 3)
         else None)"

text \<open>\<open>new Date(s)\<close>: other forms are left to the engine, which is the argument \<open>engine_date\<close>.\<close>

definition js_date :: "(string \<Rightarrow> time_ms option) \<Rightarrow> string \<Rightarrow> time_ms option" where
  "js_date engine_date s = (case parse_iso s of Some t \<Rightarrow> Some t | None \<Rightarrow> engine_date s)"

lemma pad_digits_length [simp]: "length (pad_digits w n) = w"
  by (induction w arbitrary: n) simp_all

lemma pad_digits_digits: "list_all is_digit (pad_digits w n)"
proof (induction w arbitrary: n)
  case (Suc w)
  have "n mod 10 < 10" by simp
  with Suc show ?case by (simp add: is_digit_def)
qed simp

lemma digits_value_snoc: "digits_value (ds @ [c]) = digits_value ds * 10 + (int (char_code c) - 48)"
  by (simp add: digits_value_def)

lemma pad_digits_value: "n < 10 ^ w \<Longrightarrow> digits_value (pad_digits w n) = int n"
proof (induction w arbitrary: n)
  case (Suc w)
  then have "n div 10 < 10 ^ w" by (simp add: less_mult_imp_div_less mult.commute)
  with Suc.IH have "digits_value (pad_digits w (n div 10)) = int (n div 10)" by blast
  moreover have "n mod 10 < 10" by simp
  ultimately show ?case by (simp add: digits_value_snoc zdiv_int zmod_int)
qed simp

lemma pad_digits_int: "0 \<le> k \<Longrightarrow> k < 10 ^ w \<Longrightarrow> digits_value (pad_digits w (nat k)) = k"
  using pad_digits_value [of "nat k" w] by (simp add: nat_less_iff)

lemma time_of_day_split:
  assumes "0 \<le> r" "r < 86400000"
  shows "r div 3600000 * 3600000 + r div 60000 mod 60 * 60000 + r div 1000 mod 60 * 1000 + r mod 1000 = (r::int)"
    "0 \<le> r div 3600000" "r div 3600000 \<le> 23"
proof -
  have "r = r div 1000 * 1000 + r mod 1000" by simp
  moreover have "r div 1000 = r div 60000 * 60 + r div 1000 mod 60"
    using zdiv_zmult2_eq [of 60 r 1000] by (simp add: mult.commute)
  moreover have "r div 60000 = r div 3600000 * 60 + r div 60000 mod 60"
    using zdiv_zmult2_eq [of 60 r 60000] by (simp add: mult.commute)
  ultimately show "r div 3600000 * 3600000 + r div 60000 mod 60 * 60000 + r div 1000 mod 60 * 1000 + r mod 1000 = r" by linarith
qed (use assms in linarith)+

lemma utc_date_bounds: "1 \<le> utc_date t" "utc_date t \<le> 31"
proof -
  let ?l = "leap_year (utc_year t)"
  have "0 \<le> yd \<Longrightarrow> yd < (if l then 366 else 365) \<Longrightarrow>
      month_starts l ! nat (month_of_yday l yd) \<le> yd \<and> yd \<le> month_starts l ! nat (month_of_yday l yd) + 30" for l yd
    by (cases l) (auto simp: month_of_yday_def month_starts_def)
  from this [OF utc_yday_bounds [of t]] show "1 \<le> utc_date t" "utc_date t \<le> 31" by (simp_all add: utc_date_def utc_month_def)
qed

lemma date_utc_of_parts: "date_utc (utc_year t) (utc_month t) (utc_date t) = t div MS_PER_DAY * MS_PER_DAY"
  using month_of_yday_bounds [OF utc_yday_bounds, of t]
  by (simp add: date_utc_def make_day_def Let_def utc_date_def utc_month_def utc_yday_def day_of_def)

text \<open>A date of a four-digit year comes back from its ISO text.\<close>

lemma parse_iso_toISOString:
  assumes "0 \<le> utc_year t" "utc_year t \<le> 9999"
  shows "parse_iso (toISOString t) = Some t"
proof -
  define r where "r = t mod MS_PER_DAY"
  define h mi se ms where hms: "h = r div 3600000" "mi = r div 60000 mod 60" "se = r div 1000 mod 60" "ms = r mod 1000"
  have r: "0 \<le> r" "r < 86400000" by (simp_all add: r_def MS_PER_DAY_def)
  have h: "0 \<le> h" "h \<le> 23" and rest: "0 \<le> mi" "mi \<le> 59" "0 \<le> se" "se \<le> 59" "0 \<le> ms" "ms \<le> 999"
    using time_of_day_split(2,3) [OF r] by (simp_all add: hms)
  have m: "0 \<le> utc_month t" "utc_month t \<le> 11"
    using month_of_yday_bounds [OF utc_yday_bounds, of t] by (auto simp: utc_month_def)
  note d = utc_date_bounds [of t]
  have iso: "toISOString t = pad_digits 4 (nat (utc_year t)) @ ''-'' @ pad_digits 2 (nat (utc_month t + 1)) @ ''-''
      @ pad_digits 2 (nat (utc_date t)) @ ''T'' @ pad_digits 2 (nat h) @ '':''
      @ pad_digits 2 (nat mi) @ '':'' @ pad_digits 2 (nat se) @ ''.'' @ pad_digits 3 (nat ms) @ ''Z''"
    using assms by (simp add: toISOString_def year_text_def r_def hms Let_def del: pad_digits.simps)
  have "t = t div MS_PER_DAY * MS_PER_DAY + r" by (simp add: r_def)
  then have sum: "date_utc (utc_year t) (utc_month t) (utc_date t) + h * 3600000 + mi * 60000 + se * 1000 + ms = t"
    using time_of_day_split(1) [OF r] by (simp add: date_utc_of_parts hms)
  have v: "digits_value (pad_digits 4 (nat (utc_year t))) = utc_year t"
    "digits_value (pad_digits 2 (nat (utc_month t + 1))) = utc_month t + 1"
    "digits_value (pad_digits 2 (nat (utc_date t))) = utc_date t"
    "digits_value (pad_digits 2 (nat h)) = h" "digits_value (pad_digits 2 (nat mi)) = mi"
    "digits_value (pad_digits 2 (nat se)) = se" "digits_value (pad_digits 3 (nat ms)) = ms"
    using assms m d h rest by (auto intro!: pad_digits_int simp del: pad_digits.simps)
  show ?thesis
    using sum m d h rest
    by (simp add: parse_iso_def iso text_field_def pad_digits_digits v Let_def del: pad_digits.simps)
qed

section \<open>base64url\<close>

text \<open>\<open>Buffer.from(s, 'utf8').toString('base64url')\<close> and back, on strings of ASCII characters, where
  each character is one byte. Decoding is as lenient as Node's: both alphabets are accepted, other
  characters are skipped, and the text ends at the first padding sign.\<close>

definition BASE64URL :: string where
  "BASE64URL = ''ABCDEFGHIJKLMNOPQRSTUVWXYZabcdefghijklmnopqrstuvwxyz0123456789-_''"

fun base64_sextets :: "nat list \<Rightarrow> nat list" where
  "base64_sextets [] = []"
| "base64_sextets [a] = [a div 4, a mod 4 * 16]"
| "base64_sextets [a, b] = [a div 4, a mod 4 * 16 + b div 16, b mod 16 * 4]"
| "base64_sextets (a # b # c # bs) =
     [a div 4, a mod 4 * 16 + b div 16, b mod 16 * 4 + c div 64, c mod 64] @ base64_sextets bs"

definition to_base64url :: "string \<Rightarrow> string" where
  "to_base64url s = map (\<lambda>v. BASE64URL ! v) (base64_sextets (map char_code s))"

definition base64_value :: "char \<Rightarrow> nat option" where
  "base64_value c =
     (let n = char_code c
      in if 65 \<le> n \<and> n \<le> 90 then Some (n - 65)
         else if 97 \<le> n \<and> n \<le> 122 then Some (n - 71)
         else if 48 \<le> n \<and> n \<le> 57 then Some (n + 4)
         else if n = 43 \<or> n = 45 then Some 62
         else if n = 47 \<or> n = 95 then Some 63 else None)"

fun base64_bytes :: "nat list \<Rightarrow> nat list" where
  "base64_bytes (a # b # c # d # vs) =
     [a * 4 + b div 16, b mod 16 * 16 + c div 4, c mod 4 * 64 + d] @ base64_bytes vs"
| "base64_bytes [a, b, c] = [a * 4 + b div 16, b mod 16 * 16 + c div 4]"
| "base64_bytes [a, b] = [a * 4 + b div 16]"
| "base64_bytes _ = []"

definition from_base64url :: "string \<Rightarrow> string" where
  "from_base64url s = map char_of (base64_bytes (List.map_filter base64_value (takeWhile (\<lambda>c. c \<noteq> CHR ''='') s)))"

lemma base64_value_alphabet:
  assumes "v < 64"
  shows "base64_value (BASE64URL ! v) = Some v" "BASE64URL ! v \<noteq> CHR ''=''"
proof -
  have len: "length BASE64URL = 64" by (simp add: BASE64URL_def)
  have "map base64_value BASE64URL = map Some [0..<64]"
    by (simp add: BASE64URL_def base64_value_def char_code_def upt_rec)
  then have "map base64_value BASE64URL ! v = map Some [0..<64] ! v" by simp
  with assms len show "base64_value (BASE64URL ! v) = Some v" by simp
  have "CHR ''='' \<notin> set BASE64URL" by (simp add: BASE64URL_def)
  with assms len show "BASE64URL ! v \<noteq> CHR ''=''" by (metis nth_mem)
qed

lemma byte_parts:
  fixes b :: nat
  assumes "b < 256"
  shows "b div 4 < 64" "b div 16 < 16" "b div 64 < 4"
  using assms by (simp_all add: div_less_iff_less_mult)

lemma base64_sextets_bound: "\<forall>b \<in> set bs. b < 256 \<Longrightarrow> \<forall>v \<in> set (base64_sextets bs). v < 64"
proof (induction bs rule: base64_sextets.induct)
  case (2 a)
  then have "a div 4 < 64" "a mod 4 < 4" by (simp_all add: byte_parts)
  then show ?case by simp
next
  case (3 a b)
  then have parts: "a div 4 < 64" "b div 16 < 16" by (simp_all add: byte_parts)
  have "a mod 4 < 4" "b mod 16 < 16" by simp_all
  with parts have "a mod 4 * 16 + b div 16 < 64" "b mod 16 * 4 < 64" by linarith+
  with parts show ?case by simp
next
  case (4 a b c bs)
  then have parts: "a div 4 < 64" "b div 16 < 16" "c div 64 < 4" by (simp_all add: byte_parts)
  have "a mod 4 < 4" "b mod 16 < 16" by simp_all
  with parts have "a mod 4 * 16 + b div 16 < 64" "b mod 16 * 4 + c div 64 < 64" by linarith+
  with 4 parts show ?case by simp
qed simp

lemma base64_bytes_sextets: "\<forall>b \<in> set bs. b < 256 \<Longrightarrow> base64_bytes (base64_sextets bs) = bs"
proof (induction bs rule: base64_sextets.induct)
  case (4 a b c bs)
  then have "b div 16 < 16" "c div 64 < 4" by (simp_all add: byte_parts)
  with 4 show ?case by simp
next
  case (3 a b)
  then have "b div 16 < 16" by (simp add: byte_parts)
  with 3 show ?case by simp
qed simp_all

lemma base64url_roundtrip [simp]: "from_base64url (to_base64url s) = s"
proof -
  let ?vs = "base64_sextets (map char_code s)"
  have bound: "\<forall>v \<in> set ?vs. v < 64" by (rule base64_sextets_bound) simp
  have "takeWhile (\<lambda>c. c \<noteq> CHR ''='') (to_base64url s) = to_base64url s"
    unfolding to_base64url_def takeWhile_eq_all_conv set_map
    by (intro ballI, elim imageE) (simp add: base64_value_alphabet(2) bound)
  moreover have vals: "List.map_filter base64_value (map (\<lambda>v. BASE64URL ! v) vs) = vs" if "\<forall>v \<in> set vs. v < 64" for vs
    using that by (induction vs) (simp_all add: map_filter_simps base64_value_alphabet)
  have "List.map_filter base64_value (to_base64url s) = ?vs"
    unfolding to_base64url_def by (rule vals [OF bound])
  moreover have "base64_bytes ?vs = map char_code s" by (rule base64_bytes_sextets) simp
  ultimately show ?thesis by (simp only: from_base64url_def) (simp add: comp_def char_code_def)
qed

end
