(* ===== verification/Db_Usage.thy ===== *)
theory Db_Usage
  imports Db_Batches Js_Codec "HOL-Library.Product_Lexorder" "HOL-Library.Multiset"
begin

text \<open>
  The reading side of \<^verbatim>\<open>packages/db/src/checks.ts\<close> and \<^verbatim>\<open>batches.ts\<close>: usage summary,
  keyset pagination with cursors, checks per day and the ledger with its running balance.

  A cursor holds the creation time as a \<open>Date\<close>, that is in whole milliseconds, while the column
  has microseconds. Its identifier is read by PostgreSQL's input function for \<open>uuid\<close>, which is a
  field of \<open>cursor_lib\<close> like the engine's parser for dates in other than the ISO form.
\<close>

record cursor_lib =
  cl_uuid_in :: "string \<Rightarrow> uuid option"
  cl_engine_date :: "string \<Rightarrow> time_ms option"

section \<open>Cursors\<close>

definition encodeCursor :: "time_ms \<Rightarrow> uuid \<Rightarrow> string" where
  "encodeCursor createdAt i = to_base64url (toISOString createdAt @ ''|'' @ i)"

definition decodeCursor :: "cursor_lib \<Rightarrow> string \<Rightarrow> (time_ms \<times> string) option" where
  "decodeCursor lib cursor =
     (let parts = js_split CHR ''|'' (from_base64url cursor)
      in case (js_get_index parts 0, js_get_index parts 1) of
           (Some isoText, Some i) \<Rightarrow> map_option (\<lambda>createdAt. (createdAt, i)) (js_date (cl_engine_date lib) isoText)
         | _ \<Rightarrow> None)"

text \<open>The row filter of a page, \<open>created_at < c or (created_at = c and id < i)\<close>.\<close>

definition after_cursor :: "('r \<Rightarrow> time_us) \<Rightarrow> ('r \<Rightarrow> uuid) \<Rightarrow> (time_ms \<times> uuid) option \<Rightarrow> 'r \<Rightarrow> bool" where
  "after_cursor created ident c r =
     (case c of
        None \<Rightarrow> True
      | Some (t, i) \<Rightarrow> created r < us_of t \<or> (created r = us_of t \<and> ident r < i))"

type_synonym 'r page = "'r list \<times> string option"

text \<open>One page of the rows, newest first: one row more than the limit is read to know whether there
  is another page, whose cursor is that of the last row shown.\<close>

definition page_after :: "('r \<Rightarrow> time_us) \<Rightarrow> ('r \<Rightarrow> uuid) \<Rightarrow> (time_ms \<times> uuid) option \<Rightarrow> nat \<Rightarrow> 'r list \<Rightarrow> 'r page" where
  "page_after created ident c limit table =
     (let rows = take (limit + 1) (order_desc (\<lambda>r. (created r, ident r)) (filter (after_cursor created ident c) table));
          page = take limit rows
      in (page, if limit < length rows \<and> page \<noteq> []
                then Some (encodeCursor (ms_of (created (last page))) (ident (last page))) else None))"

definition keyset_page ::
  "cursor_lib \<Rightarrow> ('r \<Rightarrow> time_us) \<Rightarrow> ('r \<Rightarrow> uuid) \<Rightarrow> string option \<Rightarrow> nat \<Rightarrow> 'r list \<Rightarrow> db_error + 'r page option" where
  "keyset_page lib created ident cursor limit table =
     (case cursor of
        None \<Rightarrow> Inr (Some (page_after created ident None limit table))
      | Some c \<Rightarrow>
          (case decodeCursor lib c of
             None \<Rightarrow> Inr None
           | Some (t, i) \<Rightarrow>
               (case cl_uuid_in lib i of
                  None \<Rightarrow> Inl (Thrown ''invalid input syntax for type uuid'')
                | Some i' \<Rightarrow> Inr (Some (page_after created ident (Some (t, i')) limit table)))))"

section \<open>Listings\<close>

definition listBatchesForOrg :: "cursor_lib \<Rightarrow> database \<Rightarrow> uuid \<Rightarrow> string option \<Rightarrow> nat \<Rightarrow> db_error + batch page option" where
  "listBatchesForOrg lib db orgId cursor limit =
     keyset_page lib b_createdAt b_id cursor limit (filter (\<lambda>b. b_orgId b = orgId) (batches db))"

definition ledger_page :: "cursor_lib \<Rightarrow> database \<Rightarrow> uuid \<Rightarrow> string option \<Rightarrow> nat \<Rightarrow> db_error + ledger_entry page option" where
  "ledger_page lib db orgId cursor limit = keyset_page lib l_createdAt l_id cursor limit (org_ledger db orgId)"

record usage_summary =
  us_balance :: int
  us_email :: int
  us_phone :: int
  us_total :: int
  us_ledger :: "ledger_entry page"

definition getUsageSummary ::
  "cursor_lib \<Rightarrow> database \<Rightarrow> uuid \<Rightarrow> string option \<Rightarrow> nat \<Rightarrow> time_ms \<Rightarrow> db_error + usage_summary option" where
  "getUsageSummary lib db orgId cursor limit now =
     (let monthStart = us_of (date_utc (utc_year now) (utc_month now) 1)
      in if (case cursor of None \<Rightarrow> False | Some c \<Rightarrow> decodeCursor lib c = None) then Inr None
         else
           and_then (to_int4 (ledger_sum db orgId)) (\<lambda>balance.
           and_then (to_int4 (int (length (filter (\<lambda>r. ec_orgId r = orgId \<and> monthStart \<le> ec_createdAt r) (emailChecks db))))) (\<lambda>email.
           and_then (to_int4 (int (length (filter (\<lambda>r. pc_orgId r = orgId \<and> monthStart \<le> pc_createdAt r) (phoneChecks db))))) (\<lambda>phone.
           and_then (ledger_page lib db orgId cursor limit) (\<lambda>page.
             Inr (map_option (\<lambda>p. \<lparr>us_balance = balance, us_email = email, us_phone = phone, us_total = email + phone,
               us_ledger = p\<rparr>) page))))))"

section \<open>Checks per day\<close>

text \<open>\<open>day::text\<close> of a date of the common era.\<close>

definition day_text :: "int \<Rightarrow> string" where
  "day_text day =
     (let t = day * MS_PER_DAY
      in pad_digits 4 (nat (utc_year t)) @ ''-'' @ pad_digits 2 (nat (utc_month t + 1)) @ ''-'' @ pad_digits 2 (nat (utc_date t)))"

definition day_of_us :: "time_us \<Rightarrow> int" where
  "day_of_us u = u div (MS_PER_DAY * 1000)"

definition getChecksPerDay :: "database \<Rightarrow> uuid \<Rightarrow> int \<Rightarrow> time_ms \<Rightarrow> (string \<times> nat) list" where
  "getChecksPerDay db orgId days now =
     (let since = us_of (now - days * 24 * 60 * 60 * 1000);
          emails = map (day_of_us \<circ> ec_createdAt) (filter (\<lambda>r. ec_orgId r = orgId \<and> since \<le> ec_createdAt r) (emailChecks db));
          phones = map (day_of_us \<circ> pc_createdAt) (filter (\<lambda>r. pc_orgId r = orgId \<and> since \<le> pc_createdAt r) (phoneChecks db))
      in map (\<lambda>d. (day_text d, count_list emails d + count_list phones d)) (sort (remdups (emails @ phones))))"

section \<open>Running balance\<close>

text \<open>The window sum over the history in order; \<open>::int\<close> raises when one leaves the range.\<close>

fun running :: "int \<Rightarrow> ledger_entry list \<Rightarrow> db_error + (ledger_entry \<times> int) list" where
  "running acc [] = Inr []"
| "running acc (e # es) =
     and_then (to_int4 (acc + l_delta e)) (\<lambda>b.
     and_then (running (acc + l_delta e) es) (\<lambda>rest. Inr ((e, b) # rest)))"

definition getLedgerWithRunningBalance ::
  "database \<Rightarrow> uuid \<Rightarrow> time_ms option \<Rightarrow> time_ms option \<Rightarrow> nat \<Rightarrow> db_error + (ledger_entry \<times> int) list" where
  "getLedgerWithRunningBalance db orgId fromDate toDate limit =
     and_then (running 0 (order_asc (\<lambda>e. (l_createdAt e, l_id e)) (org_ledger db orgId))) (\<lambda>history.
       Inr (take limit (order_desc (\<lambda>(e, _). (l_createdAt e, l_id e))
         (filter (\<lambda>(e, _). pred_option (\<lambda>t. us_of t \<le> l_createdAt e) fromDate
                          \<and> pred_option (\<lambda>t. l_createdAt e \<le> us_of t) toDate) history))))"

section \<open>Pagination\<close>

lemma toISOString_no_bar:
  assumes "0 \<le> utc_year t" "utc_year t \<le> 9999"
  shows "CHR ''|'' \<notin> set (toISOString t)"
proof -
  have "CHR ''|'' \<notin> set (pad_digits w n)" for w n
    using pad_digits_digits [of w n] by (auto simp: list_all_iff is_digit_def char_code_def)
  then show ?thesis using assms by (simp add: toISOString_def year_text_def Let_def del: pad_digits.simps)
qed

text \<open>A cursor decodes to the time in milliseconds and the identifier it was made of.\<close>

lemma decode_encodeCursor:
  assumes "0 \<le> utc_year t" "utc_year t \<le> 9999" "CHR ''|'' \<notin> set i"
  shows "decodeCursor lib (encodeCursor t i) = Some (t, i)"
proof -
  have "js_split CHR ''|'' (toISOString t @ ''|'' @ i) = [toISOString t, i]"
    using js_split_append [OF toISOString_no_bar [OF assms(1,2)], of i] assms(3) by (simp add: js_split_single)
  then show ?thesis
    by (simp add: decodeCursor_def encodeCursor_def js_get_index_def js_date_def parse_iso_toISOString [OF assms(1,2)])
qed

lemma strict_order_desc:
  assumes "distinct (map key rows)"
  shows "sorted_wrt (\<lambda>a b. key b < key a) (order_desc key rows)"
proof -
  have "sorted (map key (sort_key key rows))" by simp
  moreover have "distinct (map key (sort_key key rows))"
    using assms by (simp add: distinct_map)
  ultimately have "sorted_wrt (<) (map key (sort_key key rows))" by (simp add: strict_sorted_iff)
  then show ?thesis by (simp add: order_desc_def sorted_wrt_map sorted_wrt_rev)
qed

lemma filter_below_drop:
  assumes "sorted_wrt (\<lambda>a b. key b < (key a :: 'k::linorder)) rows" "n < length rows"
  shows "filter (\<lambda>r. key r < key (rows ! n)) rows = drop (Suc n) rows"
  using assms
proof (induction rows arbitrary: n)
  case (Cons r rows)
  show ?case
  proof (cases n)
    case 0
    with Cons.prems(1) show ?thesis by (auto simp: filter_id_conv)
  next
    case (Suc m)
    with Cons.prems have "key (rows ! m) < key r" by simp
    then have "\<not> key r < key (rows ! m)" by (rule less_not_sym)
    with Suc Cons show ?thesis by simp
  qed
qed simp

definition cursor_ready :: "cursor_lib \<Rightarrow> ('r \<Rightarrow> time_us) \<Rightarrow> ('r \<Rightarrow> uuid) \<Rightarrow> 'r \<Rightarrow> bool" where
  "cursor_ready lib created ident r =
     (created r mod 1000 = 0 \<and> 0 \<le> utc_year (ms_of (created r)) \<and> utc_year (ms_of (created r)) \<le> 9999
      \<and> CHR ''|'' \<notin> set (ident r) \<and> cl_uuid_in lib (ident r) = Some (ident r))"

text \<open>Rows whose times are whole milliseconds: the page after the row at a position starts at the
  next position, and it announces a next page exactly when rows are left.\<close>

lemma page_after_position:
  assumes "distinct (map (\<lambda>r. (created r, ident r)) table)" "0 < n \<Longrightarrow> created (rows ! (n - 1)) mod 1000 = 0"
    and "rows = order_desc (\<lambda>r. (created r, ident r)) table" "n \<le> length rows" "0 < limit"
    and "c = (if n = 0 then None else Some (ms_of (created (rows ! (n - 1))), ident (rows ! (n - 1))))"
  shows "page_after created ident c limit table =
    (take limit (drop n rows), if n + limit < length rows
       then Some (encodeCursor (ms_of (created (rows ! (n + limit - 1)))) (ident (rows ! (n + limit - 1)))) else None)"
proof -
  let ?key = "\<lambda>r. (created r, ident r)"
  have "order_desc ?key (filter (after_cursor created ident c) table) = filter (after_cursor created ident c) rows"
    by (simp add: assms(3) filter_order_desc)
  also have "\<dots> = drop n rows"
  proof (cases n)
    case 0
    then show ?thesis by (simp add: assms(6) after_cursor_def)
  next
    case (Suc m)
    then have m: "m < length rows" using assms(4) by simp
    have "us_of (ms_of (created (rows ! m))) = created (rows ! m)"
      using assms(2) Suc by (simp add: us_of_def ms_of_def) (metis add.right_neutral div_mult_mod_eq)
    then have "after_cursor created ident c = (\<lambda>r. ?key r < ?key (rows ! m))"
      by (auto simp: fun_eq_iff assms(6) Suc after_cursor_def)
    then show ?thesis
      using filter_below_drop [OF strict_order_desc [OF assms(1)], of m] m assms(3) Suc by simp
  qed
  finally have rows: "order_desc ?key (filter (after_cursor created ident c) table) = drop n rows" .
  define page where "page = take limit (drop n rows)"
  have page: "take limit (take (limit + 1) (drop n rows)) = page" by (simp add: page_def)
  have more: "limit < length (take (limit + 1) (drop n rows)) \<and> page \<noteq> [] \<longleftrightarrow> n + limit < length rows"
    using assms(5) by (auto simp: page_def)
  have "last page = rows ! (n + limit - 1)" if "n + limit < length rows"
    using that assms(5) by (simp add: page_def last_conv_nth)
  then show ?thesis unfolding page_after_def rows Let_def page more by (simp add: page_def)
qed

text \<open>A client that follows the cursors until there is none, with a bound on the requests.\<close>

fun walk_pages :: "nat \<Rightarrow> (string option \<Rightarrow> db_error + 'r page option) \<Rightarrow> string option \<Rightarrow> 'r list option" where
  "walk_pages 0 list_page c = None"
| "walk_pages (Suc n) list_page c =
     (case list_page c of
        Inr (Some (rows, next)) \<Rightarrow>
          (case next of
             None \<Rightarrow> Some rows
           | Some c' \<Rightarrow> map_option (\<lambda>rest. rows @ rest) (walk_pages n list_page (Some c')))
      | _ \<Rightarrow> None)"

definition cursor_at :: "('r \<Rightarrow> time_us) \<Rightarrow> ('r \<Rightarrow> uuid) \<Rightarrow> 'r list \<Rightarrow> nat \<Rightarrow> string option" where
  "cursor_at created ident rows n =
     (if n = 0 then None else Some (encodeCursor (ms_of (created (rows ! (n - 1)))) (ident (rows ! (n - 1)))))"

lemma keyset_page_position:
  assumes "distinct (map (\<lambda>r. (created r, ident r)) table)" "\<forall>r \<in> set table. cursor_ready lib created ident r"
    and "rows = order_desc (\<lambda>r. (created r, ident r)) table" "n \<le> length rows" "0 < limit"
  shows "keyset_page lib created ident (cursor_at created ident rows n) limit table =
    Inr (Some (take limit (drop n rows), if n + limit < length rows then cursor_at created ident rows (n + limit) else None))"
proof -
  have ready: "cursor_ready lib created ident r" if "r \<in> set rows" for r
    using assms(2) that by (simp add: assms(3) order_desc_def)
  have "created (rows ! (n - 1)) mod 1000 = 0" if "0 < n"
    using ready [of "rows ! (n - 1)"] that assms(4) by (simp add: cursor_ready_def)
  note pos = page_after_position [OF assms(1) this assms(3,4,5) refl]
  show ?thesis
  proof (cases "n = 0")
    case True
    with pos assms(5) show ?thesis by (simp add: keyset_page_def cursor_at_def)
  next
    case False
    have r: "cursor_ready lib created ident (rows ! (n - 1))" using False assms(4) by (intro ready) simp
    then have "decodeCursor lib (encodeCursor (ms_of (created (rows ! (n - 1)))) (ident (rows ! (n - 1)))) =
        Some (ms_of (created (rows ! (n - 1))), ident (rows ! (n - 1)))"
      by (intro decode_encodeCursor) (simp_all add: cursor_ready_def)
    with False r pos show ?thesis by (simp add: keyset_page_def cursor_at_def cursor_ready_def)
  qed
qed

lemma keyset_walk:
  assumes "distinct (map (\<lambda>r. (created r, ident r)) table)" "\<forall>r \<in> set table. cursor_ready lib created ident r"
    and "rows = order_desc (\<lambda>r. (created r, ident r)) table" "0 < limit" "n \<le> length rows" "length rows - n < fuel"
  shows "walk_pages fuel (\<lambda>c. keyset_page lib created ident c limit table) (cursor_at created ident rows n) = Some (drop n rows)"
  using assms(5,6)
proof (induction fuel arbitrary: n)
  case (Suc fuel)
  note page = keyset_page_position [OF assms(1-3) Suc.prems(1) assms(4)]
  show ?case
  proof (cases "n + limit < length rows")
    case True
    then have "walk_pages fuel (\<lambda>c. keyset_page lib created ident c limit table) (cursor_at created ident rows (n + limit)) =
        Some (drop (n + limit) rows)"
      using Suc.prems(2) assms(4) by (intro Suc.IH) simp_all
    moreover obtain c where "cursor_at created ident rows (n + limit) = Some c"
      using assms(4) by (simp add: cursor_at_def)
    moreover have "take limit (drop n rows) @ drop (n + limit) rows = drop n rows"
      by (metis append_take_drop_id drop_drop add.commute)
    ultimately show ?thesis using True by (simp add: page)
  next
    case False
    then show ?thesis by (simp add: page)
  qed
qed simp

lemma distinct_keys: "distinct (map ident table) \<Longrightarrow> distinct (map (\<lambda>r. (created r, ident r)) table)"
  by (auto simp: distinct_map inj_on_def)

lemma distinct_map_filter_key: "distinct (map f xs) \<Longrightarrow> distinct (map f (filter P xs))"
  by (simp add: distinct_map inj_on_def)

text \<open>The contract of a listing endpoint: it serves the keyset pages of a selection of a table. What a
  client that follows the cursors gets is proved once from it.\<close>

locale paged_listing =
  fixes table :: "database \<Rightarrow> 'r list" and owned :: "uuid \<Rightarrow> 'r \<Rightarrow> bool"
    and created :: "'r \<Rightarrow> time_us" and ident :: "'r \<Rightarrow> uuid"
    and list_page :: "cursor_lib \<Rightarrow> database \<Rightarrow> uuid \<Rightarrow> string option \<Rightarrow> nat \<Rightarrow> db_error + 'r page option"
  assumes serves_pages: "list_page lib db orgId c limit = keyset_page lib created ident c limit (filter (owned orgId) (table db))"
begin

lemma walk_complete:
  assumes "0 < limit" "distinct (map ident (table db))" "\<forall>r \<in> set (table db). cursor_ready lib created ident r"
  shows "walk_pages (length (table db) + 1) (\<lambda>c. list_page lib db orgId c limit) None =
    Some (order_desc (\<lambda>r. (created r, ident r)) (filter (owned orgId) (table db)))"
proof -
  let ?rows = "order_desc (\<lambda>r. (created r, ident r)) (filter (owned orgId) (table db))"
  have "length ?rows - 0 < length (table db) + 1" by (simp add: order_desc_def le_imp_less_Suc)
  then have "walk_pages (length (table db) + 1)
      (\<lambda>c. keyset_page lib created ident c limit (filter (owned orgId) (table db))) (cursor_at created ident ?rows 0) = Some (drop 0 ?rows)"
    using assms by (intro keyset_walk distinct_keys distinct_map_filter_key refl) auto
  then show ?thesis by (simp add: serves_pages cursor_at_def)
qed

lemma bad_cursor_null:
  "decodeCursor lib c = None \<Longrightarrow> list_page lib db orgId (Some c) limit = Inr None"
  by (simp add: serves_pages keyset_page_def)

lemma bad_identifier_raises:
  assumes "0 \<le> utc_year t" "utc_year t \<le> 9999" "CHR ''|'' \<notin> set i" "cl_uuid_in lib i = None"
  shows "list_page lib db orgId (Some (encodeCursor t i)) limit = Inl (Thrown ''invalid input syntax for type uuid'')"
  using assms by (simp add: serves_pages keyset_page_def decode_encodeCursor)

end

interpretation ledger_listing: paged_listing creditLedger "\<lambda>orgId e. l_orgId e = orgId" l_createdAt l_id ledger_page
  by unfold_locales (simp add: ledger_page_def org_ledger_def)

interpretation batch_listing: paged_listing batches "\<lambda>orgId b. b_orgId b = orgId" b_createdAt b_id listBatchesForOrg
  by unfold_locales (simp add: listBatchesForOrg_def)

text \<open>C26: Following the cursors visits everything once and in order. When creation times are whole
  milliseconds, a client that asks for pages of the ledger or of the batches until no cursor comes
  back gets every row of the organisation exactly once, newest first, whatever the page size, and
  needs at most one request per row and one more.\<close>

theorem listings_complete:
  assumes "0 < limit" "distinct (map l_id (creditLedger db))" "distinct (map b_id (batches db))"
    and "\<forall>e \<in> set (creditLedger db). cursor_ready lib l_createdAt l_id e"
    and "\<forall>b \<in> set (batches db). cursor_ready lib b_createdAt b_id b"
  shows "walk_pages (length (creditLedger db) + 1) (\<lambda>c. ledger_page lib db orgId c limit) None =
      Some (order_desc (\<lambda>e. (l_createdAt e, l_id e)) (org_ledger db orgId))
    \<and> walk_pages (length (batches db) + 1) (\<lambda>c. listBatchesForOrg lib db orgId c limit) None =
      Some (order_desc (\<lambda>b. (b_createdAt b, b_id b)) (filter (\<lambda>b. b_orgId b = orgId) (batches db)))"
  unfolding org_ledger_def
  by (intro conjI ledger_listing.walk_complete batch_listing.walk_complete assms)

section \<open>Running balance and daily counts\<close>

lemma running_prefix_sums:
  assumes "sorted_wrt (\<lambda>a b. key a < key b) es" "running acc es = Inr h" "(e, b) \<in> set h"
  shows "e \<in> set es \<and> b = acc + sum_list (map l_delta (filter (\<lambda>f. key f \<le> (key e :: 'k::linorder)) es))"
  using assms
proof (induction es arbitrary: acc h)
  case (Cons x es)
  then obtain rest where rest: "running (acc + l_delta x) es = Inr rest" "h = (x, acc + l_delta x) # rest"
    by (auto simp: and_then_Inr to_int4_def split: if_splits)
  show ?case
  proof (cases "(e, b) = (x, acc + l_delta x)")
    case True
    have "filter (\<lambda>f. key f \<le> key x) es = []" using Cons.prems(1) by (auto simp: filter_empty_conv)
    with True show ?thesis by simp
  next
    case False
    with Cons.prems(3) rest(2) have "(e, b) \<in> set rest" by auto
    with Cons.IH [OF _ rest(1)] Cons.prems(1)
    have "e \<in> set es" "b = acc + l_delta x + sum_list (map l_delta (filter (\<lambda>f. key f \<le> key e) es))" by auto
    with Cons.prems(1) show ?thesis by (auto simp: less_imp_le)
  qed
qed simp

lemma sum_list_sort_filter: "sum_list (map f (filter P (sort_key k xs))) = (sum_list (map f (filter P xs)) :: int)"
  by (metis filter_sort mset_map mset_sort sum_mset_sum_list)

text \<open>C27: The running balance is true under every filter: next to a ledger entry stands the sum of all
  entries of the organisation up to and including it, whatever the date range and the page size hide.\<close>

theorem running_balance_true:
  assumes "getLedgerWithRunningBalance db orgId fromDate toDate limit = Inr rows" "(e, b) \<in> set rows"
    and "distinct (map l_id (creditLedger db))"
  shows "e \<in> set (org_ledger db orgId) \<and> b = sum_list (map l_delta
    (filter (\<lambda>f. (l_createdAt f, l_id f) \<le> (l_createdAt e, l_id e)) (org_ledger db orgId)))"
proof -
  let ?key = "\<lambda>e. (l_createdAt e, l_id e)"
  let ?es = "order_asc ?key (org_ledger db orgId)"
  obtain h where h: "running 0 ?es = Inr h" and mem: "(e, b) \<in> set h"
    using assms(1,2) by (auto simp: getLedgerWithRunningBalance_def and_then_Inr order_desc_def dest!: in_set_takeD)
  have "sorted_wrt (\<lambda>a b. ?key a < ?key b) ?es"
    using strict_order_desc [OF distinct_keys [OF distinct_map_filter_key [OF assms(3)]], of l_createdAt "\<lambda>e. l_orgId e = orgId"]
    by (simp add: order_desc_def order_asc_def org_ledger_def sorted_wrt_rev)
  from running_prefix_sums [OF this h mem] show ?thesis by (simp add: order_asc_def sum_list_sort_filter)
qed

lemma checks_per_day_total:
  "sum_list (map snd (getChecksPerDay db orgId days now)) =
     length (filter (\<lambda>r. ec_orgId r = orgId \<and> us_of (now - days * 24 * 60 * 60 * 1000) \<le> ec_createdAt r) (emailChecks db))
   + length (filter (\<lambda>r. pc_orgId r = orgId \<and> us_of (now - days * 24 * 60 * 60 * 1000) \<le> pc_createdAt r) (phoneChecks db))"
proof -
  have "sum_list (map (\<lambda>d. count_list xs d + count_list ys d) (sort (remdups (xs @ ys)))) = length xs + length ys"
    for xs ys :: "int list"
  proof -
    have "sum_list (map (\<lambda>d. count_list xs d + count_list ys d) (sort (remdups (xs @ ys)))) =
        (\<Sum>d \<in> set (xs @ ys). count_list xs d + count_list ys d)"
      by (simp add: sum_list_distinct_conv_sum_set)
    also have "\<dots> = length xs + length ys" by (simp add: sum.distrib sum_count_set)
    finally show ?thesis .
  qed
  then show ?thesis by (simp add: getChecksPerDay_def Let_def comp_def)
qed

section \<open>Examples\<close>

definition demo_lib :: cursor_lib where
  "demo_lib = \<lparr>cl_uuid_in = (\<lambda>s. if s \<noteq> [] \<and> list_all (\<lambda>c. c \<in> set ''0123456789abcdef-'') s then Some s else None),
     cl_engine_date = (\<lambda>_. None)\<rparr>"

definition usage_entry :: "uuid \<Rightarrow> int \<Rightarrow> time_us \<Rightarrow> ledger_entry" where
  "usage_entry i delta t = \<lparr>l_id = i, l_orgId = ''org-1'', l_delta = delta, l_reason = Grant, l_referenceId = Some i,
     l_note = None, l_createdAt = t\<rparr>"

definition usage_db :: "ledger_entry list \<Rightarrow> database" where
  "usage_db es = empty_db\<lparr>organizations := [demo_org], creditLedger := es\<rparr>"

definition whole_ms :: "ledger_entry list" where
  "whole_ms = [usage_entry ''a1'' 5 1000, usage_entry ''a2'' 7 3000, usage_entry ''a3'' (-2) 3000]"

lemma listings_complete_witness:
  "walk_pages 4 (\<lambda>c. ledger_page demo_lib (usage_db whole_ms) ''org-1'' c 1) None =
     Some [usage_entry ''a3'' (-2) 3000, usage_entry ''a2'' 7 3000, usage_entry ''a1'' 5 1000]"
proof -
  have h: "distinct (map l_id (creditLedger (usage_db whole_ms)))" "distinct (map b_id (batches (usage_db whole_ms)))"
    "\<forall>e \<in> set (creditLedger (usage_db whole_ms)). cursor_ready demo_lib l_createdAt l_id e"
    "\<forall>b \<in> set (batches (usage_db whole_ms)). cursor_ready demo_lib b_createdAt b_id b"
    by code_simp+
  have n: "length (creditLedger (usage_db whole_ms)) + 1 = 4"
    "order_desc (\<lambda>e. (l_createdAt e, l_id e)) (org_ledger (usage_db whole_ms) ''org-1'') =
       [usage_entry ''a3'' (-2) 3000, usage_entry ''a2'' 7 3000, usage_entry ''a1'' 5 1000]"
    by code_simp+
  from listings_complete [OF zero_less_one h, of "''org-1''"] show ?thesis by (simp only: n)
qed


lemma running_balance_true_witness:
  "getLedgerWithRunningBalance (usage_db whole_ms) ''org-1'' (Some 3) None 1 = Inr [(usage_entry ''a3'' (-2) 3000, 10)]
   \<and> (10 :: int) = sum_list (map l_delta (filter (\<lambda>f. (l_createdAt f, l_id f) \<le> (3000, ''a3'')) (org_ledger (usage_db whole_ms) ''org-1'')))"
proof
  show run: "getLedgerWithRunningBalance (usage_db whole_ms) ''org-1'' (Some 3) None 1 = Inr [(usage_entry ''a3'' (-2) 3000, 10)]"
    by code_simp
  have "distinct (map l_id (creditLedger (usage_db whole_ms)))" by code_simp
  from running_balance_true [OF run _ this, of "usage_entry ''a3'' (-2) 3000" 10]
  show "10 = sum_list (map l_delta (filter (\<lambda>f. (l_createdAt f, l_id f) \<le> (3000, ''a3'')) (org_ledger (usage_db whole_ms) ''org-1'')))"
    by (simp add: usage_entry_def)
qed

end
