(* ===== verification/Api_Http.thy ===== *)
theory Api_Http
  imports Db_Accounts Js_Codec
begin

text \<open>
  The HTTP surface all routes share: \<^verbatim>\<open>apps/api/src/errors.ts\<close>, the error handlers of
  \<^verbatim>\<open>plugins/foundation.ts\<close> and \<^verbatim>\<open>app.ts\<close>, the CORS scopes of \<^verbatim>\<open>cors.ts\<close>, and the
  process configuration of \<^verbatim>\<open>config.ts\<close>. A reply is its status and JSON body; a handler that
  raises is answered by the error handler.
\<close>

section \<open>Errors\<close>

datatype error_code = E_VALIDATION_ERROR | E_UNAUTHORIZED | E_INSUFFICIENT_CREDITS | E_NOT_FOUND | E_CONFLICT
  | E_PAYLOAD_TOO_LARGE | E_RATE_LIMITED | E_INTERNAL_ERROR

fun ERROR_CODES :: "error_code \<Rightarrow> nat" where
  "ERROR_CODES E_VALIDATION_ERROR = 400"
| "ERROR_CODES E_UNAUTHORIZED = 401"
| "ERROR_CODES E_INSUFFICIENT_CREDITS = 402"
| "ERROR_CODES E_NOT_FOUND = 404"
| "ERROR_CODES E_CONFLICT = 409"
| "ERROR_CODES E_PAYLOAD_TOO_LARGE = 413"
| "ERROR_CODES E_RATE_LIMITED = 429"
| "ERROR_CODES E_INTERNAL_ERROR = 500"

fun DEFAULT_MESSAGES :: "error_code \<Rightarrow> string" where
  "DEFAULT_MESSAGES E_VALIDATION_ERROR = ''The request is invalid.''"
| "DEFAULT_MESSAGES E_UNAUTHORIZED = ''Authentication is required.''"
| "DEFAULT_MESSAGES E_INSUFFICIENT_CREDITS = ''Not enough credits to perform this operation.''"
| "DEFAULT_MESSAGES E_NOT_FOUND = ''The requested resource does not exist.''"
| "DEFAULT_MESSAGES E_CONFLICT = ''The resource is in a state that does not allow this operation.''"
| "DEFAULT_MESSAGES E_PAYLOAD_TOO_LARGE = ''The request body is too large.''"
| "DEFAULT_MESSAGES E_RATE_LIMITED = ''Too many requests. Slow down and retry.''"
| "DEFAULT_MESSAGES E_INTERNAL_ERROR = ''An internal error occurred.''"

fun error_text :: "error_code \<Rightarrow> string" where
  "error_text E_VALIDATION_ERROR = ''VALIDATION_ERROR''"
| "error_text E_UNAUTHORIZED = ''UNAUTHORIZED''"
| "error_text E_INSUFFICIENT_CREDITS = ''INSUFFICIENT_CREDITS''"
| "error_text E_NOT_FOUND = ''NOT_FOUND''"
| "error_text E_CONFLICT = ''CONFLICT''"
| "error_text E_PAYLOAD_TOO_LARGE = ''PAYLOAD_TOO_LARGE''"
| "error_text E_RATE_LIMITED = ''RATE_LIMITED''"
| "error_text E_INTERNAL_ERROR = ''INTERNAL_ERROR''"

record http_reply =
  hr_status :: nat
  hr_body :: json

definition sendError :: "string \<Rightarrow> error_code \<Rightarrow> string \<Rightarrow> http_reply" where
  "sendError requestId code message =
     \<lparr>hr_status = ERROR_CODES code,
      hr_body = JObj [(''error'', JObj [(''code'', JStr (error_text code)), (''message'', JStr message),
                  (''request_id'', JStr requestId)])]\<rparr>"

text \<open>The call without a message.\<close>

definition send_default :: "string \<Rightarrow> error_code \<Rightarrow> http_reply" where
  "send_default requestId code = sendError requestId code (DEFAULT_MESSAGES code)"

definition send_ok :: "json \<Rightarrow> http_reply" where
  "send_ok body = \<lparr>hr_status = 200, hr_body = body\<rparr>"

lemma sendError_status [simp]: "hr_status (sendError i c m) = ERROR_CODES c" "hr_status (send_default i c) = ERROR_CODES c"
  by (simp_all add: sendError_def send_default_def)

lemma send_ok_status [simp]: "hr_status (send_ok b) = 200"
  by (simp add: send_ok_def)

lemma error_never_ok [simp]: "ERROR_CODES c \<noteq> 200" "Suc 199 \<noteq> ERROR_CODES c"
  by (cases c; simp)+

lemma error_reply_not_ok [simp]: "sendError i c m \<noteq> send_ok b" "send_default i c \<noteq> send_ok b"
  using error_never_ok [of c] by (metis sendError_status(1) send_ok_status, metis sendError_status(2) send_ok_status)

section \<open>Error handlers\<close>

definition in_range :: "nat option \<Rightarrow> nat \<Rightarrow> nat \<Rightarrow> bool" where
  "in_range s a b = (case s of Some n \<Rightarrow> a \<le> n \<and> n < b | None \<Rightarrow> False)"

definition classifyError :: "nat option \<Rightarrow> string option \<Rightarrow> error_code" where
  "classifyError statusCode code =
     (if code = Some ''FST_ERR_CTP_BODY_TOO_LARGE'' \<or> statusCode = Some 413 then E_PAYLOAD_TOO_LARGE
      else if statusCode = Some 429 then E_RATE_LIMITED
      else if statusCode = Some 401 then E_UNAUTHORIZED
      else if statusCode = Some 402 then E_INSUFFICIENT_CREDITS
      else if statusCode = Some 404 then E_NOT_FOUND
      else if statusCode = Some 409 then E_CONFLICT
      else if in_range statusCode 400 500 then E_VALIDATION_ERROR
      else E_INTERNAL_ERROR)"

definition classifyFrameworkError :: "nat option \<Rightarrow> string option \<Rightarrow> error_code" where
  "classifyFrameworkError statusCode code =
     (if code = Some ''FST_ERR_CTP_BODY_TOO_LARGE'' \<or> statusCode = Some 413 then E_PAYLOAD_TOO_LARGE
      else if statusCode = Some 429 then E_RATE_LIMITED
      else if statusCode = Some 401 then E_UNAUTHORIZED
      else if statusCode = Some 404 then E_NOT_FOUND
      else if in_range statusCode 400 500 then E_VALIDATION_ERROR
      else E_INTERNAL_ERROR)"

text \<open>The two classifiers differ at 402 and 409 only, and both keep the class of a client error.\<close>

lemma classifiers_agree:
  "classifyError s c = classifyFrameworkError s c \<or> (s = Some 402 \<or> s = Some 409) \<and> classifyFrameworkError s c = E_VALIDATION_ERROR"
  by (auto simp: classifyError_def classifyFrameworkError_def in_range_def)

lemma classify_client_errors:
  "c \<noteq> Some ''FST_ERR_CTP_BODY_TOO_LARGE'' \<Longrightarrow> in_range (Some (ERROR_CODES (classifyError s c))) 400 500 \<longleftrightarrow> in_range s 400 500"
  by (auto simp: classifyError_def in_range_def split: option.splits)

text \<open>Errors of the database carry no HTTP status.\<close>

definition error_handler :: "string \<Rightarrow> db_error + http_reply \<Rightarrow> http_reply" where
  "error_handler requestId r =
     (case r of Inr reply \<Rightarrow> reply | Inl _ \<Rightarrow> (let code = classifyError None None in send_default requestId code))"

lemma error_handler_raised: "error_handler i (Inl e) = send_default i E_INTERNAL_ERROR"
  by (simp add: error_handler_def classifyError_def in_range_def)

section \<open>Audit events of API-key requests\<close>

definition key_audit :: "uuid \<Rightarrow> uuid \<Rightarrow> string \<Rightarrow> string \<Rightarrow> string \<Rightarrow> json option \<Rightarrow> audit_event_input" where
  "key_audit orgId apiKeyId action targetType targetId metadata =
     \<lparr>ai_orgId = Some orgId, ai_actorUserId = None, ai_actorApiKeyId = Some apiKeyId, ai_action = action,
      ai_targetType = targetType, ai_targetId = targetId, ai_metadata = metadata\<rparr>"

section \<open>CORS\<close>

record cors_policy =
  cp_origin :: string
  cp_credentials :: bool
  cp_methods :: "string list"
  cp_headers :: "string list"

type_synonym headers = "(string \<times> string) list"

definition cors_headers :: "cors_policy \<Rightarrow> string option \<Rightarrow> headers" where
  "cors_headers policy origin =
     (if origin = Some (cp_origin policy)
      then [(''Access-Control-Allow-Origin'', cp_origin policy), (''Vary'', ''Origin'')]
           @ (if cp_credentials policy then [(''Access-Control-Allow-Credentials'', ''true'')] else [])
      else [])"

definition preflight_headers :: "cors_policy \<Rightarrow> string option \<Rightarrow> headers" where
  "preflight_headers policy origin =
     (if origin \<noteq> Some (cp_origin policy) then []
      else [(''Access-Control-Allow-Methods'', js_join '', '' (cp_methods policy)),
            (''Access-Control-Allow-Headers'', js_join '', '' (cp_headers policy)),
            (''Access-Control-Max-Age'', ''86400'')])"

text \<open>Another origin gets no CORS header at all, and credentials only ever go to the scope's own.\<close>

lemma cors_foreign_origin:
  "origin \<noteq> Some (cp_origin policy) \<Longrightarrow> cors_headers policy origin = [] \<and> preflight_headers policy origin = []"
  by (simp add: cors_headers_def preflight_headers_def)

lemma cors_no_credentials:
  "\<not> cp_credentials policy \<Longrightarrow> ''Access-Control-Allow-Credentials'' \<notin> fst ` set (cors_headers policy origin)"
  by (cases "origin = Some (cp_origin policy)") (simp_all add: cors_headers_def)

section \<open>Configuration\<close>

definition DEFAULT_API_PORT :: int where "DEFAULT_API_PORT = 3001"

definition blank :: "string option \<Rightarrow> bool" where
  "blank raw = (case raw of None \<Rightarrow> True | Some v \<Rightarrow> js_trim v = [])"

text \<open>\<open>Number(raw)\<close> on a port that is written in other than decimal digits, such as a hexadecimal
  or exponent form, is the argument \<open>js_Number\<close>; \<open>None\<close> is no integer.\<close>

definition parsePort :: "(string \<Rightarrow> int option) \<Rightarrow> string option \<Rightarrow> db_error + int" where
  "parsePort js_Number raw =
     (if blank raw then Inr DEFAULT_API_PORT
      else (case js_Number (the raw) of
              None \<Rightarrow> Inl (Thrown (''API_PORT must be an integer between 1 and 65535, received '' @ [CHR 0x22] @ the raw @ [CHR 0x22]))
            | Some port \<Rightarrow>
                if port < 1 \<or> 65535 < port
                then Inl (Thrown (''API_PORT must be an integer between 1 and 65535, received '' @ [CHR 0x22] @ the raw @ [CHR 0x22]))
                else Inr port))"

definition parseSmtpEnabled :: "string option \<Rightarrow> db_error + bool" where
  "parseSmtpEnabled raw =
     (if blank raw then Inr False
      else (let v = js_toLowerCase (js_trim (the raw))
            in if v = ''true'' \<or> v = ''1'' then Inr True
               else if v = ''false'' \<or> v = ''0'' then Inr False
               else Inl (Thrown ''SMTP_ENABLED must be a boolean'')))"

record internal_auth =
  ia_sessionSecret :: string
  ia_dashboardOrigin :: string
  ia_cookieSecure :: bool
  ia_billingBankDetails :: "string option"

definition parseInternalAuth :: "(string \<rightharpoonup> string) \<Rightarrow> db_error + internal_auth option" where
  "parseInternalAuth env =
     (if blank (env ''SESSION_SECRET'') then Inr None
      else (let secret = js_trim (the (env ''SESSION_SECRET''))
            in if length secret < 32 then Inl (Thrown ''SESSION_SECRET must be at least 32 characters'')
               else Inr (Some \<lparr>ia_sessionSecret = secret,
                      ia_dashboardOrigin = (if blank (env ''DASHBOARD_ORIGIN'') then ''http://localhost:3002''
                                            else js_trim (the (env ''DASHBOARD_ORIGIN''))),
                      ia_cookieSecure = (env ''NODE_ENV'' = Some ''production''),
                      ia_billingBankDetails = (if blank (env ''BILLING_BANK_DETAILS'') then None
                                               else Some (js_trim (the (env ''BILLING_BANK_DETAILS''))))\<rparr>)))"

record api_config =
  ac_port :: int
  ac_host :: string
  ac_redisUrl :: string
  ac_smtpEnabled :: bool
  ac_internalAuth :: "internal_auth option"
  ac_webOrigin :: string
  ac_metricsToken :: "string option"

definition readApiConfig :: "(string \<Rightarrow> int option) \<Rightarrow> (string \<rightharpoonup> string) \<Rightarrow> db_error + api_config" where
  "readApiConfig js_Number env =
     and_then (parsePort js_Number (env ''API_PORT'')) (\<lambda>port.
     and_then (parseSmtpEnabled (env ''SMTP_ENABLED'')) (\<lambda>smtp.
     and_then (parseInternalAuth env) (\<lambda>auth.
       Inr \<lparr>ac_port = port, ac_host = ''0.0.0.0'',
            ac_redisUrl = (if blank (env ''REDIS_URL'') then ''redis://localhost:6379'' else js_trim (the (env ''REDIS_URL''))),
            ac_smtpEnabled = smtp, ac_internalAuth = auth,
            ac_webOrigin = (if blank (env ''WEB_ORIGIN'') then ''http://localhost:3000'' else js_trim (the (env ''WEB_ORIGIN''))),
            ac_metricsToken = (if blank (env ''METRICS_TOKEN'') then None else Some (js_trim (the (env ''METRICS_TOKEN''))))\<rparr>)))"

lemma parsePort_range: "parsePort js_Number raw = Inr port \<Longrightarrow> 1 \<le> port \<and> port \<le> 65535"
  by (auto simp: parsePort_def DEFAULT_API_PORT_def split: if_splits option.splits)

lemma parseSmtpEnabled_explicit: "parseSmtpEnabled raw = Inr True \<Longrightarrow> \<not> blank raw"
  by (simp add: parseSmtpEnabled_def split: if_splits)

lemma parseInternalAuth_secret: "parseInternalAuth env = Inr (Some a) \<Longrightarrow> 32 \<le> length (ia_sessionSecret a)"
  by (auto simp: parseInternalAuth_def Let_def split: if_splits)

text \<open>An accepted configuration has a port in range and a session secret of at least 32 characters, and
  probing is on only if it was asked for.\<close>

lemma readApiConfig_sane:
  assumes "readApiConfig js_Number env = Inr c"
  shows "1 \<le> ac_port c \<and> ac_port c \<le> 65535"
    "ac_internalAuth c = Some a \<Longrightarrow> 32 \<le> length (ia_sessionSecret a)"
    "ac_smtpEnabled c \<Longrightarrow> \<not> blank (env ''SMTP_ENABLED'')"
proof -
  obtain p s a' where parts: "parsePort js_Number (env ''API_PORT'') = Inr p"
    "parseSmtpEnabled (env ''SMTP_ENABLED'') = Inr s" "parseInternalAuth env = Inr a'"
    and c: "ac_port c = p" "ac_smtpEnabled c = s" "ac_internalAuth c = a'"
    using assms unfolding readApiConfig_def and_then_Inr sum.inject by (elim exE conjE) (hypsubst, simp)
  show "1 \<le> ac_port c \<and> ac_port c \<le> 65535" using parsePort_range [OF parts(1)] c(1) by simp
  show "ac_internalAuth c = Some a \<Longrightarrow> 32 \<le> length (ia_sessionSecret a)"
    using parseInternalAuth_secret parts(3) c(3) by simp
  show "ac_smtpEnabled c \<Longrightarrow> \<not> blank (env ''SMTP_ENABLED'')"
    using parseSmtpEnabled_explicit parts(2) c(2) by simp
qed

end
