(* ===== verification/Api_Batches.thy ===== *)
theory Api_Batches
  imports Worker_Batch Db_Usage Api_Http
begin

text \<open>
  \<^verbatim>\<open>apps/api/src/csv-inspect.ts\<close> and \<^verbatim>\<open>routes/batches.ts\<close>: inspection of an uploaded CSV,
  and the batch endpoints over the database and the object storage. Parsed CSV records, the
  upload of the stream and the queue are arguments.
\<close>

section \<open>CSV inspection\<close>

definition MAX_BATCH_ROWS :: nat where "MAX_BATCH_ROWS = 100000"

definition EMAIL_HEADER_NAMES :: "string list" where
  "EMAIL_HEADER_NAMES = [''email'', ''e-mail'', ''mail'', ''email_address'', ''pochta'', ''elektron pochta'']"

definition DETECTION_SAMPLE_ROWS :: nat where "DETECTION_SAMPLE_ROWS = 50"

datatype csv_inspection = Csv_ok nat bool nat | Csv_empty | Csv_no_email_column | Csv_too_many_rows

definition column_count :: "string list list \<Rightarrow> nat \<Rightarrow> nat" where
  "column_count sample column = length (filter (\<lambda>r. CHR ''@'' \<in> set (js_at r column [])) sample)"

fun best_column :: "string list list \<Rightarrow> nat list \<Rightarrow> nat option \<Rightarrow> nat \<Rightarrow> nat option" where
  "best_column sample [] bestColumn bestCount = bestColumn"
| "best_column sample (column # columns) bestColumn bestCount =
     (let count = column_count sample column
      in if bestCount < count then best_column sample columns (Some column) count
         else best_column sample columns bestColumn bestCount)"

definition inspectCsv :: "string list list \<Rightarrow> csv_inspection" where
  "inspectCsv recs =
     (case recs of
        [] \<Rightarrow> Csv_empty
      | first # _ \<Rightarrow>
          (let records = length recs;
               sample = take DETECTION_SAMPLE_ROWS recs
           in case find_index (\<lambda>cell. js_toLowerCase (js_trim cell) \<in> set EMAIL_HEADER_NAMES) first of
                Some headerIndex \<Rightarrow>
                  (let totalRows = records - 1
                   in if totalRows = 0 then Csv_empty
                      else if MAX_BATCH_ROWS < totalRows then Csv_too_many_rows
                      else Csv_ok headerIndex True totalRows)
              | None \<Rightarrow>
                  (let columns = foldr max (map length sample) 0
                   in case best_column sample [0..<columns] None 0 of
                        None \<Rightarrow> Csv_no_email_column
                      | Some bestColumn \<Rightarrow>
                          if MAX_BATCH_ROWS < records then Csv_too_many_rows
                          else Csv_ok bestColumn False records)))"

section \<open>Upload\<close>

text \<open>An upload of a key resolves or rejects. When the inspection rejects first, the handler goes on
  while the upload may still be running: \<open>ue_settled\<close> tells whether it had ended by then.\<close>

record 's upload_env =
  ue_s3 :: "'s s3"
  ue_upload :: "string \<Rightarrow> 's \<Rightarrow> bool \<times> 's"
  ue_settled :: bool
  ue_tx :: tx_env
  ue_fail_tx :: tx_env
  ue_batchId :: uuid
  ue_now :: time_ms
  ue_enqueue_ok :: bool
  ue_requestId :: string

record upload_file =
  uf_filename :: string
  uf_records :: "db_error + string list list"
  uf_truncated :: bool

definition emptyStats :: "nat \<Rightarrow> bool \<Rightarrow> json" where
  "emptyStats column header = stats_json \<lparr>emailColumn = column, hasHeader = header\<rparr> no_stats"

definition inspection_message :: "csv_inspection \<Rightarrow> string" where
  "inspection_message i =
     (case i of
        Csv_too_many_rows \<Rightarrow> ''The file exceeds the maximum of '' @ nat_text MAX_BATCH_ROWS @ '' rows.''
      | Csv_empty \<Rightarrow> ''The file contains no data rows.''
      | _ \<Rightarrow> ''No email column could be detected.'')"

type_synonym 's route_result = "(db_error + http_reply) \<times> database \<times> 's"

text \<open>\<open>await deleteObjects([inputKey])\<close> before a refusal: a failure of it is raised.\<close>

definition delete_then_reply :: "'s s3 \<Rightarrow> string \<Rightarrow> http_reply \<Rightarrow> database \<Rightarrow> 's \<Rightarrow> 's route_result" where
  "delete_then_reply client key reply db st =
     (case deleteObjects client [key] st of
        (Inl e, st') \<Rightarrow> (Inl e, db, st')
      | (Inr _, st') \<Rightarrow> (Inr reply, db, st'))"

text \<open>\<open>deleteObjects([inputKey]).catch(() => undefined)\<close>.\<close>

definition delete_quietly :: "'s s3 \<Rightarrow> string \<Rightarrow> 's \<Rightarrow> 's" where
  "delete_quietly client key st = snd (deleteObjects client [key] st)"

definition created_reply :: "string \<Rightarrow> uuid \<Rightarrow> nat \<Rightarrow> int \<Rightarrow> http_reply" where
  "created_reply requestId batchId totalRows balance =
     send_ok (JObj [(''data'', JObj [(''batch_id'', JStr batchId), (''total_rows'', JNum (of_nat totalRows)),
         (''credit_cost'', JNum (of_nat totalRows)), (''status'', JStr ''pending'')]),
       (''meta'', JObj [(''request_id'', JStr requestId), (''credits_remaining'', JNum (of_int balance)),
         (''api_version'', JStr ''v1'')])])"

definition reserve_and_enqueue ::
  "'s upload_env \<Rightarrow> uuid \<Rightarrow> string \<Rightarrow> nat \<Rightarrow> bool \<Rightarrow> nat \<Rightarrow> database \<Rightarrow> 's \<Rightarrow> 's route_result" where
  "reserve_and_enqueue env orgId filename column header totalRows db st =
     (let i = ue_batchId env; rid = ue_requestId env;
          key = batchInputKey orgId i
      in case createBatchWithReservation (ue_tx env) db
                \<lparr>ci_batchId = i, ci_orgId = orgId, ci_filename = (if filename = [] then ''upload.csv'' else filename),
                 ci_totalRows = int totalRows, ci_inputObjectKey = key, ci_stats = emptyStats column header\<rparr> (ue_now env) of
           Inl e \<Rightarrow> (Inl e, db, st)
         | Inr (BatchOrgUnavailable, db1) \<Rightarrow> delete_then_reply (ue_s3 env) key (send_default rid E_UNAUTHORIZED) db1 st
         | Inr (BatchInsufficient _ shortfall, db1) \<Rightarrow>
             delete_then_reply (ue_s3 env) key
               (sendError rid E_INSUFFICIENT_CREDITS (''Not enough credits for this batch: '' @ int_text shortfall @ '' more needed.'')) db1 st
         | Inr (BatchCreated batch balance, db1) \<Rightarrow>
             if ue_enqueue_ok env then (Inr (created_reply rid i totalRows balance), db1, st)
             else (case failBatch (ue_fail_tx env) db1 i orgId (int totalRows) ''queue_unavailable'' of
                     Inl e \<Rightarrow> (Inl e, db1, st)
                   | Inr db2 \<Rightarrow> (Inr (send_default rid E_INTERNAL_ERROR), db2, delete_quietly (ue_s3 env) key st)))"

definition post_batch ::
  "'s upload_env \<Rightarrow> (uuid \<times> uuid) option \<Rightarrow> upload_file option \<Rightarrow> database \<Rightarrow> 's \<Rightarrow> 's route_result" where
  "post_batch env auth upload db st =
     (let rid = ue_requestId env
      in case auth of
           None \<Rightarrow> (Inr (send_default rid E_UNAUTHORIZED), db, st)
         | Some (apiKeyId, orgId) \<Rightarrow>
             (case upload of
                None \<Rightarrow> (Inr (sendError rid E_VALIDATION_ERROR ''A CSV file upload is required.''), db, st)
              | Some f \<Rightarrow>
                  (let key = batchInputKey orgId (ue_batchId env);
                       (uploaded, st1) = ue_upload env key st
                   in case uf_records f of
                        Inl _ \<Rightarrow>
                          (Inr (send_default rid E_INTERNAL_ERROR), db,
                           if ue_settled env then delete_quietly (ue_s3 env) key st1
                           else snd (ue_upload env key (delete_quietly (ue_s3 env) key st)))
                      | Inr recs \<Rightarrow>
                          if \<not> uploaded then (Inr (send_default rid E_INTERNAL_ERROR), db, delete_quietly (ue_s3 env) key st1)
                          else if uf_truncated f
                          then (case deleteObjects (ue_s3 env) [key] st1 of
                                  (Inr _, st2) \<Rightarrow> (Inr (send_default rid E_PAYLOAD_TOO_LARGE), db, st2)
                                | (Inl _, st2) \<Rightarrow> (Inr (send_default rid E_INTERNAL_ERROR), db, delete_quietly (ue_s3 env) key st2))
                          else (case inspectCsv recs of
                                  Csv_ok column header totalRows \<Rightarrow>
                                    reserve_and_enqueue env orgId (uf_filename f) column header totalRows db st1
                                | i \<Rightarrow> delete_then_reply (ue_s3 env) key
                                         (sendError rid E_VALIDATION_ERROR (inspection_message i)) db st1))))"

section \<open>Reading and deleting\<close>

definition json_field :: "json \<Rightarrow> string \<Rightarrow> json \<Rightarrow> json" where
  "json_field j k d =
     (case j of
        JObj kvs \<Rightarrow> (case map_of kvs k of None \<Rightarrow> d | Some JNull \<Rightarrow> d | Some v \<Rightarrow> v)
      | _ \<Rightarrow> d)"

fun batch_status_text :: "batch_status \<Rightarrow> string" where
  "batch_status_text Pending = ''pending''"
| "batch_status_text Validating = ''validating''"
| "batch_status_text Processing = ''processing''"
| "batch_status_text Done = ''done''"
| "batch_status_text Failed = ''failed''"

definition json_opt :: "('a \<Rightarrow> json) \<Rightarrow> 'a option \<Rightarrow> json" where
  "json_opt f x = (case x of None \<Rightarrow> JNull | Some v \<Rightarrow> f v)"

definition renderBatch :: "batch \<Rightarrow> (string \<times> json) list" where
  "renderBatch batch =
     (let stats = b_stats batch; num0 = JNum 0
      in [(''batch_id'', JStr (b_id batch)), (''filename'', JStr (b_filename batch)),
          (''status'', JStr (batch_status_text (b_status batch))), (''total_rows'', JNum (of_int (b_totalRows batch))),
          (''processed_rows'', JNum (of_int (b_processedRows batch))),
          (''malformed_rows'', json_field stats ''malformed_rows'' num0), (''charged_credits'', json_field stats ''charged'' num0),
          (''cached_rows'', json_field stats ''cached'' num0), (''duplicate_rows'', json_field stats ''duplicates'' num0),
          (''verdicts'', json_field stats ''distribution''
             (JObj [(''valid'', num0), (''invalid'', num0), (''risky'', num0), (''unknown'', num0)])),
          (''error'', json_opt JStr (b_error batch)),
          (''created_at'', JStr (toISOString (ms_of (b_createdAt batch)))),
          (''completed_at'', json_opt (\<lambda>t. JStr (toISOString (ms_of t))) (b_completedAt batch))])"

definition api_meta :: "string \<Rightarrow> string \<times> json" where
  "api_meta requestId = (''meta'', JObj [(''request_id'', JStr requestId), (''api_version'', JStr ''v1'')])"

definition get_batch :: "(string \<Rightarrow> string) \<Rightarrow> string \<Rightarrow> (uuid \<times> uuid) option \<Rightarrow> uuid \<Rightarrow> database \<Rightarrow> http_reply" where
  "get_batch presign rid auth i db =
     (case auth of
        None \<Rightarrow> send_default rid E_UNAUTHORIZED
      | Some (apiKeyId, orgId) \<Rightarrow>
          (case getBatchForOrg db i orgId of
             None \<Rightarrow> send_default rid E_NOT_FOUND
           | Some batch \<Rightarrow>
               (let url = (case b_resultObjectKey batch of
                             Some key \<Rightarrow> if b_status batch = Done then JStr (presign key) else JNull
                           | None \<Rightarrow> JNull)
                in send_ok (JObj [(''data'', JObj (renderBatch batch @ [(''download_url'', url)])), api_meta rid]))))"

definition DEFAULT_PAGE_SIZE :: nat where "DEFAULT_PAGE_SIZE = 20"
definition MAX_PAGE_SIZE :: int where "MAX_PAGE_SIZE = 100"

definition page_limit :: "(string \<Rightarrow> int option) \<Rightarrow> string option \<Rightarrow> nat option" where
  "page_limit js_Number raw =
     (case raw of
        None \<Rightarrow> Some DEFAULT_PAGE_SIZE
      | Some s \<Rightarrow>
          (case js_Number s of
             None \<Rightarrow> None
           | Some n \<Rightarrow> if n < 1 \<or> MAX_PAGE_SIZE < n then None else Some (nat n)))"

definition list_batches ::
  "cursor_lib \<Rightarrow> (string \<Rightarrow> int option) \<Rightarrow> string \<Rightarrow> (uuid \<times> uuid) option \<Rightarrow> string option \<Rightarrow> string option \<Rightarrow> database
     \<Rightarrow> db_error + http_reply" where
  "list_batches lib js_Number rid auth cursor rawLimit db =
     (case auth of
        None \<Rightarrow> Inr (send_default rid E_UNAUTHORIZED)
      | Some (apiKeyId, orgId) \<Rightarrow>
          (case page_limit js_Number rawLimit of
             None \<Rightarrow> Inr (send_default rid E_VALIDATION_ERROR)
           | Some limit \<Rightarrow>
               and_then (listBatchesForOrg lib db orgId cursor limit) (\<lambda>page.
                 Inr (case page of
                        None \<Rightarrow> send_default rid E_VALIDATION_ERROR
                      | Some (entries, nextCursor) \<Rightarrow>
                          send_ok (JObj [(''data'', JObj [(''batches'', JArr (map (\<lambda>b. JObj (renderBatch b)) entries)),
                              (''next_cursor'', json_opt JStr nextCursor)]), api_meta rid])))))"

definition BATCH_PROCESSING_DELETE_MESSAGE :: string where
  "BATCH_PROCESSING_DELETE_MESSAGE = ''The batch is currently being processed and cannot be deleted. Retry once it has completed or failed.''"

record delete_env =
  de_tx :: tx_env
  de_audit_now :: time_us
  de_audit_id :: uuid
  de_now :: time_ms
  de_requestId :: string

definition delete_batch ::
  "'s s3 \<Rightarrow> delete_env \<Rightarrow> (uuid \<times> uuid) option \<Rightarrow> uuid \<Rightarrow> database \<Rightarrow> 's \<Rightarrow> 's route_result" where
  "delete_batch client env auth i db st =
     (let rid = de_requestId env
      in case auth of
           None \<Rightarrow> (Inr (send_default rid E_UNAUTHORIZED), db, st)
         | Some (apiKeyId, orgId) \<Rightarrow>
             (case deleteBatchForOrg (de_tx env) db i orgId of
                Inl e \<Rightarrow> (Inl e, db, st)
              | Inr (BatchNotFound, db1) \<Rightarrow> (Inr (send_default rid E_NOT_FOUND), db1, st)
              | Inr (BatchProcessing, db1) \<Rightarrow> (Inr (sendError rid E_CONFLICT BATCH_PROCESSING_DELETE_MESSAGE), db1, st)
              | Inr (BatchDeleted inputKey resultKey refunded, db1) \<Rightarrow>
                  (let keys = [inputKey, case resultKey of Some k \<Rightarrow> k | None \<Rightarrow> batchResultKey orgId i];
                       st1 = snd (deleteObjects client keys st)
                   in case recordAuditEvent (de_audit_now env) (de_audit_id env) db1
                             (key_audit orgId apiKeyId ''batch.deleted'' ''batch'' i
                                (Some (JObj [(''objects_deleted'', JNum (of_nat (length keys))), (''credits_refunded'', JNum (of_int refunded))])))
                             (de_now env) of
                        Inl e \<Rightarrow> (Inl e, db1, st1)
                      | Inr db2 \<Rightarrow>
                          (Inr (send_ok (JObj [(''data'', JObj [(''deleted'', JBool True), (''batch_id'', JStr i)]), api_meta rid])),
                           db2, st1))))"

section \<open>Inspection and the worker agree\<close>

lemma best_column_bound:
  assumes "best_column sample cs best n = Some c" "best = None \<or> (\<exists>b. best = Some b \<and> column_count sample b = n)"
  shows "(c \<in> set cs \<or> best = Some c) \<and> (best = None \<longrightarrow> n < column_count sample c)
    \<and> n \<le> column_count sample c \<and> (\<forall>d \<in> set cs. column_count sample d \<le> column_count sample c)"
  using assms
proof (induction cs arbitrary: best n)
  case (Cons d cs)
  show ?case
  proof (cases "n < column_count sample d")
    case True
    with Cons.prems(1) have "best_column sample cs (Some d) (column_count sample d) = Some c" by (simp add: Let_def)
    from Cons.IH [OF this] True show ?thesis by auto
  next
    case False
    with Cons.prems(1) have "best_column sample cs best n = Some c" by (simp add: Let_def)
    from Cons.IH [OF this Cons.prems(2)] False show ?thesis by auto
  qed
qed auto

lemma inspectCsv_ok:
  assumes "inspectCsv recs = Csv_ok column header totalRows"
  shows "totalRows = length (data_records \<lparr>emailColumn = column, hasHeader = header\<rparr> recs)"
    and "1 \<le> totalRows" and "totalRows \<le> MAX_BATCH_ROWS"
proof -
  obtain first rest where r: "recs = first # rest" using assms by (cases recs) (auto simp: inspectCsv_def)
  show "totalRows = length (data_records \<lparr>emailColumn = column, hasHeader = header\<rparr> recs)" "1 \<le> totalRows"
    "totalRows \<le> MAX_BATCH_ROWS"
    using assms by (auto simp: inspectCsv_def r data_records_def Let_def Suc_le_eq split: option.splits if_splits)
qed

text \<open>Without a header the chosen column holds an at sign in most rows of the sample.\<close>

lemma inspectCsv_headerless:
  assumes "inspectCsv recs = Csv_ok column False totalRows" "d < foldr max (map length (take DETECTION_SAMPLE_ROWS recs)) 0"
  shows "0 < column_count (take DETECTION_SAMPLE_ROWS recs) column
    \<and> column_count (take DETECTION_SAMPLE_ROWS recs) d \<le> column_count (take DETECTION_SAMPLE_ROWS recs) column"
proof -
  let ?sample = "take DETECTION_SAMPLE_ROWS recs"
  obtain first rest where r: "recs = first # rest" using assms by (cases recs) (auto simp: inspectCsv_def)
  have "best_column ?sample [0..<foldr max (map length ?sample) 0] None 0 = Some column"
    using assms(1) by (auto simp: inspectCsv_def r Let_def split: option.splits if_splits)
  from best_column_bound [OF this] assms(2) show ?thesis by auto
qed

lemma readLayout_emptyStats: "readLayout (emptyStats column header) = Some \<lparr>emailColumn = column, hasHeader = header\<rparr>"
  by (simp add: readLayout_def emptyStats_def stats_json_def)

section \<open>What an upload leaves behind\<close>

text \<open>An upload adds at most the object it was asked for, and has when it resolves.\<close>

definition upload_documented :: "'s upload_env \<Rightarrow> ('s \<Rightarrow> string set) \<Rightarrow> bool" where
  "upload_documented env objects =
     (\<forall>key st ok st'. ue_upload env key st = (ok, st') \<longrightarrow>
        objects st \<subseteq> objects st' \<and> objects st' \<subseteq> insert key (objects st) \<and> (ok \<longrightarrow> key \<in> objects st'))"

text \<open>Identifiers drawn for the request are new to the ledger.\<close>

definition fresh_ids :: "'s upload_env \<Rightarrow> uuid \<Rightarrow> database \<Rightarrow> bool" where
  "fresh_ids env orgId db =
     (tx_ledger_id (ue_fail_tx env) \<notin> l_id ` set (creditLedger db) \<and> tx_ledger_id (ue_fail_tx env) \<noteq> tx_ledger_id (ue_tx env)
      \<and> \<not> reference_taken db orgId (Some (refundReference (ue_batchId env))))"

lemma failBatch_refunds:
  assumes "failBatch env db i o' n err = Inr db'" "0 < n"
    and "tx_ledger_id env \<notin> l_id ` set (creditLedger db)" "\<not> reference_taken db o' (Some (refundReference i))"
  shows "creditLedger db' = creditLedger db @ [refund_entry env o' i n ''Batch failed: full reservation refunded'']"
    and "batches db' = map (\<lambda>b. if b_id b = i then b\<lparr>b_status := Failed, b_error := Some err\<rparr> else b) (batches db)"
proof -
  define d where "d = update_batch db i (\<lambda>b. b\<lparr>b_status := Failed, b_error := Some err\<rparr>)"
  define e where "e = refund_entry env o' i n ''Batch failed: full reservation refunded''"
  have d: "creditLedger d = creditLedger db"
    "batches d = map (\<lambda>b. if b_id b = i then b\<lparr>b_status := Failed, b_error := Some err\<rparr> else b) (batches db)"
    by (simp_all add: d_def update_batch_def)
  have skip: "map_sum id snd (insert_ledger_skip d e) = Inr db'"
    using assms(1,2) by (simp add: failBatch_def Let_def d_def [symmetric] e_def [symmetric])
  obtain ins where ins: "insert_ledger_skip d e = Inr (ins, db')" using map_sum_snd_Inr [OF skip] by (elim exE)
  have "db' = d\<lparr>creditLedger := creditLedger d @ [e]\<rparr>"
    using ins
  proof (cases rule: insert_ledger_skip_cases)
    case inserted
    from insert_ledger_Inr(1) [OF inserted(2)] show ?thesis .
  next
    case skipped
    have "l_id e \<notin> l_id ` set (creditLedger d)" "\<not> reference_taken d (l_orgId e) (l_referenceId e)"
      using assms(3,4) d(1) by (simp_all add: e_def refund_entry_def reference_taken_def)
    with skipped(3) show ?thesis by (auto simp: insert_ledger_def split: if_splits)
  qed
  with d show "creditLedger db' = creditLedger db @ [refund_entry env o' i n ''Batch failed: full reservation refunded'']"
    "batches db' = map (\<lambda>b. if b_id b = i then b\<lparr>b_status := Failed, b_error := Some err\<rparr> else b) (batches db)"
    by (simp_all add: e_def)
qed

lemma delete_then_reply_Inr:
  assumes "delete_then_reply client key reply0 db st = (Inr reply, db', st')" "s3_documented client objects"
  shows "reply = reply0" "db' = db" "key \<notin> objects st'"
proof -
  obtain u where d: "deleteObjects client [key] st = (Inr u, st')" "reply = reply0" "db' = db"
    using assms(1) by (auto simp: delete_then_reply_def split: prod.splits sum.splits)
  then show "reply = reply0" "db' = db" by simp_all
  from deleteObjects_spec(3) [OF assms(2) d(1)] show "key \<notin> objects st'" by simp
qed

definition ledger_unchanged :: "database \<Rightarrow> database \<Rightarrow> bool" where
  "ledger_unchanged db db' = (\<forall>o'. ledger_sum db' o' = ledger_sum db o')"

lemma createBatch_refused:
  assumes "createBatchWithReservation env db input now = Inr (res, db')" "\<forall>b n. res \<noteq> BatchCreated b n"
  shows "db' = db"
  using assms by (auto simp: createBatchWithReservation_def and_then_Inr Let_def split: option.splits if_splits)

lemma createBatch_row:
  assumes "createBatchWithReservation env db input now = Inr (BatchCreated batch bal, db')"
  shows "batches db' = batches db @ [batch]" "b_stats batch = ci_stats input" "b_inputObjectKey batch = ci_inputObjectKey input"
    "creditLedger db' = creditLedger db @ [reservation_entry env input]"
  using assms
  by (auto simp: createBatchWithReservation_def batchLockedBalance_def and_then_Inr Let_def new_batch_row_def
      split: option.splits if_splits dest!: insert_batch_Inr insert_ledger_Inr(1))

lemma ledger_sum_snoc:
  "creditLedger db' = creditLedger db @ [e] \<Longrightarrow> ledger_sum db' o' = ledger_sum db o' + (if l_orgId e = o' then l_delta e else 0)"
  by (simp add: ledger_sum_def org_ledger_def)

definition upload_refused :: "('s \<Rightarrow> string set) \<Rightarrow> uuid \<Rightarrow> string \<Rightarrow> http_reply \<Rightarrow> database \<Rightarrow> database \<Rightarrow> 's \<Rightarrow> bool" where
  "upload_refused objects i key reply db db' st' =
     (ledger_unchanged db db' \<and> (hr_status reply \<noteq> 500 \<longrightarrow> key \<notin> objects st')
      \<and> (\<forall>b \<in> set (batches db'). b \<in> set (batches db) \<or> b_id b = i \<and> b_status b = Failed))"

definition upload_accepted :: "('s \<Rightarrow> string set) \<Rightarrow> uuid \<Rightarrow> uuid \<Rightarrow> string list list \<Rightarrow> database \<Rightarrow> database \<Rightarrow> 's \<Rightarrow> bool" where
  "upload_accepted objects orgId i recs db db' st' =
     (\<exists>column header totalRows b. inspectCsv recs = Csv_ok column header totalRows
        \<and> batches db' = batches db @ [b] \<and> b_id b = i \<and> b_orgId b = orgId \<and> b_status b = Pending
        \<and> b_totalRows b = int totalRows \<and> b_stats b = emptyStats column header
        \<and> b_inputObjectKey b = batchInputKey orgId i \<and> batchInputKey orgId i \<in> objects st'
        \<and> i \<notin> b_id ` set (batches db)
        \<and> (\<forall>o'. ledger_sum db' o' = ledger_sum db o' - (if o' = orgId then int totalRows else 0)))"

lemma refused_same: "key \<notin> objects st' \<or> hr_status reply = 500 \<Longrightarrow> upload_refused objects i key reply db db st'"
  by (auto simp: upload_refused_def ledger_unchanged_def)

lemma reserve_and_enqueue_outcome:
  assumes "s3_documented (ue_s3 env) objects" "fresh_ids env orgId db" "batchInputKey orgId (ue_batchId env) \<in> objects st"
    and "inspectCsv recs = Csv_ok column header totalRows"
    and "reserve_and_enqueue env orgId filename column header totalRows db st = (Inr reply, db', st')"
  shows "if hr_status reply = 200 then upload_accepted objects orgId (ue_batchId env) recs db db' st'
    else upload_refused objects (ue_batchId env) (batchInputKey orgId (ue_batchId env)) reply db db' st'"
proof -
  let ?i = "ue_batchId env"
  let ?key = "batchInputKey orgId ?i"
  let ?in = "\<lparr>ci_batchId = ?i, ci_orgId = orgId, ci_filename = (if filename = [] then ''upload.csv'' else filename),
     ci_totalRows = int totalRows, ci_inputObjectKey = ?key, ci_stats = emptyStats column header\<rparr>"
  obtain res db1 where cr: "createBatchWithReservation (ue_tx env) db ?in (ue_now env) = Inr (res, db1)"
    using assms(5) by (auto simp: reserve_and_enqueue_def Let_def split: sum.splits)
  note total = inspectCsv_ok(2) [OF assms(4)]
  show ?thesis
  proof (cases res)
    case BatchOrgUnavailable
    with assms(5) cr have "delete_then_reply (ue_s3 env) ?key (send_default (ue_requestId env) E_UNAUTHORIZED) db1 st = (Inr reply, db', st')"
      by (simp add: reserve_and_enqueue_def Let_def)
    from delete_then_reply_Inr [OF this assms(1)] createBatch_refused [OF cr] BatchOrgUnavailable
    show ?thesis by (simp add: refused_same)
  next
    case (BatchInsufficient a shortfall)
    with assms(5) cr have "delete_then_reply (ue_s3 env) ?key (sendError (ue_requestId env) E_INSUFFICIENT_CREDITS
        (''Not enough credits for this batch: '' @ int_text shortfall @ '' more needed.'')) db1 st = (Inr reply, db', st')"
      by (simp add: reserve_and_enqueue_def Let_def)
    from delete_then_reply_Inr [OF this assms(1)] createBatch_refused [OF cr] BatchInsufficient
    show ?thesis by (simp add: refused_same)
  next
    case (BatchCreated batch balance)
    note made = createBatch_created [OF cr [unfolded BatchCreated]]
    note row = createBatch_row [OF cr [unfolded BatchCreated]]
    have sum: "ledger_sum db1 o' = ledger_sum db o' - (if o' = orgId then int totalRows else 0)" for o'
      using ledger_sum_snoc [OF row(4), of o'] by (simp add: reservation_entry_def)
    show ?thesis
    proof (cases "ue_enqueue_ok env")
      case True
      with assms(5) cr BatchCreated have "reply = created_reply (ue_requestId env) ?i totalRows balance" "db' = db1" "st' = st"
        by (simp_all add: reserve_and_enqueue_def Let_def)
      moreover have "upload_accepted objects orgId ?i recs db db1 st"
        unfolding upload_accepted_def using assms(3,4) made row sum by (intro exI [of _ column] exI [of _ header] exI [of _ totalRows] exI [of _ batch]) simp
      ultimately show ?thesis by (simp add: created_reply_def)
    next
      case False
      then obtain fl: "failBatch (ue_fail_tx env) db1 ?i orgId (int totalRows) ''queue_unavailable'' = Inr db'"
        and rep: "reply = send_default (ue_requestId env) E_INTERNAL_ERROR"
        using assms(5) cr BatchCreated by (auto simp: reserve_and_enqueue_def Let_def split: sum.splits)
      have "tx_ledger_id (ue_fail_tx env) \<notin> l_id ` set (creditLedger db1)"
        "\<not> reference_taken db1 orgId (Some (refundReference ?i))"
        using assms(2) by (auto simp: fresh_ids_def row(4) reservation_entry_def reference_taken_def refundReference_def)
      note failed = failBatch_refunds [OF fl _ this]
      have "ledger_unchanged db db'"
        using failed(1) total sum ledger_sum_snoc [of db' db1] by (auto simp: ledger_unchanged_def refund_entry_def)
      moreover have "\<forall>b \<in> set (batches db'). b \<in> set (batches db) \<or> b_id b = ?i \<and> b_status b = Failed"
        using failed(2) total made(7) by (auto simp: row(1) made(3))
      ultimately show ?thesis by (simp add: upload_refused_def rep)
    qed
  qed
qed


lemma post_batch_recs:
  assumes "uf_records f = Inr recs"
    and "ue_upload env (batchInputKey orgId (ue_batchId env)) st = (uploaded, st1)"
    and "post_batch env (Some (apiKeyId, orgId)) (Some f) db st = (Inr reply, db', st')"
    and "s3_documented (ue_s3 env) objects"
  obtains (created) column header totalRows where "uploaded" "inspectCsv recs = Csv_ok column header totalRows"
      "reserve_and_enqueue env orgId (uf_filename f) column header totalRows db st1 = (Inr reply, db', st')"
  | (refused) "db' = db" "hr_status reply \<noteq> 200"
      "hr_status reply = 500 \<or> batchInputKey orgId (ue_batchId env) \<notin> objects st'"
proof -
  let ?key = "batchInputKey orgId (ue_batchId env)"
  have reply0: thesis
    if "delete_then_reply (ue_s3 env) ?key (sendError (ue_requestId env) c m) db st1 = (Inr reply, db', st')" for c m
    using delete_then_reply_Inr [OF that assms(4)] by (intro refused) simp_all
  note run = assms(3) [unfolded post_batch_def Let_def assms(1,2) option.case prod.case sum.case]
  show thesis
  proof (cases "uploaded \<and> \<not> uf_truncated f")
    case True
    show thesis
    proof (cases "inspectCsv recs")
      case (Csv_ok column header totalRows)
      with True run show thesis by (intro created) simp_all
    qed (use True run in \<open>auto intro: reply0\<close>)
  next
    case False
    note neg = this
    show thesis
    proof (cases uploaded)
      case False
      with run show thesis by (intro refused) auto
    next
      case True
      obtain r st2 where del: "deleteObjects (ue_s3 env) [?key] st1 = (r, st2)" by fastforce
      show thesis
      proof (cases r)
        case (Inl e)
        with run neg True del show thesis by (intro refused) auto
      next
        case (Inr u)
        with deleteObjects_spec(3) [OF assms(4) del] run neg True del show thesis by (intro refused) auto
      qed
    qed
  qed
qed

lemma post_batch_answered:
  assumes "s3_documented (ue_s3 env) objects" "upload_documented env objects" "fresh_ids env orgId db"
    and "post_batch env (Some (apiKeyId, orgId)) (Some f) db st = (Inr reply, db', st')"
  shows "if hr_status reply = 200
    then \<exists>recs. uf_records f = Inr recs \<and> upload_accepted objects orgId (ue_batchId env) recs db db' st'
    else upload_refused objects (ue_batchId env) (batchInputKey orgId (ue_batchId env)) reply db db' st'"
proof (cases "uf_records f")
  case (Inl e)
  with assms(4) have "db' = db" "hr_status reply = 500" by (auto simp: post_batch_def Let_def split: prod.splits)
  then show ?thesis by (simp add: refused_same)
next
  case (Inr recs)
  let ?key = "batchInputKey orgId (ue_batchId env)"
  obtain uploaded st1 where up: "ue_upload env ?key st = (uploaded, st1)" by fastforce
  from Inr up assms(4,1) show ?thesis
  proof (cases rule: post_batch_recs)
    case (created column header totalRows)
    have "?key \<in> objects st1" using assms(2) up created(1) by (auto simp: upload_documented_def)
    from reserve_and_enqueue_outcome [OF assms(1,3) this created(2,3)] Inr show ?thesis by (auto split: if_splits)
  next
    case refused
    then show ?thesis by (auto simp: refused_same)
  qed
qed

text \<open>C14: An upload that is answered has charged for a batch that can run, or for nothing. The reply is
  200 exactly when a pending batch with the layout and the row count of the inspected file has been
  created under the organization, the file is stored under its key, and the organization's ledger has
  gone down by one credit per data row. Every other reply leaves every organization's ledger sum as it
  was, adds at most a batch that is already failed, and, unless it is an internal error, leaves no
  stored file.\<close>

theorem upload_outcome:
  assumes "s3_documented (ue_s3 env) objects" "upload_documented env objects" "fresh_ids env orgId db"
    and "post_batch env (Some (apiKeyId, orgId)) (Some f) db st = (Inr reply, db', st')"
  shows "if hr_status reply = 200
    then \<exists>recs. uf_records f = Inr recs \<and> upload_accepted objects orgId (ue_batchId env) recs db db' st'
    else upload_refused objects (ue_batchId env) (batchInputKey orgId (ue_batchId env)) reply db db' st'"
  by (rule post_batch_answered [OF assms])

text \<open>An inspection that fails while the upload is still running cannot delete what the upload is
  writing: the request is refused and its file stays, under a key no batch names.\<close>

lemma upload_orphan:
  assumes "uf_records f = Inl e" "\<not> ue_settled env" "upload_documented env objects"
    and "ue_upload env (batchInputKey orgId (ue_batchId env))
        (delete_quietly (ue_s3 env) (batchInputKey orgId (ue_batchId env)) st) = (True, st2)"
  shows "post_batch env (Some (apiKeyId, orgId)) (Some f) db st = (Inr (send_default (ue_requestId env) E_INTERNAL_ERROR), db, st2)
    \<and> batchInputKey orgId (ue_batchId env) \<in> objects st2"
proof -
  have "batchInputKey orgId (ue_batchId env) \<in> objects st2" using assms(3,4) by (auto simp: upload_documented_def)
  then show ?thesis using assms(1,2,4) by (simp add: post_batch_def Let_def split: prod.splits)
qed

section \<open>From the upload to the settled batch\<close>

lemma addresses_le: "length (addresses layout rows) \<le> length rows"
  by (simp add: addresses_def)

lemma accepted_batch_settles:
  assumes "upload_accepted objects orgId i recs db db' st'" "\<forall>b \<in> set (batches dbw). b_id b = i \<longrightarrow> b \<in> set (batches db')"
    and "processBatch w i recs throws dbw = Inr (B_done s, dbd)"
    and "\<And>layout. inj_on (bw_sha256Hex w) (set (addresses layout (data_records layout recs)))"
  shows "int (br_processed s) \<le> int MAX_BATCH_ROWS \<and> bs_charged (br_stats s) \<le> br_processed s
    \<and> (\<forall>o'. (ledger_sum db' o' - ledger_sum db o') + (ledger_sum dbd o' - ledger_sum dbw o')
         = - (if o' = orgId then int (bs_charged (br_stats s)) else 0))"
proof -
  obtain column header total b where ok: "inspectCsv recs = Csv_ok column header total"
    and b: "batches db' = batches db @ [b]" "b_orgId b = orgId" "b_totalRows b = int total" "b_stats b = emptyStats column header"
      "i \<notin> b_id ` set (batches db)" "b_id b = i"
    and paid: "\<And>o'. ledger_sum db' o' = ledger_sum db o' - (if o' = orgId then int total else 0)"
    using assms(1) by (auto simp: upload_accepted_def)
  obtain b1 layout r where cl: "claimBatchForProcessing dbw i = (Claimed b1 r, snd (claimBatchForProcessing dbw i))"
    and layout: "readLayout (b_stats b1) = Some layout"
    and run: "bs_charged (br_stats s) \<le> card (set (addresses layout (data_records layout recs)))"
      "br_processed s = length (data_records layout recs)"
    and l: "creditLedger dbd = creditLedger dbw @
        (let refund = b_totalRows b1 - int (bs_charged (br_stats s))
         in if 0 < refund then [refund_entry (bw_tx w) (b_orgId b1) i refund ''Batch reconciliation: reserved minus charged''] else [])"
    using batch_job_done [OF assms(3,4)] by (elim exE conjE)
  obtain b0 where b0: "b0 \<in> set (batches dbw)" "b_id b0 = i" "b1 = b0\<lparr>b_status := Processing\<rparr>"
    using claimed_row [OF cl] by blast
  then have "b0 = b" using assms(2) b(1,5) by auto
  then have b1: "b_orgId b1 = orgId" "b_totalRows b1 = int total" "b_stats b1 = emptyStats column header"
    using b0(3) b(2-4) by simp_all
  have rows: "total = br_processed s"
    using inspectCsv_ok(1) [OF ok] run(2) layout b1(3) by (simp add: readLayout_emptyStats)
  have charged: "bs_charged (br_stats s) \<le> br_processed s"
    using run card_length [of "addresses layout (data_records layout recs)"] addresses_le [of layout "data_records layout recs"] by simp
  have "ledger_sum dbd o' = ledger_sum dbw o' + (if o' = orgId then int total - int (bs_charged (br_stats s)) else 0)" for o'
    using l b1 charged rows by (auto simp: Let_def refund_entry_def ledger_sum_snoc split: if_splits simp: ledger_sum_def org_ledger_def)
  then show ?thesis using paid rows charged inspectCsv_ok(3) [OF ok] by auto
qed

text \<open>C13: End to end, a batch costs its charged rows. When an upload answered 200 is later processed to
  the end, by a worker that reads the same records and in whatever state the database has reached as
  long as the batch row is still the one created, the debit at the upload and the refund at settlement
  together take exactly the charged rows from the organization, nothing from any other, and the charged
  rows are at most the processed rows, at most 100000.\<close>

theorem upload_and_process_cost:
  assumes "s3_documented (ue_s3 env) objects" "upload_documented env objects" "fresh_ids env orgId db"
    and "post_batch env (Some (apiKeyId, orgId)) (Some f) db st = (Inr reply, db', st')" "hr_status reply = 200"
    and "uf_records f = Inr recs" "\<forall>b \<in> set (batches dbw). b_id b = ue_batchId env \<longrightarrow> b \<in> set (batches db')"
    and "processBatch w (ue_batchId env) recs throws dbw = Inr (B_done s, dbd)"
    and "\<And>layout. inj_on (bw_sha256Hex w) (set (addresses layout (data_records layout recs)))"
  shows "int (br_processed s) \<le> int MAX_BATCH_ROWS \<and> bs_charged (br_stats s) \<le> br_processed s
    \<and> (\<forall>o'. (ledger_sum db' o' - ledger_sum db o') + (ledger_sum dbd o' - ledger_sum dbw o')
         = - (if o' = orgId then int (bs_charged (br_stats s)) else 0))"
proof -
  have "upload_accepted objects orgId (ue_batchId env) recs db db' st'"
    using post_batch_answered [OF assms(1-4)] assms(5,6) by simp
  from accepted_batch_settles [OF this assms(7-9)] show ?thesis .
qed

section \<open>A concrete upload\<close>

definition demo_upload_env :: "string list upload_env" where
  "demo_upload_env = \<lparr>ue_s3 = memory_s3, ue_upload = (\<lambda>key bucket. (True, key # bucket)), ue_settled = True,
     ue_tx = \<lparr>tx_now = 5000, tx_uuid = ''u'', tx_ledger_id = ''l-7''\<rparr>,
     ue_fail_tx = \<lparr>tx_now = 5000, tx_uuid = ''u'', tx_ledger_id = ''l-8''\<rparr>,
     ue_batchId = ''b-1'', ue_now = 5, ue_enqueue_ok = True, ue_requestId = ''r''\<rparr>"

definition demo_upload :: upload_file where
  "demo_upload = \<lparr>uf_filename = ''f.csv'', uf_records = Inr demo_records, uf_truncated = False\<rparr>"

definition demo_posted :: "string list route_result" where
  "demo_posted = post_batch demo_upload_env (Some (''key-1'', ''org-1'')) (Some demo_upload) (demo_db 5) []"

definition demo_posted_reply :: http_reply where
  "demo_posted_reply = (case fst demo_posted of Inr r \<Rightarrow> r | Inl _ \<Rightarrow> send_ok JNull)"

definition demo_posted_db :: database where "demo_posted_db = fst (snd demo_posted)"

definition demo_settled :: "db_error + batch_outcome \<times> database" where
  "demo_settled = processBatch demo_batch_world ''b-1'' demo_records False demo_posted_db"

definition demo_settled_run :: batch_run where
  "demo_settled_run = (case demo_settled of Inr (B_done s, _) \<Rightarrow> s | _ \<Rightarrow> batch_start demo_posted_db)"

definition demo_settled_db :: database where
  "demo_settled_db = (case demo_settled of Inr (_, d) \<Rightarrow> d | _ \<Rightarrow> demo_posted_db)"

lemma demo_inspected: "inspectCsv demo_records = Csv_ok 0 True 4"
proof -
  have "find_index (\<lambda>cell. js_toLowerCase (js_trim cell) \<in> set EMAIL_HEADER_NAMES) [''email''] = Some 0" by code_simp
  then show ?thesis by (simp add: inspectCsv_def demo_records_def Let_def MAX_BATCH_ROWS_def)
qed

lemma demo_posted_reserve:
  "demo_posted = reserve_and_enqueue demo_upload_env ''org-1'' ''f.csv'' 0 True 4 (demo_db 5) [batchInputKey ''org-1'' ''b-1'']"
proof -
  have e: "uf_records demo_upload = Inr demo_records" "uf_truncated demo_upload = False" "uf_filename demo_upload = ''f.csv''"
    "ue_batchId demo_upload_env = ''b-1''" "ue_upload demo_upload_env k [] = (True, [k])" for k
    by (simp_all add: demo_upload_env_def demo_upload_def)
  show ?thesis unfolding demo_posted_def post_batch_def Let_def by (simp add: e demo_inspected)
qed

lemma demo_posted_Inr:
  "post_batch demo_upload_env (Some (''key-1'', ''org-1'')) (Some demo_upload) (demo_db 5) []
     = (Inr demo_posted_reply, demo_posted_db, snd (snd demo_posted))"
proof -
  have "isl (fst demo_posted) = False" unfolding demo_posted_reserve by code_simp
  then obtain r where "fst demo_posted = Inr r" by (metis sum.collapse(2))
  then show ?thesis unfolding demo_posted_reply_def demo_posted_db_def demo_posted_def [symmetric] by (simp add: prod_eq_iff)
qed

lemma demo_posted_ok: "hr_status demo_posted_reply = 200"
  unfolding demo_posted_reply_def demo_posted_reserve by code_simp

lemma demo_settled_Inr: "processBatch demo_batch_world ''b-1'' demo_records False demo_posted_db = Inr (B_done demo_settled_run, demo_settled_db)"
proof -
  have "(case demo_settled of Inr (B_done s, _) \<Rightarrow> True | _ \<Rightarrow> False)"
    unfolding demo_settled_def demo_posted_db_def demo_posted_reserve by code_simp
  then show ?thesis
    unfolding demo_settled_run_def demo_settled_db_def demo_settled_def by (auto split: sum.splits batch_outcome.splits)
qed

lemma demo_upload_documented: "upload_documented demo_upload_env set"
  by (auto simp: upload_documented_def demo_upload_env_def)

lemma demo_upload_s3: "s3_documented (ue_s3 demo_upload_env) set"
  using memory_documented by (simp add: demo_upload_env_def)

lemma demo_fresh_ids: "fresh_ids demo_upload_env ''org-1'' (demo_db 5)"
  by (simp add: fresh_ids_def demo_upload_env_def demo_db_def demo_grant_def reference_taken_def refundReference_def)

theorem upload_outcome_witness:
  "upload_accepted set ''org-1'' ''b-1'' demo_records (demo_db 5) demo_posted_db (snd (snd demo_posted))"
proof -
  have "ue_batchId demo_upload_env = ''b-1''" "uf_records demo_upload = Inr demo_records"
    by (simp_all add: demo_upload_env_def demo_upload_def)
  then show ?thesis
    using upload_outcome [OF demo_upload_s3 demo_upload_documented demo_fresh_ids demo_posted_Inr] demo_posted_ok by simp
qed

theorem upload_and_process_cost_witness:
  "ledger_sum demo_settled_db ''org-1'' = ledger_sum (demo_db 5) ''org-1'' - 1"
proof -
  have e: "ue_batchId demo_upload_env = ''b-1''" "uf_records demo_upload = Inr demo_records"
    by (simp_all add: demo_upload_env_def demo_upload_def)
  have inj: "inj_on (bw_sha256Hex demo_batch_world) A" for A by (simp add: demo_batch_world_def)
  have one: "bs_charged (br_stats demo_settled_run) = 1"
    unfolding demo_settled_run_def demo_settled_def demo_posted_db_def demo_posted_reserve by code_simp
  have all: "\<forall>o'. (ledger_sum demo_posted_db o' - ledger_sum (demo_db 5) o') + (ledger_sum demo_settled_db o' - ledger_sum demo_posted_db o')
      = - (if o' = ''org-1'' then int (bs_charged (br_stats demo_settled_run)) else 0)"
    using upload_and_process_cost [OF demo_upload_s3 demo_upload_documented demo_fresh_ids demo_posted_Inr demo_posted_ok e(2),
        where dbw = demo_posted_db and w = demo_batch_world and throws = False and s = demo_settled_run and dbd = demo_settled_db]
      demo_settled_Inr e(1) inj by simp
  show ?thesis using spec [OF all, of "''org-1''"] one by simp
qed

end
