(* ===== verification/Api_Export.thy ===== *)
theory Api_Export
  imports Db_Export Api_Batches
begin

text \<open>
  \<^verbatim>\<open>apps/api/src/internal/data-export.ts\<close>: the CSV files of one organization's data, their ZIP
  in the object storage and the signed link. The ZIP encoder, the streaming upload and the link are
  arguments, and so is the text of a number that is no integer.
\<close>

section \<open>JSON text\<close>

definition hex_digit :: "nat \<Rightarrow> char" where
  "hex_digit n = ''0123456789abcdef'' ! (n mod 16)"

definition json_escape :: "char \<Rightarrow> string" where
  "json_escape c =
     (let n = char_code c
      in if c = CHR 0x22 then [CHR 0x5C, CHR 0x22] else if c = CHR 0x5C then [CHR 0x5C, CHR 0x5C]
         else if n = 8 then [CHR 0x5C, CHR ''b''] else if n = 9 then [CHR 0x5C, CHR ''t'']
         else if n = 10 then [CHR 0x5C, CHR ''n''] else if n = 12 then [CHR 0x5C, CHR ''f'']
         else if n = 13 then [CHR 0x5C, CHR ''r'']
         else if n < 32 then CHR 0x5C # ''u00'' @ [hex_digit (n div 16), hex_digit n] else [c])"

definition json_string :: "string \<Rightarrow> string" where
  "json_string s = CHR 0x22 # concat (map json_escape s) @ [CHR 0x22]"

definition json_number :: "(rat \<Rightarrow> string) \<Rightarrow> rat \<Rightarrow> string" where
  "json_number fraction_text q = (if of_int (floor q) = q then int_text (floor q) else fraction_text q)"

fun stringify :: "(rat \<Rightarrow> string) \<Rightarrow> json \<Rightarrow> string" where
  "stringify ft JNull = ''null''"
| "stringify ft (JBool b) = (if b then ''true'' else ''false'')"
| "stringify ft (JNum q) = json_number ft q"
| "stringify ft (JStr s) = json_string s"
| "stringify ft (JArr xs) = ''['' @ js_join '','' (map (stringify ft) xs) @ '']''"
| "stringify ft (JObj kvs) = ''{'' @ js_join '','' (map (\<lambda>(k, v). json_string k @ '':'' @ stringify ft v) kvs) @ ''}''"

section \<open>CSV\<close>

datatype export_value = X_text string | X_number int | X_bool bool | X_null

definition neutralize_export :: "string \<Rightarrow> string" where
  "neutralize_export text = (if text \<noteq> [] \<and> formula_start (hd text) then CHR 0x27 # text else text)"

definition export_text :: "export_value \<Rightarrow> string" where
  "export_text cell =
     (case cell of
        X_text s \<Rightarrow> neutralize_export s
      | X_null \<Rightarrow> []
      | X_number n \<Rightarrow> int_text n
      | X_bool b \<Rightarrow> if b then ''true'' else ''false'')"

definition export_cell :: "export_value \<Rightarrow> string" where
  "export_cell cell =
     (let text = export_text cell in csv_quote text)"

definition export_line :: "export_value list \<Rightarrow> string" where
  "export_line cells = js_join '','' (map export_cell cells) @ [CHR 0x0A]"

section \<open>The five files\<close>

definition opt_value :: "string option \<Rightarrow> export_value" where
  "opt_value x = (case x of Some s \<Rightarrow> X_text s | None \<Rightarrow> X_null)"

definition iso_value :: "time_us option \<Rightarrow> export_value" where
  "iso_value x = (case x of Some t \<Rightarrow> X_text (toISOString (ms_of t)) | None \<Rightarrow> X_null)"

fun credit_reason_text :: "credit_reason \<Rightarrow> string" where
  "credit_reason_text Grant = ''grant''"
| "credit_reason_text Single_check = ''single_check''"
| "credit_reason_text Batch_check = ''batch_check''"
| "credit_reason_text Refund = ''refund''"
| "credit_reason_text Adjustment = ''adjustment''"

definition email_check_cells :: "email_check \<Rightarrow> export_value list" where
  "email_check_cells c =
     [X_text (ec_id c), X_text (ec_emailNormalized c), X_text (verdict_text (ec_verdict c)),
      X_text (js_join ''|'' (map reason_text (ec_reasonCodes c))), X_bool (ec_cached c), X_number (ec_creditsUsed c),
      iso_value (Some (ec_createdAt c)), iso_value (Some (ec_expiresAt c))]"

definition phone_check_cells :: "phone_check \<Rightarrow> export_value list" where
  "phone_check_cells c =
     [X_text (pc_id c), opt_value (pc_e164 c), X_bool (pc_valid c), opt_value (pc_country c), opt_value (pc_lineTypeGuess c),
      X_text (js_join ''|'' (map reason_text (pc_reasonCodes c))), X_number (pc_creditsUsed c),
      iso_value (Some (pc_createdAt c)), iso_value (Some (pc_expiresAt c))]"

definition batch_cells :: "batch \<Rightarrow> export_value list" where
  "batch_cells b =
     [X_text (b_id b), X_text (b_filename b), X_text (batch_status_text (b_status b)), X_number (b_totalRows b),
      X_number (b_processedRows b), opt_value (b_error b), iso_value (Some (b_createdAt b)), iso_value (b_completedAt b),
      iso_value (Some (b_expiresAt b))]"

definition ledger_cells :: "ledger_entry \<Rightarrow> export_value list" where
  "ledger_cells e =
     [X_text (l_id e), X_number (l_delta e), X_text (credit_reason_text (l_reason e)), opt_value (l_referenceId e),
      opt_value (l_note e), iso_value (Some (l_createdAt e))]"

definition audit_cells :: "(rat \<Rightarrow> string) \<Rightarrow> audit_event \<Rightarrow> export_value list" where
  "audit_cells ft e =
     [X_text (ae_id e), X_text (ae_action e), X_text (ae_targetType e), X_text (ae_targetId e),
      X_text (stringify ft (ae_metadata e)), iso_value (Some (ae_createdAt e))]"

text \<open>One file: its header line, then a line per row of the drained pager; the number of the next query
  is passed on.\<close>

definition export_file ::
  "string list \<Rightarrow> ('r \<Rightarrow> export_value list) \<Rightarrow> (nat \<Rightarrow> uuid option \<Rightarrow> 'r list \<times> uuid option) \<Rightarrow> nat \<Rightarrow> (string \<times> nat) option" where
  "export_file header row pager n =
     map_option (\<lambda>(rows, m). (export_line (map X_text header) @ concat (map (\<lambda>r. export_line (row r)) rows), m))
       (pump pager n None [])"

definition then_file ::
  "((string \<times> string) list \<times> nat) option \<Rightarrow> string \<Rightarrow> (nat \<Rightarrow> (string \<times> nat) option) \<Rightarrow> ((string \<times> string) list \<times> nat) option" where
  "then_file files filename file =
     (case files of
        None \<Rightarrow> None
      | Some (fs, n) \<Rightarrow> map_option (\<lambda>(content, m). (fs @ [(filename, content)], m)) (file n))"

definition email_checks_header :: "string list" where
  "email_checks_header = [''id'', ''email'', ''verdict'', ''reason_codes'', ''cached'', ''credits_used'', ''created_at'', ''expires_at'']"

definition phone_checks_header :: "string list" where
  "phone_checks_header =
     [''id'', ''phone_e164'', ''valid'', ''country'', ''line_type_guess'', ''reason_codes'', ''credits_used'', ''created_at'', ''expires_at'']"

definition batches_header :: "string list" where
  "batches_header =
     [''id'', ''filename'', ''status'', ''total_rows'', ''processed_rows'', ''error'', ''created_at'', ''completed_at'', ''expires_at'']"

definition credit_ledger_header :: "string list" where
  "credit_ledger_header = [''id'', ''delta'', ''reason'', ''reference_id'', ''note'', ''created_at'']"

definition audit_events_header :: "string list" where
  "audit_events_header = [''id'', ''action'', ''target_type'', ''target_id'', ''metadata'', ''created_at'']"

definition categories :: "(rat \<Rightarrow> string) \<Rightarrow> (nat \<Rightarrow> database) \<Rightarrow> uuid \<Rightarrow> ((string \<times> string) list \<times> nat) option" where
  "categories ft dbs orgId =
     (let f1 = then_file (Some ([], 0)) ''email_checks.csv''
            (export_file email_checks_header email_check_cells (\<lambda>n. pageEmailChecksForExport (dbs n) orgId));
          f2 = then_file f1 ''phone_checks.csv''
            (export_file phone_checks_header phone_check_cells (\<lambda>n. pagePhoneChecksForExport (dbs n) orgId));
          f3 = then_file f2 ''batches.csv''
            (export_file batches_header batch_cells (\<lambda>n. pageBatchesForExport (dbs n) orgId));
          f4 = then_file f3 ''credit_ledger.csv''
            (export_file credit_ledger_header ledger_cells (\<lambda>n. pageLedgerForExport (dbs n) orgId))
      in then_file f4 ''audit_events.csv''
           (export_file audit_events_header (audit_cells ft) (\<lambda>n. pageAuditEventsForExport (dbs n) orgId)))"

definition EXPORT_LINK_TTL_SECONDS :: int where "EXPORT_LINK_TTL_SECONDS = 24 * 60 * 60"

record export_result =
  er_exportId :: uuid
  er_url :: string
  er_expiresAt :: time_ms

record 's export_env =
  xe_exportId :: uuid
  xe_fraction :: "rat \<Rightarrow> string"
  xe_zip :: "(string \<times> string) list \<Rightarrow> string"
  xe_upload :: "string \<Rightarrow> string \<Rightarrow> 's \<Rightarrow> bool \<times> 's"
  xe_presign :: "string \<Rightarrow> int \<Rightarrow> string"

text \<open>The archive is streamed while it is built; what the upload stores is the finished archive.
  \<open>None\<close> is an export that never returns.\<close>

definition buildOrgDataExport ::
  "'s export_env \<Rightarrow> (nat \<Rightarrow> database) \<Rightarrow> uuid \<Rightarrow> time_ms \<Rightarrow> 's \<Rightarrow> ((db_error + export_result) \<times> 's) option" where
  "buildOrgDataExport env dbs orgId now st =
     (let key = exportObjectKey orgId now (xe_exportId env)
      in map_option (\<lambda>(files, _).
           (case xe_upload env key (xe_zip env files) st of
              (False, st') \<Rightarrow> (Inl (Thrown ''upload failed''), st')
            | (True, st') \<Rightarrow>
                (Inr \<lparr>er_exportId = xe_exportId env, er_url = xe_presign env key EXPORT_LINK_TTL_SECONDS,
                      er_expiresAt = now + EXPORT_LINK_TTL_SECONDS * 1000\<rparr>, st')))
         (categories (xe_fraction env) dbs orgId))"

section \<open>What the archive holds\<close>

text \<open>The records of a file, read back line by line; the fuel bounds their number.\<close>

fun read_records :: "nat \<Rightarrow> nat \<Rightarrow> string \<Rightarrow> string list list option" where
  "read_records 0 width s = None"
| "read_records (Suc fuel) width s =
     (if s = [] then Some []
      else (case read_record width s of
              None \<Rightarrow> None
            | Some (rec, rest) \<Rightarrow> map_option (\<lambda>recs. rec # recs) (read_records fuel width rest)))"

lemma export_line_not_Nil: "export_line cells \<noteq> []"
  by (simp add: export_line_def)

lemma read_export_line:
  assumes "cells \<noteq> []" "length cells = width"
  shows "read_record width (export_line cells @ rest) = Some (map export_text cells, rest)"
  using read_record_quotes [of "map export_text cells" width rest] assms
  by (simp add: export_line_def export_cell_def [abs_def] comp_def)

lemma read_records_lines:
  assumes "\<forall>cells \<in> set css. cells \<noteq> [] \<and> length cells = width" "length css < fuel"
  shows "read_records fuel width (concat (map export_line css)) = Some (map (map export_text) css)"
  using assms
proof (induction css arbitrary: fuel)
  case Nil
  then show ?case by (cases fuel) simp_all
next
  case (Cons cells css)
  then obtain f where f: "fuel = Suc f" by (cases fuel) simp_all
  with Cons show ?case by (simp add: read_export_line export_line_not_Nil)
qed

text \<open>A file lists a table faithfully if it reads back as its header and the rendered cells of rows in
  strictly ascending order of identifier, each of them in the table at some query, among them every
  row that was in the table at all queries.\<close>

definition lists_table ::
  "string list \<Rightarrow> ('r \<Rightarrow> export_value list) \<Rightarrow> ('r \<Rightarrow> uuid) \<Rightarrow> (nat \<Rightarrow> 'r list) \<Rightarrow> nat \<Rightarrow> string \<Rightarrow> bool" where
  "lists_table header cells ident table m content =
     (\<exists>rows. read_records (length rows + 2) (length header) content = Some (header # map (\<lambda>r. map export_text (cells r)) rows)
        \<and> sorted_wrt (<) (map ident rows) \<and> (\<forall>r \<in> set rows. \<exists>k < m. r \<in> set (table k))
        \<and> (\<forall>r. (\<forall>k < m. r \<in> set (table k)) \<longrightarrow> r \<in> set rows))"

lemma lists_table_mono: "lists_table header cells ident table m content \<Longrightarrow> m \<le> m' \<Longrightarrow> lists_table header cells ident table m' content"
  unfolding lists_table_def by (meson order_less_le_trans)


definition plain_header :: "string list \<Rightarrow> bool" where
  "plain_header header = (header \<noteq> [] \<and> list_all (\<lambda>h. neutralize_export h = h) header)"

lemma export_file_lists:
  assumes "keyset_pager table ident pager" "finite U" "\<And>k. ident ` set (table k) \<subseteq> U" "\<And>k. distinct (map ident (table k))"
    and "plain_header header" "\<And>r. length (cells r) = length header"
  shows "\<exists>content m. export_file header cells pager n = Some (content, m) \<and> n < m \<and> lists_table header cells ident table m content"
proof -
  obtain rows m where p: "pump pager n None [] = Some ([] @ rows, m)" "keyset_pager.exported table ident n None rows m"
    using keyset_pager.pump_exported [OF assms(1-4)] by blast
  note ex = p(2) [unfolded keyset_pager.exported_def [OF assms(1)]]
  let ?css = "map X_text header # map cells rows"
  let ?content = "concat (map export_line ?css)"
  have content: "export_file header cells pager n = Some (?content, m)" by (simp add: export_file_def p(1) comp_def)
  have ne: "cells r \<noteq> []" for r using assms(5,6) by (metis length_0_conv plain_header_def)
  have "map export_text (map X_text header) = header"
    using assms(5) by (simp add: plain_header_def export_text_def list_all_iff map_idI)
  then have "read_records (length rows + 2) (length header) ?content = Some (header # map (\<lambda>r. map export_text (cells r)) rows)"
    using read_records_lines [of ?css "length header" "length rows + 2"] assms(5,6) ne by (simp add: plain_header_def comp_def)
  moreover have "sorted_wrt (<) (map ident rows)" "n < m" using ex by blast+
  moreover have "\<exists>k < m. r \<in> set (table k)" if "r \<in> set rows" for r using ex that by fastforce
  moreover have "r \<in> set rows" if "\<forall>k < m. r \<in> set (table k)" for r using ex that by (simp add: past_id_def)
  ultimately have "lists_table header cells ident table m ?content" unfolding lists_table_def by blast
  with content \<open>n < m\<close> show ?thesis by blast
qed

lemma then_file_lists:
  assumes "files = Some (fs, n)" "\<exists>content m. file n = Some (content, m) \<and> n < m \<and> P m content"
  shows "\<exists>content m. then_file files filename file = Some (fs @ [(filename, content)], m) \<and> n < m \<and> P m content"
  using assms by (auto simp: then_file_def)

lemma plain_headers:
  "plain_header email_checks_header" "plain_header phone_checks_header" "plain_header batches_header"
  "plain_header credit_ledger_header" "plain_header audit_events_header"
  by code_simp+

text \<open>Primary keys are unique at every query, and finitely many identifiers occur in all.\<close>

definition export_world :: "(nat \<Rightarrow> database) \<Rightarrow> bool" where
  "export_world dbs =
     ((\<forall>k. distinct (map ec_id (emailChecks (dbs k))) \<and> distinct (map pc_id (phoneChecks (dbs k)))
         \<and> distinct (map b_id (batches (dbs k))) \<and> distinct (map l_id (creditLedger (dbs k)))
         \<and> distinct (map ae_id (auditEvents (dbs k))))
      \<and> (\<exists>U. finite U \<and> (\<forall>k. ec_id ` set (emailChecks (dbs k)) \<union> pc_id ` set (phoneChecks (dbs k)) \<union> b_id ` set (batches (dbs k))
            \<union> l_id ` set (creditLedger (dbs k)) \<union> ae_id ` set (auditEvents (dbs k)) \<subseteq> U)))"

lemma distinct_map_filter_id: "distinct (map f xs) \<Longrightarrow> distinct (map f (filter P xs))"
  by (auto simp: distinct_map inj_on_def)

lemma export_table_lists:
  assumes "keyset_pager (\<lambda>k. filter P (tab k)) ident pager" "finite U" "\<And>k. ident ` set (tab k) \<subseteq> U"
    and "\<And>k. distinct (map ident (tab k))" "plain_header header" "\<And>r. length (cells r) = length header"
  shows "\<exists>content m. export_file header cells pager n = Some (content, m) \<and> n < m
    \<and> lists_table header cells ident (\<lambda>k. filter P (tab k)) m content"
proof (rule export_file_lists [OF assms(1,2)])
  show "ident ` set (filter P (tab k)) \<subseteq> U" for k using assms(3) [of k] by auto
  show "distinct (map ident (filter P (tab k)))" for k using assms(4) by (rule distinct_map_filter_id)
qed (use assms(5,6) in auto)

lemma categories_list:
  assumes "export_world dbs"
  shows "\<exists>e p b l a m. categories ft dbs orgId = Some ([(''email_checks.csv'', e), (''phone_checks.csv'', p), (''batches.csv'', b),
       (''credit_ledger.csv'', l), (''audit_events.csv'', a)], m)
    \<and> lists_table email_checks_header email_check_cells ec_id (\<lambda>k. filter (\<lambda>r. ec_orgId r = orgId) (emailChecks (dbs k))) m e
    \<and> lists_table phone_checks_header phone_check_cells pc_id (\<lambda>k. filter (\<lambda>r. pc_orgId r = orgId) (phoneChecks (dbs k))) m p
    \<and> lists_table batches_header batch_cells b_id (\<lambda>k. filter (\<lambda>r. b_orgId r = orgId) (batches (dbs k))) m b
    \<and> lists_table credit_ledger_header ledger_cells l_id (\<lambda>k. filter (\<lambda>r. l_orgId r = orgId) (creditLedger (dbs k))) m l
    \<and> lists_table audit_events_header (audit_cells ft) ae_id (\<lambda>k. filter (\<lambda>r. ae_orgId r = Some orgId) (auditEvents (dbs k))) m a"
proof -
  obtain U where U: "finite U" and sub: "\<And>k. ec_id ` set (emailChecks (dbs k)) \<union> pc_id ` set (phoneChecks (dbs k))
      \<union> b_id ` set (batches (dbs k)) \<union> l_id ` set (creditLedger (dbs k)) \<union> ae_id ` set (auditEvents (dbs k)) \<subseteq> U"
    using assms unfolding export_world_def by blast
  note sub = sub [unfolded Un_subset_iff]
  have dist: "distinct (map ec_id (emailChecks (dbs k)))" "distinct (map pc_id (phoneChecks (dbs k)))" "distinct (map b_id (batches (dbs k)))"
    "distinct (map l_id (creditLedger (dbs k)))" "distinct (map ae_id (auditEvents (dbs k)))" for k
    using assms by (simp_all add: export_world_def)
  have email: "\<exists>content m. export_file email_checks_header email_check_cells (\<lambda>n. pageEmailChecksForExport (dbs n) orgId) k = Some (content, m)
      \<and> k < m \<and> lists_table email_checks_header email_check_cells ec_id (\<lambda>k. filter (\<lambda>r. ec_orgId r = orgId) (emailChecks (dbs k))) m content" for k
    by (rule export_table_lists [where U = U, OF email_export.keyset_pager_axioms U])
      (use sub dist plain_headers in \<open>simp_all add: email_check_cells_def email_checks_header_def\<close>)
  have phone: "\<exists>content m. export_file phone_checks_header phone_check_cells (\<lambda>n. pagePhoneChecksForExport (dbs n) orgId) k = Some (content, m)
      \<and> k < m \<and> lists_table phone_checks_header phone_check_cells pc_id (\<lambda>k. filter (\<lambda>r. pc_orgId r = orgId) (phoneChecks (dbs k))) m content" for k
    by (rule export_table_lists [where U = U, OF phone_export.keyset_pager_axioms U])
      (use sub dist plain_headers in \<open>simp_all add: phone_check_cells_def phone_checks_header_def\<close>)
  have batch: "\<exists>content m. export_file batches_header batch_cells (\<lambda>n. pageBatchesForExport (dbs n) orgId) k = Some (content, m)
      \<and> k < m \<and> lists_table batches_header batch_cells b_id (\<lambda>k. filter (\<lambda>r. b_orgId r = orgId) (batches (dbs k))) m content" for k
    by (rule export_table_lists [where U = U, OF batch_export.keyset_pager_axioms U])
      (use sub dist plain_headers in \<open>simp_all add: batch_cells_def batches_header_def\<close>)
  have ledger: "\<exists>content m. export_file credit_ledger_header ledger_cells (\<lambda>n. pageLedgerForExport (dbs n) orgId) k = Some (content, m)
      \<and> k < m \<and> lists_table credit_ledger_header ledger_cells l_id (\<lambda>k. filter (\<lambda>r. l_orgId r = orgId) (creditLedger (dbs k))) m content" for k
    by (rule export_table_lists [where U = U, OF ledger_export.keyset_pager_axioms U])
      (use sub dist plain_headers in \<open>simp_all add: ledger_cells_def credit_ledger_header_def\<close>)
  have audit: "\<exists>content m. export_file audit_events_header (audit_cells ft) (\<lambda>n. pageAuditEventsForExport (dbs n) orgId) k = Some (content, m)
      \<and> k < m \<and> lists_table audit_events_header (audit_cells ft) ae_id (\<lambda>k. filter (\<lambda>r. ae_orgId r = Some orgId) (auditEvents (dbs k))) m content" for k
    by (rule export_table_lists [where U = U, OF audit_export.keyset_pager_axioms U])
      (use sub dist plain_headers in \<open>simp_all add: audit_cells_def audit_events_header_def\<close>)
  obtain e m1 where e: "export_file email_checks_header email_check_cells (\<lambda>n. pageEmailChecksForExport (dbs n) orgId) 0 = Some (e, m1)" "0 < m1"
    "lists_table email_checks_header email_check_cells ec_id (\<lambda>k. filter (\<lambda>r. ec_orgId r = orgId) (emailChecks (dbs k))) m1 e"
    using email [of 0] by (elim exE conjE)
  obtain p m2 where p: "export_file phone_checks_header phone_check_cells (\<lambda>n. pagePhoneChecksForExport (dbs n) orgId) m1 = Some (p, m2)" "m1 < m2"
    "lists_table phone_checks_header phone_check_cells pc_id (\<lambda>k. filter (\<lambda>r. pc_orgId r = orgId) (phoneChecks (dbs k))) m2 p"
    using phone [of m1] by (elim exE conjE)
  obtain b m3 where b: "export_file batches_header batch_cells (\<lambda>n. pageBatchesForExport (dbs n) orgId) m2 = Some (b, m3)" "m2 < m3"
    "lists_table batches_header batch_cells b_id (\<lambda>k. filter (\<lambda>r. b_orgId r = orgId) (batches (dbs k))) m3 b"
    using batch [of m2] by (elim exE conjE)
  obtain l m4 where l: "export_file credit_ledger_header ledger_cells (\<lambda>n. pageLedgerForExport (dbs n) orgId) m3 = Some (l, m4)" "m3 < m4"
    "lists_table credit_ledger_header ledger_cells l_id (\<lambda>k. filter (\<lambda>r. l_orgId r = orgId) (creditLedger (dbs k))) m4 l"
    using ledger [of m3] by (elim exE conjE)
  obtain a m5 where a: "export_file audit_events_header (audit_cells ft) (\<lambda>n. pageAuditEventsForExport (dbs n) orgId) m4 = Some (a, m5)" "m4 < m5"
    "lists_table audit_events_header (audit_cells ft) ae_id (\<lambda>k. filter (\<lambda>r. ae_orgId r = Some orgId) (auditEvents (dbs k))) m5 a"
    using audit [of m4] by (elim exE conjE)
  have "categories ft dbs orgId = Some ([(''email_checks.csv'', e), (''phone_checks.csv'', p), (''batches.csv'', b),
       (''credit_ledger.csv'', l), (''audit_events.csv'', a)], m5)"
    by (simp add: categories_def then_file_def Let_def e(1) p(1) b(1) l(1) a(1))
  moreover have "m1 \<le> m5" "m2 \<le> m5" "m3 \<le> m5" "m4 \<le> m5" using p(2) b(2) l(2) a(2) by simp_all
  ultimately show ?thesis
    using lists_table_mono [OF e(3)] lists_table_mono [OF p(3)] lists_table_mono [OF b(3)] lists_table_mono [OF l(3)] a(3)
    by (intro exI conjI) assumption+
qed

text \<open>C15: The self-service export is complete and contains nothing else. Whatever other requests do to
  the database between its queries, as long as identifiers stay unique and finitely many occur, the
  export ends; its archive has the five files, and each reads back by the CSV rules as its header and
  one record per row of the organization, in ascending order of identifier, every row once, no row of
  another organization, and every row that was there throughout.\<close>

theorem data_export_complete:
  assumes "export_world dbs"
  shows "\<exists>e p b l a m. categories ft dbs orgId = Some ([(''email_checks.csv'', e), (''phone_checks.csv'', p), (''batches.csv'', b),
       (''credit_ledger.csv'', l), (''audit_events.csv'', a)], m)
    \<and> lists_table email_checks_header email_check_cells ec_id (\<lambda>k. filter (\<lambda>r. ec_orgId r = orgId) (emailChecks (dbs k))) m e
    \<and> lists_table phone_checks_header phone_check_cells pc_id (\<lambda>k. filter (\<lambda>r. pc_orgId r = orgId) (phoneChecks (dbs k))) m p
    \<and> lists_table batches_header batch_cells b_id (\<lambda>k. filter (\<lambda>r. b_orgId r = orgId) (batches (dbs k))) m b
    \<and> lists_table credit_ledger_header ledger_cells l_id (\<lambda>k. filter (\<lambda>r. l_orgId r = orgId) (creditLedger (dbs k))) m l
    \<and> lists_table audit_events_header (audit_cells ft) ae_id (\<lambda>k. filter (\<lambda>r. ae_orgId r = Some orgId) (auditEvents (dbs k))) m a"
  by (rule categories_list [OF assms])

theorem data_export_complete_witness:
  "\<exists>files m. categories (\<lambda>q. []) (\<lambda>_. demo_db 5) ''org-1'' = Some (files, m)
    \<and> lists_table credit_ledger_header ledger_cells l_id (\<lambda>_. [demo_grant 5]) m (snd (files ! 3))"
proof -
  have w: "export_world (\<lambda>_. demo_db 5)"
    unfolding export_world_def by (intro conjI allI exI [of _ "l_id ` set [demo_grant 5]"]) (simp_all add: demo_db_def empty_db_def)
  have "filter (\<lambda>r. l_orgId r = ''org-1'') (creditLedger (demo_db 5)) = [demo_grant 5]"
    by (simp add: demo_db_def demo_grant_def)
  then show ?thesis using data_export_complete [OF w, of "\<lambda>q. []" "''org-1''"] by fastforce
qed

end
