(* ===== verification/Api_Totp.thy ===== *)
theory Api_Totp
  imports Js_Number "HOL-Library.Word"
begin

text \<open>
  \<^verbatim>\<open>apps/api/src/internal/totp.ts\<close>: base32 on the signed 32-bit shifts of JavaScript, whose
  bits are those of a \<open>32 word\<close>, one-time codes and their verification. HMAC-SHA-1 is an
  argument: key and message bytes to digest bytes.
\<close>

unbundle bit_operations_syntax

section \<open>Base32\<close>

definition BASE32_ALPHABET :: string where
  "BASE32_ALPHABET = ''ABCDEFGHIJKLMNOPQRSTUVWXYZ234567''"

definition base32_char :: "32 word \<Rightarrow> char" where
  "base32_char v = BASE32_ALPHABET ! unat v"

function emit_chars :: "nat \<Rightarrow> 32 word \<Rightarrow> string \<Rightarrow> nat \<times> string" where
  "emit_chars bits value output =
     (if 5 \<le> bits then emit_chars (bits - 5) value (output @ [base32_char (drop_bit (bits - 5) value AND 31)])
      else (bits, output))"
  by pat_completeness auto
termination by (relation "measure (\<lambda>(bits, value, output). bits)") auto

declare emit_chars.simps [simp del]

fun encode_loop :: "8 word list \<Rightarrow> nat \<Rightarrow> 32 word \<Rightarrow> string \<Rightarrow> nat \<times> 32 word \<times> string" where
  "encode_loop [] bits value output = (bits, value, output)"
| "encode_loop (byte # bytes) bits value output =
     (let value' = push_bit 8 value OR ucast byte;
          (bits', output') = emit_chars (bits + 8) value' output
      in encode_loop bytes bits' value' output')"

definition base32Encode :: "8 word list \<Rightarrow> string" where
  "base32Encode buffer =
     (let (bits, value, output) = encode_loop buffer 0 0 []
      in if 0 < bits then output @ [base32_char (push_bit (5 - bits) value AND 31)] else output)"

fun decode_loop :: "string \<Rightarrow> nat \<Rightarrow> 32 word \<Rightarrow> 8 word list \<Rightarrow> 8 word list option" where
  "decode_loop [] bits value bytes = Some bytes"
| "decode_loop (c # cs) bits value bytes =
     (case find_index (\<lambda>x. x = c) BASE32_ALPHABET of
        None \<Rightarrow> None
      | Some index \<Rightarrow>
          (let value' = push_bit 5 value OR of_nat index; bits' = bits + 5
           in if 8 \<le> bits'
              then decode_loop cs (bits' - 8) value' (bytes @ [ucast (drop_bit (bits' - 8) value' AND 255)])
              else decode_loop cs bits' value' bytes))"

text \<open>\<open>toUpperCase\<close> within Latin-1. The sharp s becomes two letters; the capitals of the micro sign
  and of y with diaeresis lie outside Latin-1, and both stay here, outside the alphabet as well.\<close>

definition js_upper_char :: "char \<Rightarrow> string" where
  "js_upper_char c =
     (let n = char_code c
      in if n = 223 then ''SS''
         else if (97 \<le> n \<and> n \<le> 122) \<or> (224 \<le> n \<and> n \<le> 254 \<and> n \<noteq> 247) then [char_of (n - 32)] else [c])"

definition js_toUpperCase :: "string \<Rightarrow> string" where
  "js_toUpperCase s = concat (map js_upper_char s)"

definition base32Decode :: "string \<Rightarrow> 8 word list option" where
  "base32Decode encoded =
     decode_loop (rev (dropWhile (\<lambda>c. c = CHR ''='') (rev (js_toUpperCase encoded)))) 0 0 []"

definition generateTotpSecret :: "8 word list \<Rightarrow> string" where
  "generateTotpSecret random20 = base32Encode random20"

section \<open>Codes\<close>

definition TOTP_STEP_SECONDS :: int where "TOTP_STEP_SECONDS = 30"
definition TOTP_DIGITS :: nat where "TOTP_DIGITS = 6"

text \<open>\<open>Buffer.alloc(8)\<close> with \<open>writeBigUInt64BE\<close>, which throws outside 64 bits.\<close>

definition counter_bytes :: "int \<Rightarrow> 8 word list option" where
  "counter_bytes counter =
     (if 0 \<le> counter \<and> counter < 2 ^ 64
      then Some (map (\<lambda>k. word_of_int (counter div 2 ^ (8 * k))) [7, 6, 5, 4, 3, 2, 1, 0]) else None)"

definition padStart0 :: "nat \<Rightarrow> string \<Rightarrow> string" where
  "padStart0 width s = replicate (width - length s) CHR ''0'' @ s"

definition dynamic_code :: "8 word list \<Rightarrow> 32 word" where
  "dynamic_code digest =
     (let offset = unat (js_at digest (length digest - 1) 0 AND 15);
          byte = (\<lambda>k. ucast (js_at digest (offset + k) 0) :: 32 word)
      in push_bit 24 (byte 0 AND 127) OR push_bit 16 (byte 1 AND 255) OR push_bit 8 (byte 2 AND 255) OR (byte 3 AND 255))"

type_synonym hmac_sha1 = "8 word list \<Rightarrow> 8 word list \<Rightarrow> 8 word list"

definition hotp :: "hmac_sha1 \<Rightarrow> 8 word list \<Rightarrow> int \<Rightarrow> string option" where
  "hotp hmac key counter =
     map_option (\<lambda>message. padStart0 TOTP_DIGITS (nat_text (unat (dynamic_code (hmac key message)) mod 10 ^ TOTP_DIGITS)))
       (counter_bytes counter)"

text \<open>The outer \<open>None\<close> is the exception of \<open>writeBigUInt64BE\<close>, the inner one the returned \<open>null\<close>.
  The two floating-point divisions and the floor agree with integer division on every valid \<open>Date\<close>.\<close>

definition totpAt :: "hmac_sha1 \<Rightarrow> string \<Rightarrow> time_ms \<Rightarrow> string option option" where
  "totpAt hmac secretBase32 epochMs =
     (case base32Decode secretBase32 of
        None \<Rightarrow> Some None
      | Some key \<Rightarrow>
          if key = [] then Some None
          else map_option Some (hotp hmac key (epochMs div 1000 div TOTP_STEP_SECONDS)))"

fun drift_loop :: "hmac_sha1 \<Rightarrow> string \<Rightarrow> string \<Rightarrow> time_ms \<Rightarrow> int list \<Rightarrow> bool option" where
  "drift_loop hmac secretBase32 code epochMs [] = Some False"
| "drift_loop hmac secretBase32 code epochMs (drift # drifts) =
     (case totpAt hmac secretBase32 (epochMs + drift * TOTP_STEP_SECONDS * 1000) of
        None \<Rightarrow> None
      | Some None \<Rightarrow> Some False
      | Some (Some expected) \<Rightarrow>
          if length expected = length code \<and> expected = code then Some True
          else drift_loop hmac secretBase32 code epochMs drifts)"

definition verifyTotp :: "hmac_sha1 \<Rightarrow> string \<Rightarrow> string \<Rightarrow> time_ms \<Rightarrow> bool option" where
  "verifyTotp hmac secretBase32 code epochMs =
     (if \<not> (length code = 6 \<and> list_all is_digit code) then Some False
      else drift_loop hmac secretBase32 code epochMs [-1, 0, 1])"

section \<open>The enrollment link\<close>

text \<open>\<open>encodeURIComponent\<close> within Latin-1: UTF-8 bytes, percent-encoded unless unreserved.\<close>

definition uri_unreserved :: "char \<Rightarrow> bool" where
  "uri_unreserved c =
     (let n = char_code c
      in (48 \<le> n \<and> n \<le> 57) \<or> (65 \<le> n \<and> n \<le> 90) \<or> (97 \<le> n \<and> n \<le> 122) \<or> c \<in> set ''-_.!~*()'' \<or> n = 39)"

definition percent_byte :: "nat \<Rightarrow> string" where
  "percent_byte n = [CHR ''%'', ''0123456789ABCDEF'' ! (n div 16), ''0123456789ABCDEF'' ! (n mod 16)]"

definition encodeURIComponent :: "string \<Rightarrow> string" where
  "encodeURIComponent s =
     concat (map (\<lambda>c. if uri_unreserved c then [c]
                     else if char_code c < 128 then percent_byte (char_code c)
                     else percent_byte (192 + char_code c div 64) @ percent_byte (128 + char_code c mod 64)) s)"

definition totpUri :: "string \<Rightarrow> string \<Rightarrow> string" where
  "totpUri secretBase32 accountEmail =
     ''otpauth://totp/'' @ encodeURIComponent ''TozaList'' @ '':'' @ encodeURIComponent accountEmail @ ''?secret='' @ secretBase32
     @ ''&issuer='' @ encodeURIComponent ''TozaList'' @ ''&algorithm=SHA1&digits='' @ nat_text TOTP_DIGITS
     @ ''&period='' @ int_text TOTP_STEP_SECONDS"

section \<open>Bits\<close>

text \<open>The low \<open>k\<close> bits of a word, most significant first.\<close>

primrec low :: "nat \<Rightarrow> 'a::len word \<Rightarrow> bool list" where
  "low 0 v = []"
| "low (Suc k) v = bit v k # low k v"

lemma length_low [simp]: "length (low k v) = k"
  by (induction k) simp_all

lemma low_cong: "(\<And>i. i < k \<Longrightarrow> bit v i = bit w i) \<Longrightarrow> low k v = low k w"
  by (induction k) simp_all

lemma low_split: "low (a + b) v = low a (drop_bit b v) @ low b v"
  by (induction a) (simp_all add: bit_drop_bit_eq add.commute)

lemma low_append:
  fixes v w :: "'a::len word"
  assumes "k + n \<le> LENGTH('a)" "\<And>i. n \<le> i \<Longrightarrow> \<not> bit w i"
  shows "low (k + n) (push_bit n v OR w) = low k v @ low n w"
proof -
  have "low k (drop_bit n (push_bit n v OR w)) = low k v"
    using assms by (intro low_cong) (auto simp: bit_simps)
  moreover have "low n (push_bit n v OR w) = low n w" by (intro low_cong) (auto simp: bit_simps)
  ultimately show ?thesis by (simp add: low_split)
qed

lemma low_mask:
  fixes v :: "'a::len word"
  assumes "n \<le> LENGTH('a)"
  shows "low n (drop_bit m v AND mask n) = low n (drop_bit m v)"
  using assms by (intro low_cong) (auto simp: bit_simps)

lemma low_ucast:
  fixes v :: "'a::len word"
  assumes "n \<le> LENGTH('a)" "n \<le> LENGTH('b)"
  shows "low n (ucast v :: 'b::len word) = low n v"
  using assms by (intro low_cong) (auto simp: bit_simps)

lemma low_bits: "low n v = low n w \<Longrightarrow> i < n \<Longrightarrow> bit v i = bit w i"
  by (induction n) (auto simp: less_Suc_eq)

lemma low_inj: "low LENGTH('a) v = low LENGTH('a) w \<Longrightarrow> v = (w::'a::len word)"
  by (rule bit_word_eqI) (rule low_bits)

section \<open>The encoder and the decoder regroup bits\<close>

lemma emit_chars_spec:
  "emit_chars bits value output = (bits', output') \<Longrightarrow>
     \<exists>ds. output' = output @ map base32_char ds \<and> (\<forall>d \<in> set ds. unat d < 32) \<and> bits' < 5
       \<and> concat (map (low 5) ds) @ low bits' value = low bits value"
proof (induction bits "value" "output" rule: emit_chars.induct)
  case (1 bits val out0)
  show ?case
  proof (cases "5 \<le> bits")
    case True
    let ?d = "drop_bit (bits - 5) val AND 31"
    have "emit_chars (bits - 5) val (out0 @ [base32_char ?d]) = (bits', output')"
      using "1.prems" True by (simp add: emit_chars.simps [of bits])
    from "1.IH" [OF True this] obtain ds where ds: "output' = out0 @ [base32_char ?d] @ map base32_char ds"
      "\<forall>d \<in> set ds. unat d < 32" "bits' < 5" "concat (map (low 5) ds) @ low bits' val = low (bits - 5) val"
      by auto
    have "?d = drop_bit (bits - 5) val AND mask 5" by (simp add: mask_eq_exp_minus_1)
    then have "low 5 ?d = low 5 (drop_bit (bits - 5) val)" using low_mask [of 5 "bits - 5" val] by simp
    then have "low 5 ?d @ low (bits - 5) val = low bits val" using low_split [of 5 "bits - 5" val] True by simp
    moreover have "unat ?d < 32" using word_and_le1 [of "drop_bit (bits - 5) val" 31] by (simp add: word_le_nat_alt)
    ultimately show ?thesis using ds by (intro exI [of _ "?d # ds"]) simp
  next
    case False
    with "1.prems" show ?thesis by (simp add: emit_chars.simps [of bits])
  qed
qed

lemma encode_loop_spec:
  "encode_loop bytes bits value output = (bits', value', output') \<Longrightarrow> bits < 5 \<Longrightarrow>
     \<exists>ds. output' = output @ map base32_char ds \<and> (\<forall>d \<in> set ds. unat d < 32) \<and> bits' < 5
       \<and> concat (map (low 5) ds) @ low bits' value' = low bits value @ concat (map (low 8) bytes)"
proof (induction bytes arbitrary: bits "value" "output")
  case (Cons byte bytes)
  let ?v = "push_bit 8 value OR ucast byte :: 32 word"
  obtain b o' where em: "emit_chars (bits + 8) ?v output = (b, o')" by fastforce
  from emit_chars_spec [OF em] obtain ds where ds: "o' = output @ map base32_char ds" "\<forall>d \<in> set ds. unat d < 32" "b < 5"
    "concat (map (low 5) ds) @ low b ?v = low (bits + 8) ?v" by blast
  have "encode_loop bytes b ?v o' = (bits', value', output')" using Cons.prems(1) em by simp
  from Cons.IH [OF this ds(3)] obtain es where es: "output' = o' @ map base32_char es" "\<forall>d \<in> set es. unat d < 32" "bits' < 5"
    "concat (map (low 5) es) @ low bits' value' = low b ?v @ concat (map (low 8) bytes)" by blast
  have "low (bits + 8) ?v = low bits value @ low 8 (ucast byte :: 32 word)"
    using Cons.prems(2) by (intro low_append) (auto simp: bit_simps dest: bit_imp_le_length)
  then have "low (bits + 8) ?v = low bits value @ low 8 byte" by (simp add: low_ucast)
  with ds(4) have ds4: "concat (map (low 5) ds) @ low b ?v = low bits value @ low 8 byte" by simp
  have "concat (map (low 5) (ds @ es)) @ low bits' value' = concat (map (low 5) ds) @ (concat (map (low 5) es) @ low bits' value')"
    by simp
  also have "\<dots> = (concat (map (low 5) ds) @ low b ?v) @ concat (map (low 8) bytes)" unfolding es(4) by simp
  also have "\<dots> = low bits value @ concat (map (low 8) (byte # bytes))" unfolding ds4 by simp
  finally have "concat (map (low 5) (ds @ es)) @ low bits' value' = low bits value @ concat (map (low 8) (byte # bytes))" .
  then show ?case using ds(1,2) es(1-3) by (intro exI [of _ "ds @ es"]) auto
qed auto

lemma base32_index: "unat d < 32 \<Longrightarrow> find_index (\<lambda>x. x = base32_char d) BASE32_ALPHABET = Some (unat d)"
proof -
  assume "unat d < 32"
  moreover have "list_all (\<lambda>i. find_index (\<lambda>x. x = BASE32_ALPHABET ! i) BASE32_ALPHABET = Some i) [0..<32]" by code_simp
  ultimately show ?thesis by (simp add: list_all_iff base32_char_def)
qed

lemma decode_loop_spec:
  assumes "\<forall>d \<in> set ds. unat d < 32" "bits < 8"
  shows "\<exists>out tail. decode_loop (map base32_char ds) bits value bytes = Some (bytes @ out) \<and> length tail < 8
    \<and> concat (map (low 8) out) @ tail = low bits value @ concat (map (low 5) ds)"
  using assms
proof (induction ds arbitrary: bits "value" bytes)
  case Nil
  then show ?case by (intro exI [of _ "[]"] exI [of _ "low bits value"]) simp
next
  case (Cons d ds)
  define v where "v = push_bit 5 value OR d"
  have ix: "find_index (\<lambda>x. x = base32_char d) BASE32_ALPHABET = Some (unat d)" using Cons.prems(1) by (intro base32_index) simp
  have high: "\<not> bit d i" if "5 \<le> i" for i
  proof -
    have "(2::nat) ^ 5 \<le> 2 ^ i" using that by (rule power_increasing) simp
    moreover have "unat d < 32" using Cons.prems(1) by simp
    ultimately have "unat d div 2 ^ i = 0" by simp
    then have "\<not> bit (unat d) i" unfolding bit_iff_odd by simp
    then show ?thesis by (auto simp: bit_unsigned_iff dest: bit_imp_le_length)
  qed
  have low: "low (bits + 5) v = low bits value @ low 5 d"
    unfolding v_def using Cons.prems(2) high by (intro low_append) auto
  show ?case
  proof (cases "8 \<le> bits + 5")
    case True
    define m where "m = bits + 5 - 8"
    define b :: "8 word" where "b = ucast (drop_bit m v AND 255)"
    have step: "decode_loop (map base32_char (d # ds)) bits value bytes
        = decode_loop (map base32_char ds) m v (bytes @ [b])"
      using ix True by (simp add: v_def b_def m_def)
    have "\<forall>d \<in> set ds. unat d < 32" "m < 8" using Cons.prems True by (simp_all add: m_def)
    from Cons.IH [OF this, of v "bytes @ [b]"]
    obtain out tail where IH: "decode_loop (map base32_char ds) m v (bytes @ [b]) = Some ((bytes @ [b]) @ out)"
      "length tail < 8" "concat (map (low 8) out) @ tail = low m v @ concat (map (low 5) ds)"
      by (elim exE conjE)
    have "low 8 b = low 8 (drop_bit m v AND mask 8)" by (simp add: b_def low_ucast mask_eq_exp_minus_1)
    then have "low 8 b = low 8 (drop_bit m v)" using low_mask [of 8 m v] by simp
    then have join: "low 8 b @ low m v = low (bits + 5) v" using low_split [of 8 m v] True by (simp add: m_def add.commute)
    have "concat (map (low 8) (b # out)) @ tail = low 8 b @ (concat (map (low 8) out) @ tail)" by simp
    also have "\<dots> = (low 8 b @ low m v) @ concat (map (low 5) ds)" unfolding IH(3) by simp
    also have "\<dots> = low bits value @ concat (map (low 5) (d # ds))" unfolding join low by simp
    finally show ?thesis using step IH(1,2) by (intro exI [of _ "b # out"] exI [of _ tail]) simp
  next
    case False
    have "decode_loop (map base32_char (d # ds)) bits value bytes = decode_loop (map base32_char ds) (bits + 5) v bytes"
      using ix False by (simp add: v_def)
    then show ?thesis using Cons.IH [of "bits + 5" v bytes] Cons.prems False low by auto
  qed
qed


lemma low_zero [simp]: "low n 0 = replicate n False"
  by (induction n) simp_all

lemma length_octets: "length (concat (map (low 8) (ys :: 8 word list))) = 8 * length ys"
  by (induction ys) simp_all

lemma octets_unique:
  fixes xs ys :: "8 word list"
  assumes "concat (map (low 8) xs) @ tail = concat (map (low 8) ys) @ pad" "length tail < 8" "length pad < 8"
  shows "xs = ys"
  using assms(1)
proof (induction xs arbitrary: ys)
  case Nil
  then have "length tail = length (concat (map (low 8) ys) @ pad)" by (metis append_Nil concat.simps(1) list.simps(8))
  then have "length tail = 8 * length ys + length pad" by (simp only: length_append length_octets)
  then have "ys = []" using assms(2) by (cases ys) simp_all
  then show ?case by simp
next
  case (Cons x xs)
  show ?case
  proof (cases ys)
    case Nil
    with arg_cong [OF Cons.prems, of length] have "8 \<le> length pad" by simp
    with assms(3) show ?thesis by simp
  next
    case (Cons y zs)
    with Cons.prems have "low 8 x = low 8 y \<and> concat (map (low 8) xs) @ tail = concat (map (low 8) zs) @ pad" by simp
    with Cons.IH Cons low_inj [of x y] show ?thesis by simp
  qed
qed

lemma base32Encode_digits:
  "\<exists>ds pad. base32Encode bytes = map base32_char ds \<and> (\<forall>d \<in> set ds. unat d < 32) \<and> length pad < 8
    \<and> concat (map (low 5) ds) = concat (map (low 8) bytes) @ pad"
proof -
  obtain bits v out where e: "encode_loop bytes 0 0 [] = (bits, v, out)" by (metis prod_cases3)
  from encode_loop_spec [OF e] obtain ds where ds: "out = map base32_char ds" "\<forall>d \<in> set ds. unat d < 32" "bits < 5"
    "concat (map (low 5) ds) @ low bits v = concat (map (low 8) bytes)" by auto
  show ?thesis
  proof (cases "0 < bits")
    case True
    define d where "d = push_bit (5 - bits) v AND 31"
    have "low 5 d = low 5 (push_bit (5 - bits) v)"
      using low_mask [of 5 0 "push_bit (5 - bits) v"] by (simp add: d_def mask_eq_exp_minus_1)
    also have "\<dots> = low bits v @ replicate (5 - bits) False"
      using low_append [of bits "5 - bits" 0 v] ds(3) by simp
    finally have "concat (map (low 5) (ds @ [d])) = concat (map (low 8) bytes) @ replicate (5 - bits) False"
      using ds(4) by simp
    moreover have "unat d < 32" using word_and_le1 [of "push_bit (5 - bits) v" 31] by (simp add: d_def word_le_nat_alt)
    ultimately show ?thesis using True ds e
      by (intro exI [of _ "ds @ [d]"] exI [of _ "replicate (5 - bits) False"]) (auto simp: base32Encode_def d_def)
  next
    case False
    then show ?thesis using ds e by (intro exI [of _ ds] exI [of _ "[]"]) (auto simp: base32Encode_def)
  qed
qed

lemma base32_char_plain:
  assumes "unat d < 32"
  shows "js_upper_char (base32_char d) = [base32_char d]" "base32_char d \<noteq> CHR ''=''"
proof -
  have "list_all (\<lambda>i. js_upper_char (BASE32_ALPHABET ! i) = [BASE32_ALPHABET ! i] \<and> BASE32_ALPHABET ! i \<noteq> CHR ''='') [0..<32]"
    by code_simp
  with assms show "js_upper_char (base32_char d) = [base32_char d]" "base32_char d \<noteq> CHR ''=''"
    by (simp_all add: list_all_iff base32_char_def)
qed

lemma upper_digits: "\<forall>d \<in> set ds. unat d < 32 \<Longrightarrow> js_toUpperCase (map base32_char ds) = map base32_char ds"
  by (induction ds) (simp_all add: js_toUpperCase_def base32_char_plain)

lemma dropWhile_none: "\<forall>x \<in> set xs. \<not> P x \<Longrightarrow> dropWhile P xs = xs"
  by (cases xs) auto

lemma base32_decode_encode: "base32Decode (base32Encode bytes) = Some bytes"
proof -
  obtain ds pad where ds: "base32Encode bytes = map base32_char ds" "\<forall>d \<in> set ds. unat d < 32" "length pad < 8"
    "concat (map (low 5) ds) = concat (map (low 8) bytes) @ pad"
    using base32Encode_digits [of bytes] by (elim exE conjE)
  have "dropWhile (\<lambda>c. c = CHR ''='') (rev (map base32_char ds)) = rev (map base32_char ds)"
    using ds(2) base32_char_plain(2) by (intro dropWhile_none) auto
  then have dec: "base32Decode (base32Encode bytes) = decode_loop (map base32_char ds) 0 0 []"
    by (simp add: base32Decode_def ds(1) upper_digits [OF ds(2)])
  obtain out tail where out: "decode_loop (map base32_char ds) 0 0 [] = Some ([] @ out)" "length tail < 8"
    "concat (map (low 8) out) @ tail = low 0 0 @ concat (map (low 5) ds)"
    using decode_loop_spec [OF ds(2), of 0 0 "[]"] by auto
  have "out = bytes" using out(2,3) ds(3,4) by (intro octets_unique [of out tail bytes pad]) simp_all
  with dec out(1) show ?thesis by simp
qed

text \<open>C16: Base32 is lossless: for every byte string, decoding its encoding gives it back, although
  the accumulator of both loops is a 32-bit integer that is never masked and overflows.\<close>

theorem base32_roundtrip: "base32Decode (base32Encode bytes) = Some bytes"
  by (rule base32_decode_encode)

section \<open>Verification\<close>

lemma nat_text_below: "n < 10 ^ w \<Longrightarrow> 0 < w \<Longrightarrow> length (nat_text n) \<le> w"
proof (induction w arbitrary: n)
  case (Suc w)
  show ?case
  proof (cases "n < 10")
    case True
    then show ?thesis by (simp add: nat_text.simps [of n])
  next
    case False
    with Suc.prems have "0 < w" by (cases w) simp_all
    with Suc.IH [of "n div 10"] Suc.prems have "length (nat_text (n div 10)) \<le> w" by (simp add: div_less_iff_less_mult mult.commute)
    with False show ?thesis by (simp add: nat_text.simps [of n])
  qed
qed simp

lemma hotp_digits: "hotp hmac key counter = Some code \<Longrightarrow> length code = 6 \<and> list_all is_digit code"
proof -
  assume "hotp hmac key counter = Some code"
  then obtain n where c: "code = padStart0 6 (nat_text n)" "n < 10 ^ 6"
    by (auto simp: hotp_def TOTP_DIGITS_def)
  have "length (nat_text n) \<le> 6" using nat_text_below [OF c(2)] by simp
  then show ?thesis using nat_text_digits [of n] by (auto simp: c(1) padStart0_def list_all_iff is_digit_def char_code_def)
qed

text \<open>The clock is in range when all three counters fit into 64 bits.\<close>

definition totp_clock_ok :: "time_ms \<Rightarrow> bool" where
  "totp_clock_ok epochMs = (30000 \<le> epochMs \<and> epochMs < 30000 * (2 ^ 64 - 1))"

lemma hotp_Some: "0 \<le> counter \<Longrightarrow> counter < 2 ^ 64 \<Longrightarrow> \<exists>code. hotp hmac key counter = Some code"
  by (simp add: hotp_def counter_bytes_def)

lemma totpAt_counter: "(epochMs + drift * TOTP_STEP_SECONDS * 1000) div 1000 div TOTP_STEP_SECONDS = epochMs div 30000 + drift"
  by (simp add: TOTP_STEP_SECONDS_def zdiv_zmult2_eq [symmetric])

lemma verifyTotp_steps:
  assumes "totp_clock_ok epochMs" "base32Decode secret = Some key" "key \<noteq> []"
  shows "verifyTotp hmac secret code epochMs
    = Some (\<exists>drift \<in> {-1, 0, 1}. hotp hmac key (epochMs div 30000 + drift) = Some code)"
proof -
  have at: "totpAt hmac secret (epochMs + drift * TOTP_STEP_SECONDS * 1000) = map_option Some (hotp hmac key (epochMs div 30000 + drift))"
    for drift
    unfolding totpAt_def totpAt_counter using assms(2,3) by simp
  have "\<exists>c. hotp hmac key (epochMs div 30000 + drift) = Some c" if "drift \<in> {-1, 0, 1}" for drift
    using assms(1) that by (intro hotp_Some) (auto simp: totp_clock_ok_def)
  then obtain a b c where h: "hotp hmac key (epochMs div 30000 + -1) = Some a" "hotp hmac key (epochMs div 30000 + 0) = Some b"
    "hotp hmac key (epochMs div 30000 + 1) = Some c"
    by (metis insert_iff)
  show ?thesis
  proof (cases "length code = 6 \<and> list_all is_digit code")
    case True
    then show ?thesis using at [of "-1"] at [of 0] at [of 1] h by (auto simp: verifyTotp_def)
  next
    case False
    then show ?thesis using hotp_digits [of hmac key _ code] by (auto simp: verifyTotp_def)
  qed
qed


lemma adjacent_steps: "\<bar>a - b\<bar> \<le> 30000 \<Longrightarrow> a div 30000 - b div 30000 \<in> {-1, 0, 1 :: int}"
  by auto

text \<open>C17: A one-time code is accepted exactly within half a minute of its making: for a generated
  secret, \<open>verifyTotp\<close> at a time accepts a text if and only if it is the code of some moment at most
  30 seconds before or after that time.\<close>

theorem totp_window:
  assumes "random20 \<noteq> []" "totp_clock_ok epochMs"
  shows "verifyTotp hmac (generateTotpSecret random20) code epochMs
    = Some (\<exists>t. \<bar>t - epochMs\<bar> \<le> 30000 \<and> totpAt hmac (generateTotpSecret random20) t = Some (Some code))"
proof -
  let ?s = "generateTotpSecret random20"
  have dec: "base32Decode ?s = Some random20" by (simp add: generateTotpSecret_def base32_decode_encode)
  have at: "totpAt hmac ?s t = map_option Some (hotp hmac random20 (t div 30000))" for t
    using dec assms(1) totpAt_counter [of t 0] by (simp add: totpAt_def)
  have "(\<exists>drift \<in> {-1, 0, 1}. hotp hmac random20 (epochMs div 30000 + drift) = Some code)
      = (\<exists>t. \<bar>t - epochMs\<bar> \<le> 30000 \<and> totpAt hmac ?s t = Some (Some code))"
  proof
    assume "\<exists>drift \<in> {-1, 0, 1}. hotp hmac random20 (epochMs div 30000 + drift) = Some code"
    then obtain d where d: "d \<in> {-1, 0, 1}" "hotp hmac random20 (epochMs div 30000 + d) = Some code" by blast
    have "(epochMs + d * 30000) div 30000 = epochMs div 30000 + d" by simp
    with d(2) have "totpAt hmac ?s (epochMs + d * 30000) = Some (Some code)" unfolding at by (simp add: add.commute)
    moreover have "\<bar>(epochMs + d * 30000) - epochMs\<bar> \<le> 30000" using d(1) by auto
    ultimately show "\<exists>t. \<bar>t - epochMs\<bar> \<le> 30000 \<and> totpAt hmac ?s t = Some (Some code)" by blast
  next
    assume "\<exists>t. \<bar>t - epochMs\<bar> \<le> 30000 \<and> totpAt hmac ?s t = Some (Some code)"
    then obtain t where t: "\<bar>t - epochMs\<bar> \<le> 30000" "totpAt hmac ?s t = Some (Some code)" by blast
    then show "\<exists>drift \<in> {-1, 0, 1}. hotp hmac random20 (epochMs div 30000 + drift) = Some code"
      using adjacent_steps [OF t(1)] by (intro bexI [of _ "t div 30000 - epochMs div 30000"]) (simp_all add: at)
  qed
  then show ?thesis using verifyTotp_steps [OF assms(2) dec assms(1)] by simp
qed

definition demo_hmac :: hmac_sha1 where
  "demo_hmac key message = [0, 0, 0, js_at message 7 0, 0]"

lemma demo_hotp: "hotp demo_hmac key 3 = Some ''000003''"
proof -
  have "counter_bytes 3 = Some [0, 0, 0, 0, 0, 0, 0, 3]" by (simp add: counter_bytes_def)
  moreover have "dynamic_code (demo_hmac key [0, 0, 0, 0, 0, 0, 0, 3]) = 3"
    by (simp add: dynamic_code_def demo_hmac_def js_at_def)
  moreover have "padStart0 TOTP_DIGITS (nat_text 3) = ''000003''" by code_simp
  ultimately show ?thesis by (simp add: hotp_def TOTP_DIGITS_def)
qed

theorem totp_window_witness:
  "totpAt demo_hmac (generateTotpSecret [1, 2, 3]) 95000 = Some (Some ''000003'')
   \<and> verifyTotp demo_hmac (generateTotpSecret [1, 2, 3]) ''000003'' 110000 = Some True"
proof -
  have at: "totpAt demo_hmac (generateTotpSecret [1, 2, 3]) 95000 = Some (Some ''000003'')"
    by (simp add: totpAt_def generateTotpSecret_def base32_decode_encode TOTP_STEP_SECONDS_def demo_hotp)
  have "totp_clock_ok 110000" by (simp add: totp_clock_ok_def)
  moreover have "\<exists>t. \<bar>t - 110000\<bar> \<le> 30000 \<and> totpAt demo_hmac (generateTotpSecret [1, 2, 3]) t = Some (Some ''000003'')"
    using at by (intro exI [of _ 95000]) simp
  ultimately show ?thesis using at totp_window [of "[1, 2, 3]" 110000 demo_hmac "''000003''"] by simp
qed

end
