(* ===== verification/Api_Internal.thy ===== *)
theory Api_Internal
  imports Api_Export Api_Totp Db_Lifecycle
begin

text \<open>
  \<^verbatim>\<open>apps/api/src/internal/session.ts\<close> and \<^verbatim>\<open>internal/routes.ts\<close>: the sealed session
  cookie and the dashboard's session API. Sealing and unsealing (iron-session), Argon2, SHA-256,
  HMAC, random values and the clocks are fields of the environment. A handler gives its reply, the
  \<open>Set-Cookie\<close> header if any, and the database; an \<open>Inl\<close> reply is an exception for the error
  handler.
\<close>

section \<open>Sessions\<close>

record session_data =
  sd_userId :: uuid
  sd_orgId :: uuid
  sd_role :: user_role
  sd_mfaVerified :: bool
  sd_csrfToken :: string

definition SESSION_COOKIE :: string where "SESSION_COOKIE = ''tozalist_session''"
definition SESSION_TTL_SECONDS :: int where "SESSION_TTL_SECONDS = 60 * 60 * 12"

record session_lib =
  sl_seal :: "session_data \<Rightarrow> time_ms \<Rightarrow> string"
  sl_unseal :: "string \<Rightarrow> time_ms \<Rightarrow> session_data option"

record set_cookie =
  sc_name :: string
  sc_value :: string
  sc_httpOnly :: bool
  sc_secure :: bool
  sc_sameSite :: string
  sc_path :: string
  sc_maxAge :: int

record internal_env =
  ie_lib :: session_lib
  ie_cookieSecure :: bool
  ie_now :: time_ms
  ie_clock :: time_ms
  ie_dbnow :: time_us
  ie_requestId :: string
  ie_csrfToken :: string
  ie_auditId :: uuid
  ie_auditId2 :: uuid
  ie_signup :: signup_env
  ie_argon2Hash :: "string \<Rightarrow> string"
  ie_argon2Verify :: "string \<Rightarrow> string \<Rightarrow> bool"
  ie_sha256Hex :: "string \<Rightarrow> string"
  ie_hmac :: hmac_sha1
  ie_random20 :: "8 word list"
  ie_recoveryCodes :: "string list"
  ie_apiKeyId :: uuid
  ie_apiKey :: generated_api_key
  ie_cursor_lib :: cursor_lib

record internal_request =
  iq_cookie :: "string option"
  iq_csrf :: "string option"

type_synonym internal_result = "(db_error + http_reply) \<times> set_cookie option \<times> database"

definition session_cookie :: "internal_env \<Rightarrow> string \<Rightarrow> int \<Rightarrow> set_cookie" where
  "session_cookie env value maxAge =
     \<lparr>sc_name = SESSION_COOKIE, sc_value = value, sc_httpOnly = True, sc_secure = ie_cookieSecure env, sc_sameSite = ''lax'',
      sc_path = ''/'', sc_maxAge = maxAge\<rparr>"

definition writeSession :: "internal_env \<Rightarrow> session_data \<Rightarrow> set_cookie" where
  "writeSession env data = session_cookie env (sl_seal (ie_lib env) data (ie_now env)) SESSION_TTL_SECONDS"

definition clearSession :: "internal_env \<Rightarrow> set_cookie" where
  "clearSession env = session_cookie env [] 0"

definition readSession :: "internal_env \<Rightarrow> internal_request \<Rightarrow> session_data option" where
  "readSession env req =
     (case iq_cookie req of
        None \<Rightarrow> None
      | Some raw \<Rightarrow> if raw = [] then None else sl_unseal (ie_lib env) raw (ie_now env))"

definition requireSession ::
  "internal_env \<Rightarrow> internal_request \<Rightarrow> bool \<Rightarrow> bool \<Rightarrow> database \<Rightarrow> (http_reply \<times> set_cookie option) + session_data" where
  "requireSession env req mfa csrf db =
     (let rid = ie_requestId env
      in case readSession env req of
           None \<Rightarrow> Inl (send_default rid E_UNAUTHORIZED, None)
         | Some session \<Rightarrow>
             (case getOrgSettings db (sd_orgId session) of
                None \<Rightarrow> Inl (send_default rid E_UNAUTHORIZED, Some (clearSession env))
              | Some _ \<Rightarrow>
                  if mfa \<and> \<not> sd_mfaVerified session
                  then Inl (sendError rid E_UNAUTHORIZED ''Multi-factor verification is required.'', None)
                  else if csrf \<and> iq_csrf req \<noteq> Some (sd_csrfToken session)
                  then Inl (sendError rid E_UNAUTHORIZED ''The request is missing a valid CSRF token.'', None)
                  else Inr session))"

definition with_session ::
  "internal_env \<Rightarrow> internal_request \<Rightarrow> bool \<Rightarrow> bool \<Rightarrow> database \<Rightarrow> (session_data \<Rightarrow> internal_result) \<Rightarrow> internal_result" where
  "with_session env req mfa csrf db handler =
     (case requireSession env req mfa csrf db of
        Inl (reply, cookie) \<Rightarrow> (Inr reply, cookie, db)
      | Inr session \<Rightarrow> handler session)"

definition refuse :: "internal_env \<Rightarrow> error_code \<Rightarrow> database \<Rightarrow> internal_result" where
  "refuse env code db = (Inr (send_default (ie_requestId env) code), None, db)"

definition refuse_with :: "internal_env \<Rightarrow> error_code \<Rightarrow> string \<Rightarrow> database \<Rightarrow> internal_result" where
  "refuse_with env code message db = (Inr (sendError (ie_requestId env) code message), None, db)"

definition answer :: "internal_env \<Rightarrow> json \<Rightarrow> http_reply" where
  "answer env data = send_ok (JObj [(''data'', data), (''meta'', JObj [(''request_id'', JStr (ie_requestId env))])])"

text \<open>Schema validation of a string in the body.\<close>

definition text_between :: "nat \<Rightarrow> nat \<Rightarrow> string \<Rightarrow> bool" where
  "text_between a b s = (a \<le> length s \<and> length s \<le> b)"

definition user_audit :: "session_data \<Rightarrow> string \<Rightarrow> string \<Rightarrow> string \<Rightarrow> json option \<Rightarrow> audit_event_input" where
  "user_audit s action targetType targetId metadata =
     org_audit (sd_orgId s) (Some (sd_userId s)) action targetType targetId metadata"

section \<open>Signing up, in and out\<close>

definition post_signup :: "internal_env \<Rightarrow> string \<Rightarrow> string \<Rightarrow> string \<Rightarrow> database \<Rightarrow> internal_result" where
  "post_signup env org_name email password db =
     (if \<not> (text_between 2 120 org_name \<and> text_between 5 320 email \<and> text_between 10 200 password)
      then refuse env E_VALIDATION_ERROR db
      else (case signupOrgWithAdmin (ie_signup env) (ie_argon2Hash env) db (js_trim org_name) (js_toLowerCase (js_trim email))
                   password (ie_now env) of
              Inl e \<Rightarrow> (Inl e, None, db)
            | Inr (Email_taken, db1) \<Rightarrow> refuse_with env E_VALIDATION_ERROR ''This email address is already registered.'' db1
            | Inr (SignedUp orgId userId, db1) \<Rightarrow>
                (let session = \<lparr>sd_userId = userId, sd_orgId = orgId, sd_role = Admin, sd_mfaVerified = False,
                                sd_csrfToken = ie_csrfToken env\<rparr>
                 in (Inr (answer env (JObj [(''mfa_setup_required'', JBool True), (''csrf_token'', JStr (sd_csrfToken session))])),
                     Some (writeSession env session), db1))))"

definition post_login :: "internal_env \<Rightarrow> string \<Rightarrow> string \<Rightarrow> database \<Rightarrow> internal_result" where
  "post_login env email password db =
     (if \<not> (text_between 5 320 email \<and> text_between 1 200 password) then refuse env E_VALIDATION_ERROR db
      else
        (let rejected = refuse_with env E_UNAUTHORIZED ''The email or password is incorrect.'' db
         in case findUserForLogin db (js_toLowerCase (js_trim email)) of
              None \<Rightarrow> rejected
            | Some (user, orgDeletedAt) \<Rightarrow>
                if orgDeletedAt \<noteq> None then rejected
                else if \<not> verifyPassword (ie_argon2Verify env) (u_passwordHash user) password then rejected
                else
                  (let mfaEnrolled = (u_mfaSecret user \<noteq> None);
                       session = \<lparr>sd_userId = u_id user, sd_orgId = u_orgId user, sd_role = u_role user,
                                  sd_mfaVerified = False, sd_csrfToken = ie_csrfToken env\<rparr>;
                       cookie = Some (writeSession env session)
                   in case recordAuditEvent (ie_dbnow env) (ie_auditId env) db
                             (user_audit session ''user.login'' ''user'' (u_id user) (Some (JObj [(''mfa_pending'', JBool mfaEnrolled)])))
                             (ie_now env) of
                        Inl e \<Rightarrow> (Inl e, cookie, db)
                      | Inr db1 \<Rightarrow>
                          (Inr (answer env (JObj [(''mfa_required'', JBool mfaEnrolled),
                              (''mfa_setup_required'', JBool (\<not> mfaEnrolled \<and> u_role user = Admin)),
                              (''csrf_token'', JStr (sd_csrfToken session))])), cookie, db1))))"

definition post_logout :: "internal_env \<Rightarrow> internal_request \<Rightarrow> database \<Rightarrow> internal_result" where
  "post_logout env req db =
     with_session env req False True db (\<lambda>s.
       case recordAuditEvent (ie_dbnow env) (ie_auditId env) db (user_audit s ''user.logout'' ''user'' (sd_userId s) None) (ie_now env) of
         Inl e \<Rightarrow> (Inl e, None, db)
       | Inr db1 \<Rightarrow> (Inr (answer env (JObj [(''logged_out'', JBool True)])), Some (clearSession env), db1))"

section \<open>Multi-factor authentication\<close>

definition post_mfa_enroll :: "internal_env \<Rightarrow> internal_request \<Rightarrow> database \<Rightarrow> internal_result" where
  "post_mfa_enroll env req db =
     with_session env req False True db (\<lambda>s.
       case getUserById db (sd_userId s) of
         None \<Rightarrow> refuse env E_UNAUTHORIZED db
       | Some user \<Rightarrow>
           if u_mfaSecret user \<noteq> None then refuse_with env E_VALIDATION_ERROR ''Multi-factor auth is already enrolled.'' db
           else
             (let secret = generateTotpSecret (ie_random20 env)
              in case enrollMfa (ie_dbnow env) (ie_auditId env) (ie_sha256Hex env) db (u_id user) secret (ie_recoveryCodes env) (ie_now env) of
                   Inl e \<Rightarrow> (Inl e, None, db)
                 | Inr db1 \<Rightarrow>
                     (Inr (answer env (JObj [(''otpauth_uri'', JStr (totpUri secret (u_email user))), (''secret'', JStr secret),
                        (''recovery_codes'', JArr (map JStr (ie_recoveryCodes env)))])), None, db1)))"

text \<open>The second factor: a one-time code, or else a recovery code, which is used up.\<close>

datatype mfa_method = By_totp | By_recovery_code

fun mfa_method_text :: "mfa_method \<Rightarrow> string" where
  "mfa_method_text By_totp = ''totp''" | "mfa_method_text By_recovery_code = ''recovery_code''"

definition second_factor :: "internal_env \<Rightarrow> database \<Rightarrow> user \<Rightarrow> string \<Rightarrow> string \<Rightarrow> db_error + mfa_method option \<times> database" where
  "second_factor env db user secret code =
     (case verifyTotp (ie_hmac env) secret code (ie_clock env) of
        None \<Rightarrow> Inl (Thrown ''ERR_OUT_OF_RANGE'')
      | Some True \<Rightarrow> Inr (Some By_totp, db)
      | Some False \<Rightarrow>
          map_sum id (\<lambda>(used, db1). (if used then Some By_recovery_code else None, db1))
            (consumeRecoveryCode (ie_dbnow env) (ie_auditId env) (ie_sha256Hex env) db (u_id user) code (ie_now env)))"

definition verify_code :: "internal_env \<Rightarrow> string \<Rightarrow> database \<Rightarrow> session_data \<Rightarrow> internal_result" where
  "verify_code env body_code db s =
     (let not_enrolled = refuse_with env E_VALIDATION_ERROR ''Multi-factor auth is not enrolled.'' db
      in case getUserById db (sd_userId s) of
           None \<Rightarrow> not_enrolled
         | Some user \<Rightarrow>
             (case u_mfaSecret user of
                None \<Rightarrow> not_enrolled
              | Some secret \<Rightarrow>
                  (case second_factor env db user secret (js_trim body_code) of
                     Inl e \<Rightarrow> (Inl e, None, db)
                   | Inr (None, db1) \<Rightarrow> refuse_with env E_UNAUTHORIZED ''The verification code is not valid.'' db1
                   | Inr (Some by, db1) \<Rightarrow>
                       (case recordAuditEvent (ie_dbnow env) (ie_auditId2 env) db1
                               (org_audit (sd_orgId s) (Some (u_id user)) ''user.mfa_verified'' ''user'' (u_id user)
                                  (Some (JObj [(''method'', JStr (mfa_method_text by))]))) (ie_now env) of
                          Inl e \<Rightarrow> (Inl e, None, db1)
                        | Inr db2 \<Rightarrow> (Inr (answer env (JObj [(''mfa_verified'', JBool True)])),
                                      Some (writeSession env (s\<lparr>sd_mfaVerified := True\<rparr>)), db2)))))"

definition post_mfa_verify :: "internal_env \<Rightarrow> internal_request \<Rightarrow> string \<Rightarrow> database \<Rightarrow> internal_result" where
  "post_mfa_verify env req body_code db =
     (if \<not> text_between 6 32 body_code then refuse env E_VALIDATION_ERROR db
      else with_session env req False True db (verify_code env body_code db))"

section \<open>Session state and dashboard data\<close>

fun role_text :: "user_role \<Rightarrow> string" where
  "role_text Admin = ''admin''" | "role_text Member = ''member''"

definition get_me :: "internal_env \<Rightarrow> internal_request \<Rightarrow> database \<Rightarrow> internal_result" where
  "get_me env req db =
     with_session env req False False db (\<lambda>s.
       case getUserById db (sd_userId s) of
         None \<Rightarrow> refuse env E_UNAUTHORIZED db
       | Some user \<Rightarrow>
           (case getOrgSettings db (u_orgId user) of
              None \<Rightarrow> refuse env E_UNAUTHORIZED db
            | Some org \<Rightarrow>
                (Inr (answer env (JObj [(''email'', JStr (u_email user)), (''role'', JStr (role_text (u_role user))),
                   (''org_name'', JStr (os_name org)), (''mfa_enrolled'', JBool (u_mfaSecret user \<noteq> None)),
                   (''mfa_verified'', JBool (sd_mfaVerified s)), (''csrf_token'', JStr (sd_csrfToken s))])), None, db)))"

definition json_int :: "int \<Rightarrow> json" where "json_int n = JNum (of_int n)"

definition json_date :: "time_us \<Rightarrow> json" where "json_date t = JStr (toISOString (ms_of t))"

definition get_overview :: "internal_env \<Rightarrow> internal_request \<Rightarrow> database \<Rightarrow> internal_result" where
  "get_overview env req db =
     with_session env req True False db (\<lambda>s.
       let orgId = sd_orgId s;
           result =
             and_then (getCreditBalance db orgId) (\<lambda>balance.
             and_then (getUsageSummary (ie_cursor_lib env) db orgId None 1 (ie_now env)) (\<lambda>usage.
             and_then (listBatchesForOrg (ie_cursor_lib env) db orgId None 5) (\<lambda>page.
               Inr (answer env (JObj [(''credits'', json_int balance),
                 (''checks_this_month'',
                   (case usage of
                      Some u \<Rightarrow> JObj [(''email'', json_int (us_email u)), (''phone'', json_int (us_phone u)), (''total'', json_int (us_total u))]
                    | None \<Rightarrow> JObj [(''email'', JNum 0), (''phone'', JNum 0), (''total'', JNum 0)])),
                 (''recent_batches'',
                   JArr (map (\<lambda>b. JObj [(''batch_id'', JStr (b_id b)), (''filename'', JStr (b_filename b)),
                       (''status'', JStr (batch_status_text (b_status b))), (''total_rows'', json_int (b_totalRows b)),
                       (''created_at'', json_date (b_createdAt b))]) (case page of Some (entries, _) \<Rightarrow> entries | None \<Rightarrow> []))),
                 (''recent_activity'',
                   JArr (map (\<lambda>e. JObj [(''action'', JStr (ae_action e)), (''target_type'', JStr (ae_targetType e)),
                       (''at'', json_date (ae_createdAt e))]) (listRecentAuditEvents db orgId 10)))])))))
       in (result, None, db))"

section \<open>API keys\<close>

definition get_keys :: "internal_env \<Rightarrow> internal_request \<Rightarrow> database \<Rightarrow> internal_result" where
  "get_keys env req db =
     with_session env req True False db (\<lambda>s.
       (Inr (answer env (JObj [(''keys'',
          JArr (map (\<lambda>k. JObj [(''key_id'', JStr (k_id k)), (''name'', JStr (k_name k)), (''key_prefix'', JStr (k_keyPrefix k)),
             (''created_at'', json_date (k_createdAt k)), (''revoked_at'', json_opt json_date (k_revokedAt k)),
             (''last_used_at'', json_opt json_date (k_lastUsedAt k))]) (listApiKeysForOrg db (sd_orgId s))))])), None, db))"

definition post_keys :: "internal_env \<Rightarrow> internal_request \<Rightarrow> string \<Rightarrow> database \<Rightarrow> internal_result" where
  "post_keys env req name db =
     (if \<not> text_between 1 120 name then refuse env E_VALIDATION_ERROR db
      else with_session env req True True db (\<lambda>s.
        if sd_role s \<noteq> Admin then refuse env E_UNAUTHORIZED db
        else (case createApiKeyForOrg (ie_dbnow env) (ie_apiKeyId env) (ie_auditId env) (ie_apiKey env) db (sd_orgId s) (js_trim name)
                     (Some (sd_userId s)) (ie_now env) of
                Inl e \<Rightarrow> (Inl e, None, db)
              | Inr (KeyCreated created, db1) \<Rightarrow>
                  (Inr (answer env (JObj [(''key_id'', JStr (ck_apiKeyId created)), (''key_prefix'', JStr (ck_keyPrefix created)),
                     (''plaintext_key'', JStr (ck_plaintext created))])), None, db1)
              | Inr (_, db1) \<Rightarrow> refuse env E_VALIDATION_ERROR db1)))"

definition post_key_revoke :: "internal_env \<Rightarrow> internal_request \<Rightarrow> uuid \<Rightarrow> database \<Rightarrow> internal_result" where
  "post_key_revoke env req keyId db =
     with_session env req True True db (\<lambda>s.
       if sd_role s \<noteq> Admin then refuse env E_UNAUTHORIZED db
       else if \<not> list_ex (\<lambda>k. k_id k = keyId) (listApiKeysForOrg db (sd_orgId s)) then refuse env E_NOT_FOUND db
       else (case revokeApiKeyById (ie_dbnow env) (ie_auditId env) db keyId (Some (sd_userId s)) (ie_now env) (ie_now env) of
               Inl e \<Rightarrow> (Inl e, None, db)
             | Inr (result, db1) \<Rightarrow>
                 (Inr (answer env (JObj [(''revoked'', JBool (result = Revoked)), (''already_revoked'', JBool (result = Already_revoked))])),
                  None, db1)))"

section \<open>Settings\<close>

definition RETENTION_CHOICES :: "int list" where "RETENTION_CHOICES = [7, 30, 90]"

definition get_settings :: "internal_env \<Rightarrow> internal_request \<Rightarrow> database \<Rightarrow> internal_result" where
  "get_settings env req db =
     with_session env req True False db (\<lambda>s.
       case getOrgSettings db (sd_orgId s) of
         None \<Rightarrow> refuse env E_UNAUTHORIZED db
       | Some settings \<Rightarrow>
           (Inr (answer env (JObj [(''org_name'', JStr (os_name settings)), (''retention_days'', json_int (os_retentionDays settings))])),
            None, db))"

definition post_settings :: "internal_env \<Rightarrow> internal_request \<Rightarrow> string option \<Rightarrow> int option \<Rightarrow> database \<Rightarrow> internal_result" where
  "post_settings env req org_name retention_days db =
     (if \<not> pred_option (text_between 2 120) org_name then refuse env E_VALIDATION_ERROR db
      else with_session env req True True db (\<lambda>s.
        if sd_role s \<noteq> Admin then refuse env E_UNAUTHORIZED db
        else if \<not> pred_option (\<lambda>d. d \<in> set RETENTION_CHOICES) retention_days
        then refuse_with env E_VALIDATION_ERROR ''Retention must be 7, 30, or 90 days.'' db
        else (case updateOrgSettings (ie_dbnow env) (ie_auditId env) db (sd_orgId s) (sd_userId s) (map_option js_trim org_name)
                     retention_days (ie_now env) of
                Inl e \<Rightarrow> (Inl e, None, db)
              | Inr (updated, db1) \<Rightarrow>
                  if \<not> updated then refuse env E_UNAUTHORIZED db1
                  else (Inr (answer env (JObj [(''updated'', JBool True)])), None, db1))))"

section \<open>Data life cycle\<close>

text \<open>The export reads through queries of its own (\<open>dbs\<close>), after which the audit event is written to
  the database reached by then. \<open>None\<close> as a whole is an export that never ends.\<close>

definition post_export ::
  "internal_env \<Rightarrow> internal_request \<Rightarrow> 's export_env option \<Rightarrow> (nat \<Rightarrow> database) \<Rightarrow> database \<Rightarrow> database \<Rightarrow> 's
     \<Rightarrow> (internal_result \<times> 's) option" where
  "post_export env req storage dbs db_after db st =
     (case requireSession env req True True db of
        Inl (reply, cookie) \<Rightarrow> Some ((Inr reply, cookie, db), st)
      | Inr s \<Rightarrow>
          if sd_role s \<noteq> Admin then Some (refuse env E_UNAUTHORIZED db, st)
          else (case storage of
                  None \<Rightarrow> Some (refuse env E_INTERNAL_ERROR db, st)
                | Some xenv \<Rightarrow>
                    map_option (\<lambda>(result, st1).
                      (case result of
                         Inl e \<Rightarrow> ((Inl e, None, db_after), st1)
                       | Inr x \<Rightarrow>
                           (case recordAuditEvent (ie_dbnow env) (ie_auditId env) db_after
                                   (user_audit s ''data.exported'' ''organization'' (sd_orgId s)
                                      (Some (JObj [(''export_id'', JStr (er_exportId x)), (''link_ttl_seconds'', json_int EXPORT_LINK_TTL_SECONDS)])))
                                   (ie_now env) of
                              Inl e \<Rightarrow> ((Inl e, None, db_after), st1)
                            | Inr db1 \<Rightarrow>
                                ((Inr (answer env (JObj [(''export_id'', JStr (er_exportId x)), (''url'', JStr (er_url x)),
                                    (''expires_at'', JStr (toISOString (er_expiresAt x)))])), None, db1), st1))))
                      (buildOrgDataExport xenv dbs (sd_orgId s) (ie_clock env) st)))"

definition wipe_callback :: "'s s3 \<Rightarrow> string list \<Rightarrow> 's \<Rightarrow> db_error + 's" where
  "wipe_callback client keys st =
     (case deleteObjects client keys st of (Inl e, _) \<Rightarrow> Inl e | (Inr _, st') \<Rightarrow> Inr st')"

text \<open>A wipe that fails in the object storage may have deleted some objects already.\<close>

definition post_delete_all ::
  "internal_env \<Rightarrow> internal_request \<Rightarrow> 's s3 option \<Rightarrow> string \<Rightarrow> database \<Rightarrow> 's \<Rightarrow> internal_result \<times> 's" where
  "post_delete_all env req storage confirm db st =
     (if \<not> text_between 1 32 confirm then (refuse env E_VALIDATION_ERROR db, st)
      else (case requireSession env req True True db of
        Inl (reply, cookie) \<Rightarrow> ((Inr reply, cookie, db), st)
      | Inr s \<Rightarrow>
          if sd_role s \<noteq> Admin then (refuse env E_UNAUTHORIZED db, st)
          else if confirm \<noteq> ''DELETE'' then (refuse_with env E_VALIDATION_ERROR ''Type DELETE to confirm.'' db, st)
          else (case storage of
                  None \<Rightarrow> (refuse env E_INTERNAL_ERROR db, st)
                | Some client \<Rightarrow>
                    (case wipeCheckDataForOrg db st (sd_orgId s) (wipe_callback client) of
                       Inl e \<Rightarrow>
                         (refuse env E_INTERNAL_ERROR db,
                          snd (deleteObjects client (batch_object_keys (filter (\<lambda>b. b_orgId b = sd_orgId s) (batches db))) st))
                     | Inr (None, db1, st1) \<Rightarrow> (refuse env E_UNAUTHORIZED db1, st1)
                     | Inr (Some wiped, db1, st1) \<Rightarrow>
                         (case recordAuditEvent (ie_dbnow env) (ie_auditId env) db1
                                 (user_audit s ''check_data.deleted'' ''organization'' (sd_orgId s)
                                    (Some (JObj [(''email_checks'', json_count (wr_emailChecks wiped)), (''phone_checks'', json_count (wr_phoneChecks wiped)),
                                       (''batches'', json_count (wr_batches wiped)), (''batch_objects'', json_count (wr_batchObjects wiped))])))
                                 (ie_now env) of
                            Inl e \<Rightarrow> ((Inl e, None, db1), st1)
                          | Inr db2 \<Rightarrow>
                              ((Inr (answer env (JObj [(''deleted'', JBool True), (''email_checks'', json_count (wr_emailChecks wiped)),
                                  (''phone_checks'', json_count (wr_phoneChecks wiped)), (''batches'', json_count (wr_batches wiped))])),
                                None, db2), st1))))))"

definition post_org_delete :: "internal_env \<Rightarrow> internal_request \<Rightarrow> string \<Rightarrow> database \<Rightarrow> internal_result" where
  "post_org_delete env req confirm_name db =
     (if \<not> text_between 1 120 confirm_name then refuse env E_VALIDATION_ERROR db
      else with_session env req True True db (\<lambda>s.
        if sd_role s \<noteq> Admin then refuse env E_UNAUTHORIZED db
        else (case getOrgSettings db (sd_orgId s) of
                None \<Rightarrow> refuse env E_UNAUTHORIZED db
              | Some settings \<Rightarrow>
                  if confirm_name \<noteq> os_name settings
                  then refuse_with env E_VALIDATION_ERROR ''The confirmation name does not match.'' db
                  else (case softDeleteOrganization (ie_dbnow env) (ie_auditId env) db (sd_orgId s) (sd_userId s) (ie_now env) (ie_now env) of
                          Inl e \<Rightarrow> (Inl e, None, db)
                        | Inr (_, db1) \<Rightarrow> (Inr (answer env (JObj [(''deleted'', JBool True)])), Some (clearSession env), db1)))))"

end
