(* ===== verification/Dashboard_System.thy ===== *)
theory Dashboard_System
  imports Api_Internal
begin

text \<open>
  The session API of \<^verbatim>\<open>internal/routes.ts\<close> as a whole: calls, the state they act on, and what
  every reachable state guarantees. A request presents no cookie, a cookie that does not unseal, or
  one the server has issued: that is what authenticated sealing promises. Other parts of the program
  may change the database between calls, but they neither create users nor move them.
\<close>

section \<open>Calls\<close>

datatype dash_call =
    C_signup string string string
  | C_login string string
  | C_logout
  | C_enroll
  | C_verify string
  | C_me
  | C_overview
  | C_keys
  | C_create_key string
  | C_revoke_key uuid
  | C_settings
  | C_update_settings "string option" "int option"
  | C_export
  | C_delete_all string
  | C_delete_org string

record 's dash_storage =
  ds_s3 :: "'s s3"
  ds_export :: "'s export_env"

fun run_call ::
  "internal_env \<Rightarrow> internal_request \<Rightarrow> 's dash_storage option \<Rightarrow> dash_call \<Rightarrow> database \<Rightarrow> 's \<Rightarrow> (internal_result \<times> 's) option" where
  "run_call env req storage (C_signup org_name email password) db st = Some (post_signup env org_name email password db, st)"
| "run_call env req storage (C_login email password) db st = Some (post_login env email password db, st)"
| "run_call env req storage C_logout db st = Some (post_logout env req db, st)"
| "run_call env req storage C_enroll db st = Some (post_mfa_enroll env req db, st)"
| "run_call env req storage (C_verify code) db st = Some (post_mfa_verify env req code db, st)"
| "run_call env req storage C_me db st = Some (get_me env req db, st)"
| "run_call env req storage C_overview db st = Some (get_overview env req db, st)"
| "run_call env req storage C_keys db st = Some (get_keys env req db, st)"
| "run_call env req storage (C_create_key name) db st = Some (post_keys env req name db, st)"
| "run_call env req storage (C_revoke_key i) db st = Some (post_key_revoke env req i db, st)"
| "run_call env req storage C_settings db st = Some (get_settings env req db, st)"
| "run_call env req storage (C_update_settings name days) db st = Some (post_settings env req name days db, st)"
| "run_call env req storage C_export db st = post_export env req (map_option ds_export storage) (\<lambda>_. db) db db st"
| "run_call env req storage (C_delete_all confirm) db st = Some (post_delete_all env req (map_option ds_s3 storage) confirm db st)"
| "run_call env req storage (C_delete_org name) db st = Some (post_org_delete env req name db, st)"

text \<open>Calls that work without a session, before the second factor, and on behalf of an administrator.\<close>

fun public_call :: "dash_call \<Rightarrow> bool" where
  "public_call (C_signup _ _ _) = True"
| "public_call (C_login _ _) = True"
| "public_call _ = False"

fun early_call :: "dash_call \<Rightarrow> bool" where
  "early_call C_logout = True" | "early_call C_enroll = True" | "early_call (C_verify _) = True" | "early_call C_me = True"
| "early_call _ = False"

section \<open>One organization's view of the database\<close>

definition org_view :: "database \<Rightarrow> uuid \<Rightarrow> database" where
  "org_view db orgId =
     (let endpoints = filter (\<lambda>e. we_orgId e = orgId) (webhookEndpoints db)
      in \<lparr>organizations = filter (\<lambda>r. o_id r = orgId) (organizations db),
          users = filter (\<lambda>r. u_orgId r = orgId) (users db), apiKeys = filter (\<lambda>r. k_orgId r = orgId) (apiKeys db),
          creditLedger = filter (\<lambda>r. l_orgId r = orgId) (creditLedger db),
          emailChecks = filter (\<lambda>r. ec_orgId r = orgId) (emailChecks db),
          phoneChecks = filter (\<lambda>r. pc_orgId r = orgId) (phoneChecks db),
          batches = filter (\<lambda>r. b_orgId r = orgId) (batches db), webhookEndpoints = endpoints,
          webhookDeliveries = filter (\<lambda>d. wd_endpointId d \<in> we_id ` set endpoints) (webhookDeliveries db),
          auditEvents = filter (\<lambda>r. ae_orgId r = Some orgId) (auditEvents db), leads = leads db,
          invoiceRequests = filter (\<lambda>r. ir_orgId r = orgId) (invoiceRequests db)\<rparr>)"

definition untouched :: "uuid \<Rightarrow> database \<Rightarrow> database \<Rightarrow> bool" where
  "untouched actor db db' = (\<forall>o'. o' \<noteq> actor \<longrightarrow> org_view db' o' = org_view db o')"

lemma untouched_refl [simp]: "untouched actor db db"
  by (simp add: untouched_def)

lemma untouched_trans: "untouched actor a b \<Longrightarrow> untouched actor b c \<Longrightarrow> untouched actor a c"
  by (simp add: untouched_def)

lemma filter_map_other: "(\<And>x. P (f x) = P x) \<Longrightarrow> (\<And>x. x \<in> set xs \<Longrightarrow> P x \<Longrightarrow> f x = x) \<Longrightarrow> filter P (map f xs) = filter P xs"
  by (induction xs) auto

lemma audit_untouched:
  assumes "recordAuditEvent dbnow i db e now = Inr db'" "ai_orgId e = Some actor"
  shows "untouched actor db db'"
  using assms by (auto simp: recordAuditEvent_def insert_audit_event_def untouched_def org_view_def Let_def split: if_splits)

lemma enroll_untouched:
  assumes "enrollMfa dbnow i sha db userId secret codes now = Inr db'"
    and "\<forall>u \<in> set (users db). u_id u = userId \<longrightarrow> u_orgId u = actor"
  shows "untouched actor db db'"
proof -
  let ?hit = "\<lambda>u. u_id u = userId \<and> u_deletedAt u = None"
  define db1 where "db1 = db\<lparr>users := map (\<lambda>u. if ?hit u then u\<lparr>u_mfaSecret := Some secret, u_mfaRecoveryCodes := map sha codes\<rparr> else u) (users db)\<rparr>"
  obtain u where u: "first_row (filter ?hit (users db)) = Some u"
    and a: "recordAuditEvent dbnow i db1 (org_audit (u_orgId u) (Some (u_id u)) ''user.mfa_enrolled'' ''user'' (u_id u) None) now = Inr db'"
    using assms(1) by (auto simp: enrollMfa_def db1_def Let_def split: option.splits)
  have "u_orgId u = actor" using first_row_Some_mem [OF u] assms(2) by auto
  then have "untouched actor db1 db'" using audit_untouched [OF a] by (simp add: org_audit_def)
  moreover have "untouched actor db db1"
    using assms(2) by (auto simp: untouched_def org_view_def db1_def Let_def intro!: filter_map_other)
  ultimately show ?thesis by (rule untouched_trans [rotated])
qed

lemma recovery_untouched:
  assumes "consumeRecoveryCode dbnow i sha db userId code now = Inr (used, db')"
    and "\<forall>u \<in> set (users db). u_id u = userId \<longrightarrow> u_orgId u = actor"
  shows "untouched actor db db'"
proof -
  let ?hit = "\<lambda>u. u_id u = userId \<and> u_deletedAt u = None"
  show ?thesis
  proof (cases used)
    case False
    then have "db' = db" using assms(1) by (auto simp: consumeRecoveryCode_def Let_def and_then_Inr split: option.splits if_splits)
    then show ?thesis by simp
  next
    case True
    then obtain u where u: "first_row (filter ?hit (users db)) = Some u"
      using assms(1) by (auto simp: consumeRecoveryCode_def Let_def split: option.splits)
    define db1 where "db1 = db\<lparr>users := map (\<lambda>v. if u_id v = userId then v\<lparr>u_mfaRecoveryCodes :=
        filter (\<lambda>entry. entry \<noteq> sha code) (u_mfaRecoveryCodes u)\<rparr> else v) (users db)\<rparr>"
    have a: "recordAuditEvent dbnow i db1 (org_audit (u_orgId u) (Some userId) ''user.recovery_code_used'' ''user'' userId None) now = Inr db'"
      using assms(1) u True by (auto simp: consumeRecoveryCode_def db1_def Let_def and_then_Inr split: if_splits)
    have "u_orgId u = actor" using first_row_Some_mem [OF u] assms(2) by auto
    then have "untouched actor db1 db'" using audit_untouched [OF a] by (simp add: org_audit_def)
    moreover have "untouched actor db db1"
      using assms(2) by (auto simp: untouched_def org_view_def db1_def Let_def intro!: filter_map_other)
    ultimately show ?thesis by (rule untouched_trans [rotated])
  qed
qed


lemma signup_untouched:
  assumes "signupOrgWithAdmin env hash db orgName email password now = Inr (r, db')"
  shows "untouched (se_orgId env) db db'"
    and "r = SignedUp o' u' \<Longrightarrow> o' = se_orgId env \<and> u' = se_userId env"
    and "\<exists>new. users db' = users db @ new \<and> (\<forall>u \<in> set new. u_id u = se_userId env \<and> u_orgId u = se_orgId env \<and> u_role u = Admin)
      \<and> (r = Email_taken \<longrightarrow> new = [])"
    and "apiKeys db' = apiKeys db"
proof -
  show "r = SignedUp o' u' \<Longrightarrow> o' = se_orgId env \<and> u' = se_userId env"
    using assms by (auto simp: signupOrgWithAdmin_def and_then_Inr split: option.splits)
  show "untouched (se_orgId env) db db'" "apiKeys db' = apiKeys db"
    "\<exists>new. users db' = users db @ new \<and> (\<forall>u \<in> set new. u_id u = se_userId env \<and> u_orgId u = se_orgId env \<and> u_role u = Admin)
      \<and> (r = Email_taken \<longrightarrow> new = [])"
    using assms
    by (auto simp: signupOrgWithAdmin_def and_then_Inr insert_organization_def insert_user_def untouched_def org_view_def
        recordAuditEvent_def insert_audit_event_def org_audit_def Let_def split: option.splits if_splits)
qed

lemma create_key_untouched:
  assumes "createApiKeyForOrg dbnow i a key db actor name user now = Inr (r, db')"
  shows "untouched actor db db'"
  using assms
  by (auto simp: createApiKeyForOrg_def and_then_Inr insert_api_key_def untouched_def org_view_def
      recordAuditEvent_def insert_audit_event_def org_audit_def Let_def split: option.splits if_splits)

lemma revoke_untouched:
  assumes "revokeApiKeyById dbnow i db keyId user now now' = Inr (r, db')"
    and "\<forall>k \<in> set (apiKeys db). k_id k = keyId \<longrightarrow> k_orgId k = actor"
  shows "untouched actor db db'"
proof -
  let ?hit = "\<lambda>k. k_id k = keyId \<and> k_revokedAt k = None"
  define db1 where "db1 = db\<lparr>apiKeys := map (\<lambda>k. if ?hit k then k\<lparr>k_revokedAt := Some (us_of now)\<rparr> else k) (apiKeys db)\<rparr>"
  have one: "untouched actor db db1"
    using assms(2) by (auto simp: untouched_def org_view_def db1_def Let_def intro!: filter_map_other)
  show ?thesis
  proof (cases "first_row (filter ?hit (apiKeys db))")
    case None
    then have "db' = db1" using assms(1) by (auto simp: revokeApiKeyById_def db1_def Let_def first_row_def)
    with one show ?thesis by simp
  next
    case (Some k)
    have "recordAuditEvent dbnow i db1 (org_audit (k_orgId k) user ''api_key.revoked'' ''api_key'' (k_id k) None) now' = Inr db'"
      using assms(1) Some by (auto simp: revokeApiKeyById_def db1_def Let_def and_then_Inr)
    moreover have "k_orgId k = actor" using first_row_Some_mem [OF Some] assms(2) by auto
    ultimately have "untouched actor db1 db'" by (auto intro: audit_untouched simp: org_audit_def)
    with one show ?thesis by (rule untouched_trans)
  qed
qed

lemma settings_untouched:
  assumes "updateOrgSettings dbnow i db actor user name days now = Inr (r, db')"
  shows "untouched actor db db'"
proof -
  define upd where "upd = (\<lambda>o' :: organization. if o_id o' = actor \<and> o_deletedAt o' = None
      then o'\<lparr>o_name := (case name of Some n \<Rightarrow> n | None \<Rightarrow> o_name o'), o_retentionDays := (case days of Some d \<Rightarrow> d | None \<Rightarrow> o_retentionDays o')\<rparr> else o')"
  define db1 where "db1 = db\<lparr>organizations := map upd (organizations db)\<rparr>"
  have "untouched actor db db1"
    by (auto simp: untouched_def org_view_def db1_def upd_def Let_def intro!: filter_map_other)
  moreover have "db' = db \<or> (\<exists>m. recordAuditEvent dbnow i db1 (org_audit actor (Some user) ''org.settings_updated'' ''organization'' actor m) now = Inr db')"
    using assms unfolding updateOrgSettings_def db1_def upd_def Let_def by (auto simp: and_then_Inr split: if_splits)
  ultimately show ?thesis using audit_untouched untouched_trans by (fastforce simp: org_audit_def)
qed

lemma softDelete_untouched:
  assumes "softDeleteOrganization dbnow i db actor user now now' = Inr (r, db')"
  shows "untouched actor db db'"
proof -
  define upd where "upd = (\<lambda>o' :: organization. if o_id o' = actor \<and> o_deletedAt o' = None then o'\<lparr>o_deletedAt := Some (us_of now)\<rparr> else o')"
  define db1 where "db1 = db\<lparr>organizations := map upd (organizations db)\<rparr>"
  have "untouched actor db db1"
    by (auto simp: untouched_def org_view_def db1_def upd_def Let_def intro!: filter_map_other)
  moreover have "db' = db \<or> (\<exists>m. recordAuditEvent dbnow i db1 (org_audit actor (Some user) ''org.deleted'' ''organization'' actor m) now' = Inr db')"
    using assms unfolding softDeleteOrganization_def db1_def upd_def Let_def by (auto simp: and_then_Inr split: if_splits)
  ultimately show ?thesis using audit_untouched untouched_trans by (fastforce simp: org_audit_def)
qed

lemma filter_keep: "(\<And>x. P x \<Longrightarrow> Q x) \<Longrightarrow> filter P (filter Q xs) = filter P xs"
  by (induction xs) auto

lemma wipe_untouched:
  assumes "wipeCheckDataForOrg db st actor f = Inr (r, db', st')"
  shows "untouched actor db db'"
  using assms
  by (auto simp: wipeCheckDataForOrg_def and_then_Inr delete_checks_of_def untouched_def org_view_def Let_def intro!: filter_keep
      simp del: filter_filter split: option.splits)


section \<open>What a call may do\<close>

text \<open>A change on behalf of one organization: no other organization's rows differ, no user appears,
  disappears or changes organization or role, and key identifiers stay unique.\<close>

definition user_ids :: "database \<Rightarrow> (uuid \<times> uuid \<times> user_role) list" where
  "user_ids db = map (\<lambda>u. (u_id u, u_orgId u, u_role u)) (users db)"

definition tenant_step :: "uuid \<Rightarrow> database \<Rightarrow> database \<Rightarrow> bool" where
  "tenant_step actor db db' =
     (untouched actor db db' \<and> user_ids db' = user_ids db
      \<and> (distinct (map k_id (apiKeys db)) \<longrightarrow> distinct (map k_id (apiKeys db'))))"

lemma tenant_step_refl [simp]: "tenant_step actor db db"
  by (simp add: tenant_step_def)

lemma tenant_step_trans: "tenant_step actor a b \<Longrightarrow> tenant_step actor b c \<Longrightarrow> tenant_step actor a c"
  using untouched_trans by (auto simp: tenant_step_def)

lemma audit_step:
  assumes "recordAuditEvent dbnow i db e now = Inr db'" "ai_orgId e = Some actor"
  shows "tenant_step actor db db'"
  using audit_untouched [OF assms] recordAuditEvent_Inr [OF assms(1)] by (auto simp: tenant_step_def user_ids_def)

lemma enroll_step:
  assumes "enrollMfa dbnow i sha db userId secret codes now = Inr db'"
    and "\<forall>u \<in> set (users db). u_id u = userId \<longrightarrow> u_orgId u = actor"
  shows "tenant_step actor db db'"
  using enroll_untouched [OF assms] assms(1)
  by (auto simp: tenant_step_def user_ids_def enrollMfa_def Let_def comp_def split: option.splits dest!: recordAuditEvent_Inr)

lemma recovery_step:
  assumes "consumeRecoveryCode dbnow i sha db userId code now = Inr (used, db')"
    and "\<forall>u \<in> set (users db). u_id u = userId \<longrightarrow> u_orgId u = actor"
  shows "tenant_step actor db db'"
  using recovery_untouched [OF assms] assms(1)
  by (auto simp: tenant_step_def user_ids_def consumeRecoveryCode_def Let_def comp_def and_then_Inr
      split: option.splits if_splits dest!: recordAuditEvent_Inr)

lemma create_key_step:
  assumes "createApiKeyForOrg dbnow i a key db actor name user now = Inr (r, db')"
  shows "tenant_step actor db db'"
  using create_key_untouched [OF assms] assms
  by (auto simp: tenant_step_def user_ids_def createApiKeyForOrg_def and_then_Inr insert_api_key_def
      split: option.splits if_splits dest!: recordAuditEvent_Inr)

lemma revoke_step:
  assumes "revokeApiKeyById dbnow i db keyId user now now' = Inr (r, db')"
    and "\<forall>k \<in> set (apiKeys db). k_id k = keyId \<longrightarrow> k_orgId k = actor"
  shows "tenant_step actor db db'"
proof -
  have "map k_id (map (\<lambda>k. if k_id k = keyId \<and> k_revokedAt k = None then k\<lparr>k_revokedAt := Some (us_of now)\<rparr> else k) (apiKeys db))
      = map k_id (apiKeys db)" by simp
  then have "map k_id (apiKeys db') = map k_id (apiKeys db)" "users db' = users db"
    using assms(1) by (auto simp: revokeApiKeyById_def Let_def and_then_Inr split: option.splits dest!: recordAuditEvent_Inr)
  with revoke_untouched [OF assms] show ?thesis by (simp add: tenant_step_def user_ids_def)
qed

lemma settings_step:
  assumes "updateOrgSettings dbnow i db actor user name days now = Inr (r, db')"
  shows "tenant_step actor db db'"
  using settings_untouched [OF assms] assms
  by (auto simp: tenant_step_def user_ids_def updateOrgSettings_def Let_def and_then_Inr split: if_splits dest!: recordAuditEvent_Inr)

lemma softDelete_step:
  assumes "softDeleteOrganization dbnow i db actor user now now' = Inr (r, db')"
  shows "tenant_step actor db db'"
  using softDelete_untouched [OF assms] assms
  by (auto simp: tenant_step_def user_ids_def softDeleteOrganization_def Let_def and_then_Inr split: if_splits dest!: recordAuditEvent_Inr)

lemma wipe_step:
  assumes "wipeCheckDataForOrg db st actor f = Inr (r, db', st')"
  shows "tenant_step actor db db'"
  using wipe_untouched [OF assms] assms
  by (auto simp: tenant_step_def user_ids_def wipeCheckDataForOrg_def and_then_Inr delete_checks_of_def Let_def split: option.splits)

section \<open>Handlers\<close>

definition authorised :: "internal_env \<Rightarrow> internal_request \<Rightarrow> dash_call \<Rightarrow> database \<Rightarrow> session_data \<Rightarrow> bool" where
  "authorised env req c db s =
     (requireSession env req (\<not> early_call c) True db = Inr s \<and> (early_call c \<or> sd_role s = Admin))"

definition session_owner :: "database \<Rightarrow> session_data \<Rightarrow> bool" where
  "session_owner db s = (\<forall>u \<in> set (users db). u_id u = sd_userId s \<longrightarrow> u_orgId u = sd_orgId s)"

lemma with_session_cases:
  assumes "with_session env req mfa csrf db h = (reply, cookie, db')"
  obtains (admitted) s where "requireSession env req mfa csrf db = Inr s" "h s = (reply, cookie, db')"
  | (rejected) r where "db' = db" "reply = Inr r" "hr_status r = 401" "cookie = None \<or> cookie = Some (clearSession env)"
  using assms
  by (auto simp: with_session_def requireSession_def Let_def split: option.splits if_splits sum.splits)

lemma requireSession_Inr:
  assumes "requireSession env req mfa csrf db = Inr s"
  shows "readSession env req = Some s" "active_org db (sd_orgId s) \<noteq> None" "mfa \<Longrightarrow> sd_mfaVerified s"
    "csrf \<Longrightarrow> iq_csrf req = Some (sd_csrfToken s)"
  using assms by (auto simp: requireSession_def getOrgSettings_def Let_def split: option.splits if_splits)

lemma requireSession_no_csrf: "requireSession env req mfa True db = Inr s \<Longrightarrow> requireSession env req mfa False db = Inr s"
  by (auto simp: requireSession_def Let_def split: option.splits if_splits)

lemma refuse_simps [simp]:
  "refuse env code db = (reply, cookie, db') \<longleftrightarrow> reply = Inr (send_default (ie_requestId env) code) \<and> cookie = None \<and> db' = db"
  "refuse_with env code m db = (reply, cookie, db') \<longleftrightarrow> reply = Inr (sendError (ie_requestId env) code m) \<and> cookie = None \<and> db' = db"
  by (auto simp: refuse_def refuse_with_def)


text \<open>A handler's effect is that of an authorised session, on its own organization, or none.\<close>

definition acts :: "internal_env \<Rightarrow> internal_request \<Rightarrow> dash_call \<Rightarrow> database \<Rightarrow> database \<Rightarrow> bool" where
  "acts env req c db db' = (db' = db \<or> (\<exists>s. authorised env req c db s \<and> tenant_step (sd_orgId s) db db'))"

lemma acts_same [simp]: "acts env req c db db"
  by (simp add: acts_def)

lemma actsI: "authorised env req c db s \<Longrightarrow> tenant_step (sd_orgId s) db db' \<Longrightarrow> acts env req c db db'"
  by (auto simp: acts_def)

lemma with_session_acts:
  assumes "with_session env req (\<not> early_call c) True db h = (reply, cookie, db')"
    and "\<And>s. requireSession env req (\<not> early_call c) True db = Inr s \<Longrightarrow> h s = (reply, cookie, db') \<Longrightarrow> db' \<noteq> db \<Longrightarrow>
      (early_call c \<or> sd_role s = Admin) \<and> tenant_step (sd_orgId s) db db'"
  shows "acts env req c db db'"
  using assms(1)
proof (cases rule: with_session_cases)
  case (admitted s)
  then show ?thesis
    using assms(2) [OF admitted] by (cases "db' = db") (auto simp: acts_def authorised_def)
qed simp

lemma logout_acts: "post_logout env req db = (reply, cookie, db') \<Longrightarrow> acts env req C_logout db db'"
  unfolding post_logout_def
  by (erule with_session_cases)
    (auto simp: authorised_def user_audit_def org_audit_def split: sum.splits intro!: actsI intro: audit_step)

lemma getUserById_Some: "getUserById db i = Some u \<Longrightarrow> u \<in> set (users db) \<and> u_id u = i"
  unfolding getUserById_def by (drule first_row_Some_mem) auto

lemma enroll_acts:
  assumes "post_mfa_enroll env req db = (reply, cookie, db')" "\<And>s. readSession env req = Some s \<Longrightarrow> session_owner db s"
  shows "acts env req C_enroll db db'"
  using assms(1) unfolding post_mfa_enroll_def
proof (cases rule: with_session_cases)
  case (admitted s)
  have own: "session_owner db s" using assms(2) requireSession_Inr(1) [OF admitted(1)] by blast
  show ?thesis
  proof (cases "db' = db")
    case False
    then obtain user where "getUserById db (sd_userId s) = Some user"
      and en: "enrollMfa (ie_dbnow env) (ie_auditId env) (ie_sha256Hex env) db (u_id user) (generateTotpSecret (ie_random20 env))
        (ie_recoveryCodes env) (ie_now env) = Inr db'"
      using admitted(2) by (auto simp: Let_def split: option.splits if_splits sum.splits)
    with getUserById_Some have "u_id user = sd_userId s" by blast
    with own en have "tenant_step (sd_orgId s) db db'" by (intro enroll_step [OF en]) (simp add: session_owner_def)
    with admitted(1) show ?thesis by (intro actsI [of _ _ _ _ s]) (simp_all add: authorised_def)
  qed simp
qed simp

lemma second_factor_step:
  assumes "second_factor env db user secret code = Inr (meth, db1)" "\<forall>u \<in> set (users db). u_id u = u_id user \<longrightarrow> u_orgId u = actor"
  shows "tenant_step actor db db1"
proof (cases "db1 = db")
  case False
  then obtain used where "consumeRecoveryCode (ie_dbnow env) (ie_auditId env) (ie_sha256Hex env) db (u_id user) code (ie_now env) = Inr (used, db1)"
    using assms(1)
    by (cases "consumeRecoveryCode (ie_dbnow env) (ie_auditId env) (ie_sha256Hex env) db (u_id user) code (ie_now env)")
      (auto simp: second_factor_def split: option.splits bool.splits)
  from recovery_step [OF this assms(2)] show ?thesis .
qed simp

lemma verify_code_cases:
  assumes "verify_code env code db s = (reply, cookie, db')"
  obtains (refused) "db' = db" "cookie = None" "\<And>r. reply = Inr r \<Longrightarrow> hr_status r \<noteq> 200"
  | (tried) user secret meth db1 where "getUserById db (sd_userId s) = Some user" "u_mfaSecret user = Some secret"
      "second_factor env db user secret (js_trim code) = Inr (meth, db1)"
      "db' = db1 \<or> (\<exists>m. recordAuditEvent (ie_dbnow env) (ie_auditId2 env) db1
          (org_audit (sd_orgId s) (Some (u_id user)) ''user.mfa_verified'' ''user'' (u_id user) m) (ie_now env) = Inr db')"
      "cookie = None \<or> cookie = Some (writeSession env (s\<lparr>sd_mfaVerified := True\<rparr>)) \<and> meth \<noteq> None"
  using assms by (auto simp: verify_code_def Let_def split: option.splits sum.splits prod.splits) blast

lemma verify_acts:
  assumes "post_mfa_verify env req code db = (reply, cookie, db')" "\<And>s. readSession env req = Some s \<Longrightarrow> session_owner db s"
  shows "acts env req (C_verify code) db db'"
proof (cases "text_between 6 32 code")
  case True
  then have "with_session env req (\<not> early_call (C_verify code)) True db (verify_code env code db) = (reply, cookie, db')"
    using assms(1) by (simp add: post_mfa_verify_def)
  then show ?thesis
  proof (rule with_session_acts)
    fix s
    assume adm: "requireSession env req (\<not> early_call (C_verify code)) True db = Inr s"
      and h: "verify_code env code db s = (reply, cookie, db')" and "db' \<noteq> db"
    have own: "session_owner db s" using assms(2) requireSession_Inr(1) [OF adm] by blast
    from h have "tenant_step (sd_orgId s) db db'"
    proof (cases rule: verify_code_cases)
      case (tried user secret meth db1)
      then have "u_id user = sd_userId s" using getUserById_Some by blast
      with own have "tenant_step (sd_orgId s) db db1"
        by (intro second_factor_step [OF tried(3)]) (simp add: session_owner_def)
      moreover have "tenant_step (sd_orgId s) db1 db'"
        using tried(4) audit_step [where actor = "sd_orgId s"] by (auto simp: org_audit_def)
      ultimately show ?thesis by (rule tenant_step_trans)
    qed simp
    then show "(early_call (C_verify code) \<or> sd_role s = Admin) \<and> tenant_step (sd_orgId s) db db'" by simp
  qed
next
  case False
  with assms(1) show ?thesis by (simp add: post_mfa_verify_def)
qed

lemma create_key_acts: "post_keys env req name db = (reply, cookie, db') \<Longrightarrow> acts env req (C_create_key name) db db'"
  unfolding post_keys_def
  by (auto split: if_splits elim!: with_session_acts [where c = "C_create_key name", simplified] dest!: create_key_step
      split: sum.splits prod.splits create_api_key_result.splits)

lemma listed_key: "list_ex (\<lambda>k. k_id k = i) (listApiKeysForOrg db o') \<longleftrightarrow> (\<exists>k \<in> set (apiKeys db). k_id k = i \<and> k_orgId k = o')"
  by (auto simp: listApiKeysForOrg_def list_ex_iff order_desc_def)

lemma revoke_acts:
  assumes "post_key_revoke env req i db = (reply, cookie, db')" "distinct (map k_id (apiKeys db))"
  shows "acts env req (C_revoke_key i) db db'"
  using assms(1) unfolding post_key_revoke_def
proof (cases rule: with_session_cases)
  case (admitted s)
  show ?thesis
  proof (cases "db' = db")
    case False
    then obtain r where adm: "sd_role s = Admin" and own: "list_ex (\<lambda>k. k_id k = i) (listApiKeysForOrg db (sd_orgId s))"
      and rev: "revokeApiKeyById (ie_dbnow env) (ie_auditId env) db i (Some (sd_userId s)) (ie_now env) (ie_now env) = Inr (r, db')"
      using admitted(2) by (auto split: if_splits sum.splits prod.splits)
    from own assms(2) have "\<forall>k \<in> set (apiKeys db). k_id k = i \<longrightarrow> k_orgId k = sd_orgId s"
      unfolding listed_key by (auto simp: distinct_map inj_on_def)
    from revoke_step [OF rev this] adm admitted(1) show ?thesis by (intro actsI [of _ _ _ _ s]) (simp_all add: authorised_def)
  qed simp
qed simp

lemma settings_acts: "post_settings env req name days db = (reply, cookie, db') \<Longrightarrow> acts env req (C_update_settings name days) db db'"
  unfolding post_settings_def
  by (auto split: if_splits elim!: with_session_acts [where c = "C_update_settings name days", simplified] dest!: settings_step
      split: sum.splits prod.splits)

lemma org_delete_acts: "post_org_delete env req name db = (reply, cookie, db') \<Longrightarrow> acts env req (C_delete_org name) db db'"
  unfolding post_org_delete_def
  by (auto split: if_splits elim!: with_session_acts [where c = "C_delete_org name", simplified] dest!: softDelete_step
      split: sum.splits prod.splits option.splits)

lemma delete_all_acts:
  assumes "post_delete_all env req storage confirm db st = ((reply, cookie, db'), st')"
  shows "acts env req (C_delete_all confirm) db db'"
proof (cases "db' = db")
  case False
  then obtain s client where adm: "requireSession env req True True db = Inr s" "sd_role s = Admin" "storage = Some client"
    and ok: "text_between 1 32 confirm" "confirm = ''DELETE''"
    using assms by (auto simp: post_delete_all_def split: if_splits sum.splits option.splits)
  define w where "w = wipeCheckDataForOrg db st (sd_orgId s) (wipe_callback client)"
  have "\<exists>x. w = Inr x" using assms adm ok False by (cases w) (auto simp: post_delete_all_def w_def)
  then obtain wiped db1 st1 where wipe: "w = Inr (wiped, db1, st1)" by (metis prod_cases3)
  have rest: "db' = db1 \<or> (\<exists>m. recordAuditEvent (ie_dbnow env) (ie_auditId env) db1
      (user_audit s ''check_data.deleted'' ''organization'' (sd_orgId s) m) (ie_now env) = Inr db')"
    using assms adm ok wipe unfolding w_def
    by (cases wiped) (auto simp: post_delete_all_def split: sum.splits)
  have "tenant_step (sd_orgId s) db1 db'"
    using rest audit_step [where actor = "sd_orgId s"] by (auto simp: user_audit_def org_audit_def)
  with wipe_step [OF wipe [unfolded w_def]] have "tenant_step (sd_orgId s) db db'" by (rule tenant_step_trans)
  with adm show ?thesis by (intro actsI [of _ _ _ _ s]) (simp_all add: authorised_def)
qed simp

lemma export_acts:
  assumes "post_export env req storage dbs db db st = Some ((reply, cookie, db'), st')"
  shows "acts env req C_export db db'"
proof (cases "db' = db")
  case False
  then obtain s xenv where adm: "requireSession env req True True db = Inr s" "sd_role s = Admin" "storage = Some xenv"
    using assms by (auto simp: post_export_def split: if_splits sum.splits option.splits)
  obtain r st1 where build: "buildOrgDataExport xenv dbs (sd_orgId s) (ie_clock env) st = Some (r, st1)"
    using assms adm by (auto simp: post_export_def)
  obtain x where "r = Inr x" using assms adm build False by (cases r) (auto simp: post_export_def)
  then obtain m where a: "recordAuditEvent (ie_dbnow env) (ie_auditId env) db
      (user_audit s ''data.exported'' ''organization'' (sd_orgId s) m) (ie_now env) = Inr db'"
    using assms adm build False by (auto simp: post_export_def split: sum.splits)
  have "tenant_step (sd_orgId s) db db'" using audit_step [OF a] by (simp add: user_audit_def org_audit_def)
  with adm show ?thesis by (intro actsI [of _ _ _ _ s]) (simp_all add: authorised_def)
qed simp

lemma reads_only:
  "get_me env req db = (reply, cookie, db') \<Longrightarrow> db' = db"
  "get_overview env req db = (reply, cookie, db') \<Longrightarrow> db' = db"
  "get_keys env req db = (reply, cookie, db') \<Longrightarrow> db' = db"
  "get_settings env req db = (reply, cookie, db') \<Longrightarrow> db' = db"
  by (auto simp: get_me_def get_overview_def get_keys_def get_settings_def Let_def split: option.splits elim!: with_session_cases)

lemma run_call_acts:
  assumes "run_call env req storage c db st = Some ((reply, cookie, db'), st')" "\<not> public_call c"
    and "\<And>s. readSession env req = Some s \<Longrightarrow> session_owner db s" "distinct (map k_id (apiKeys db))"
  shows "acts env req c db db'"
  using assms
  by (cases c)
    (auto dest: reads_only logout_acts create_key_acts settings_acts org_delete_acts delete_all_acts export_acts
      intro: enroll_acts verify_acts revoke_acts)

end
