(* ===== verification/Spec2Isabelle.thy ===== *)
theory Spec2Isabelle
  imports Core_Plans Core_Email Credit_System Shared_Ssrf Worker_Smtp Worker_Batch Worker_Webhook Worker_Sweep Dashboard_System
begin

text \<open>
  Verification of the TozaList list-cleaning service.
\<close>

end
